(* ===== verification/Prelude.thy ===== *)
theory Prelude
  imports Main "HOL-Library.AList" "HOL-Library.Multiset" "HOL-Library.Product_Lexorder"
begin

section \<open>Shared vocabulary of the development\<close>

text \<open>
  The types, the generic list lemmas and the fact collections the components share.
  A JavaScript string is the list of its UTF-16 code units (\<open>jstr\<close>); identifiers, tokens and
  table codes, which are ASCII and only ever compared, are \<open>string\<close>. An instant is a number
  of milliseconds (\<open>Date.getTime\<close>). The database is the state of the model: one list of rows
  per Prisma model, oldest first, and the Prisma statements the code issues are the functions
  \<open>findFirst\<close>, \<open>updateMany\<close>, \<open>deleteMany\<close>, \<open>countWhere\<close> and \<open>orderBy\<close>
  below, each of them one atomic step. An uncaught exception is a value too
  (\<open>Crash\<close>, \<open>Threw\<close>).
\<close>

named_theorems component_defs \<open>definitions a component's proofs unfold\<close>
named_theorems frame_simps \<open>fields an operation leaves unchanged\<close>

type_synonym id = string
type_synonym time = int
type_synonym jstr = "nat list"

subsection \<open>Results\<close>

text \<open>
  \<open>'a response\<close> is what a route handler answers: \<open>Ok body\<close> for a 200, \<open>Fail code error fields\<close>
  for \<open>NextResponse.json({ error, ...fields }, { status })\<close>, and \<open>Crash\<close> for an exception
  that leaves the handler (Next answers 500). A library function that can refuse or throw
  returns an \<open>outcome\<close>.
\<close>

datatype field = FStr string | FNum int | FText jstr

datatype 'a response = Ok 'a | Fail nat string "(string \<times> field) list" | Crash

datatype ('e, 'a) outcome = Done 'a | Refused 'e | Threw

fun is_ok :: "'a response \<Rightarrow> bool" where
  "is_ok (Ok _) = True"
| "is_ok _ = False"

text \<open>A Prisma \<open>Int\<close> column is a 32-bit integer; writing a value outside it throws.\<close>

definition int4 :: "int \<Rightarrow> bool" where
  "int4 n \<longleftrightarrow> - (2 ^ 31) \<le> n \<and> n < 2 ^ 31"

subsection \<open>Statements on a table\<close>

definition findFirst :: "('r \<Rightarrow> bool) \<Rightarrow> 'r list \<Rightarrow> 'r option" where
  "findFirst = List.find"

definition updateMany :: "('r \<Rightarrow> bool) \<Rightarrow> ('r \<Rightarrow> 'r) \<Rightarrow> 'r list \<Rightarrow> 'r list" where
  "updateMany p f rows = map (\<lambda>r. if p r then f r else r) rows"

definition deleteMany :: "('r \<Rightarrow> bool) \<Rightarrow> 'r list \<Rightarrow> 'r list" where
  "deleteMany p rows = filter (\<lambda>r. \<not> p r) rows"

definition countWhere :: "('r \<Rightarrow> bool) \<Rightarrow> 'r list \<Rightarrow> nat" where
  "countWhere p rows = length (filter p rows)"

definition orderBy :: "('r \<Rightarrow> 'k::linorder) \<Rightarrow> 'r list \<Rightarrow> 'r list" where
  "orderBy k rows = sort_key k rows"

definition orderByDesc :: "('r \<Rightarrow> int) \<Rightarrow> 'r list \<Rightarrow> 'r list" where
  "orderByDesc k rows = sort_key (\<lambda>r. - k r) rows"

text \<open>Postgres sorts nulls last in an ascending order.\<close>

definition nullsLast :: "int option \<Rightarrow> nat \<times> int" where
  "nullsLast v = (case v of Some t \<Rightarrow> (0, t) | None \<Rightarrow> (1, 0))"

lemma findFirst_Nil [simp]: "findFirst p [] = None"
  by (simp add: findFirst_def)

lemma findFirst_Cons [simp]: "findFirst p (r # rs) = (if p r then Some r else findFirst p rs)"
  by (simp add: findFirst_def)

lemma findFirst_SomeD: "findFirst p rows = Some r \<Longrightarrow> r \<in> set rows \<and> p r"
  by (induction rows) (auto split: if_splits)

lemma findFirst_None_iff: "findFirst p rows = None \<longleftrightarrow> (\<forall>r \<in> set rows. \<not> p r)"
  by (induction rows) auto

lemma findFirst_Some_ex: "r \<in> set rows \<Longrightarrow> p r \<Longrightarrow> \<exists>r'. findFirst p rows = Some r'"
  by (induction rows) auto

lemma findFirst_append:
  "findFirst p (xs @ ys) = (case findFirst p xs of None \<Rightarrow> findFirst p ys | Some r \<Rightarrow> Some r)"
  by (induction xs) auto

text \<open>With unique keys a lookup by key finds the row and nothing else.\<close>

lemma findFirst_key:
  "distinct (map k rows) \<Longrightarrow> r \<in> set rows \<Longrightarrow> findFirst (\<lambda>x. k x = k r) rows = Some r"
  by (induction rows) (auto simp: image_iff)

lemma findFirst_key_eq:
  "distinct (map k rows) \<Longrightarrow> r \<in> set rows \<Longrightarrow> k r = i \<Longrightarrow> findFirst (\<lambda>x. k x = i) rows = Some r"
  using findFirst_key by fastforce

lemma updateMany_Nil [simp]: "updateMany p f [] = []"
  by (simp add: updateMany_def)

lemma updateMany_Cons [simp]:
  "updateMany p f (r # rs) = (if p r then f r else r) # updateMany p f rs"
  by (simp add: updateMany_def)

lemma length_updateMany [simp]: "length (updateMany p f rows) = length rows"
  by (simp add: updateMany_def)

lemma set_updateMany: "set (updateMany p f rows) = (\<lambda>r. if p r then f r else r) ` set rows"
  by (auto simp: updateMany_def)

lemma updateMany_id: "(\<And>r. r \<in> set rows \<Longrightarrow> \<not> p r) \<Longrightarrow> updateMany p f rows = rows"
  by (induction rows) auto

lemma map_updateMany:
  "(\<And>r. p r \<Longrightarrow> k (f r) = k r) \<Longrightarrow> map k (updateMany p f rows) = map k rows"
  by (induction rows) auto

lemma filter_updateMany_other:
  "(\<And>r. p r \<Longrightarrow> \<not> q r) \<Longrightarrow> (\<And>r. p r \<Longrightarrow> \<not> q (f r)) \<Longrightarrow>
   filter q (updateMany p f rows) = filter q rows"
  by (induction rows) auto

lemma sum_updateMany_other:
  "(\<And>r. p r \<Longrightarrow> g (f r) = g r) \<Longrightarrow>
   sum_list (map g (updateMany p f rows)) = (sum_list (map g rows) :: int)"
  by (simp add: map_updateMany)

lemma findFirst_updateMany_key:
  assumes "\<And>r. k (f r) = k r"
  shows "findFirst (\<lambda>r. k r = i) (updateMany p f rows) =
    map_option (\<lambda>r. if p r then f r else r) (findFirst (\<lambda>r. k r = i) rows)"
  using assms by (induction rows) auto

lemma sum_filter_updateMany:
  assumes "\<And>r. q (f r) = q r" and "\<And>r. g (f r) = g r"
  shows "sum_list (map g (filter q (updateMany p f rows))) = (sum_list (map g (filter q rows)) :: int)"
  using assms by (induction rows) auto

lemma filter_kept:
  "(\<And>x. x \<in> set xs \<Longrightarrow> P x \<Longrightarrow> \<not> q x) \<Longrightarrow> (\<And>x. x \<in> set xs \<Longrightarrow> q x \<Longrightarrow> \<not> P (f x)) \<Longrightarrow>
   filter P (updateMany q f xs) = filter P xs"
  by (induction xs) auto

lemma filter_deleteMany_other:
  "(\<And>x. x \<in> set xs \<Longrightarrow> P x \<Longrightarrow> \<not> q x) \<Longrightarrow> filter P (deleteMany q xs) = filter P xs"
  by (induction xs) (auto simp: deleteMany_def)

lemma filter_updateMany_drop:
  "(\<And>x. x \<in> set rows \<Longrightarrow> q x \<Longrightarrow> \<not> P (f x)) \<Longrightarrow> filter P (updateMany q f rows) = filter (\<lambda>x. P x \<and> \<not> q x) rows"
  by (induction rows) auto

text \<open>An update that selects one row by a unique key.\<close>

lemma updateMany_one:
  assumes "distinct (map k xs)" "x \<in> set xs" "p x" "\<And>y. y \<in> set xs \<Longrightarrow> p y \<Longrightarrow> k y = k x"
  obtains ys zs where "xs = ys @ x # zs" "updateMany p f xs = ys @ f x # zs"
proof -
  obtain ys zs where xs: "xs = ys @ x # zs" using split_list[OF assms(2)] by blast
  have no: "\<not> p y" if "y \<in> set ys \<union> set zs" for y
  proof
    assume "p y"
    then have "k y = k x" using assms(4)[of y] that xs by auto
    moreover have "k x \<notin> k ` (set ys \<union> set zs)" using assms(1) xs by auto
    ultimately show False using imageI[OF that, of k] by simp
  qed
  have "updateMany p f ys = ys" "updateMany p f zs = zs" using no by (auto intro!: updateMany_id)
  moreover have "updateMany p f (us @ vs) = updateMany p f us @ updateMany p f vs" for us vs
    by (simp add: updateMany_def)
  ultimately show thesis using that[OF xs] assms(3) by (simp add: xs)
qed

lemma sum_filter_disjoint:
  "(\<And>x. x \<in> set xs \<Longrightarrow> p x \<Longrightarrow> \<not> q x) \<Longrightarrow>
   (sum_list (map g (filter (\<lambda>x. p x \<or> q x) xs)) :: int) =
   sum_list (map g (filter p xs)) + sum_list (map g (filter q xs))"
  by (induction xs) auto

lemma countWhere_disjoint:
  "(\<And>x. x \<in> set xs \<Longrightarrow> p x \<Longrightarrow> \<not> q x) \<Longrightarrow>
   countWhere (\<lambda>x. p x \<or> q x) xs = countWhere p xs + countWhere q xs"
  by (induction xs) (auto simp: countWhere_def)

lemma findFirst_map:
  "(\<And>x. P (g x) = P x) \<Longrightarrow> findFirst P (map g rows) = map_option g (findFirst P rows)"
  by (induction rows) auto

lemma updateMany_ball:
  "(\<And>r. r \<in> set rows \<Longrightarrow> P r) \<Longrightarrow> (\<And>r. P r \<Longrightarrow> p r \<Longrightarrow> P (f r)) \<Longrightarrow>
   r \<in> set (updateMany p f rows) \<Longrightarrow> P r"
  by (auto simp: set_updateMany)

lemma list_all_updateMany:
  "list_all P rows \<Longrightarrow> (\<And>r. P r \<Longrightarrow> p r \<Longrightarrow> P (f r)) \<Longrightarrow> list_all P (updateMany p f rows)"
  by (induction rows) auto

lemma deleteMany_set [simp]: "set (deleteMany p rows) = {r \<in> set rows. \<not> p r}"
  by (auto simp: deleteMany_def)

lemma countWhere_0_iff: "countWhere p rows = 0 \<longleftrightarrow> (\<forall>r \<in> set rows. \<not> p r)"
  by (auto simp: countWhere_def filter_empty_conv)

lemma countWhere_pos_iff: "0 < countWhere p rows \<longleftrightarrow> (\<exists>r \<in> set rows. p r)"
  by (auto simp: countWhere_def filter_empty_conv)

lemma set_orderBy [simp]: "set (orderBy k rows) = set rows"
  by (simp add: orderBy_def)

lemma set_orderByDesc [simp]: "set (orderByDesc k rows) = set rows"
  by (simp add: orderByDesc_def)

lemma length_orderBy [simp]: "length (orderBy k rows) = length rows"
  by (simp add: orderBy_def)

lemma length_orderByDesc [simp]: "length (orderByDesc k rows) = length rows"
  by (simp add: orderByDesc_def)

lemma sum_list_sort_key:
  "sum_list (map g (sort_key k rows)) = (sum_list (map g rows) :: int)"
proof -
  have "mset (map g (sort_key k rows)) = mset (map g rows)" by simp
  then show ?thesis by (metis sum_mset_sum_list)
qed

lemma sum_list_orderBy [simp]:
  "sum_list (map g (orderBy k rows)) = (sum_list (map g rows) :: int)"
  by (simp add: orderBy_def sum_list_sort_key)

lemma distinct_orderBy: "distinct (map g (orderBy k rows)) \<longleftrightarrow> distinct (map g rows)"
proof -
  have "mset (map g (orderBy k rows)) = mset (map g rows)" by (simp add: orderBy_def)
  then show ?thesis by (metis mset_eq_imp_distinct_iff)
qed

subsection \<open>JavaScript strings and numbers\<close>

definition lit :: "string \<Rightarrow> jstr" where
  "lit s = map of_char s"

text \<open>\<open>String(n)\<close> for an integer.\<close>

fun show_nat :: "nat \<Rightarrow> jstr" where
  "show_nat n = (if n < 10 then [48 + n] else show_nat (n div 10) @ [48 + n mod 10])"

declare show_nat.simps [simp del]

definition show_int :: "int \<Rightarrow> jstr" where
  "show_int n = (if n < 0 then 45 # show_nat (nat (- n)) else show_nat (nat n))"

text \<open>The white space that \<open>String.prototype.trim\<close> removes.\<close>

definition is_ws :: "nat \<Rightarrow> bool" where
  "is_ws c \<longleftrightarrow> (9 \<le> c \<and> c \<le> 13) \<or> c = 32 \<or> c = 160 \<or> c = 5760 \<or> (8192 \<le> c \<and> c \<le> 8202) \<or>
     c = 8232 \<or> c = 8233 \<or> c = 8239 \<or> c = 8287 \<or> c = 12288 \<or> c = 65279"

definition trim :: "jstr \<Rightarrow> jstr" where
  "trim s = rev (dropWhile is_ws (rev (dropWhile is_ws s)))"

text \<open>\<open>s.split(sep)\<close> for a one-character separator; the empty string splits into \<open>[""]\<close>.\<close>

fun split_on :: "nat \<Rightarrow> jstr \<Rightarrow> jstr list" where
  "split_on d [] = [[]]"
| "split_on d (c # cs) =
     (if c = d then [] # split_on d cs
      else (case split_on d cs of w # ws \<Rightarrow> (c # w) # ws | [] \<Rightarrow> [[c]]))"

fun join_with :: "jstr \<Rightarrow> jstr list \<Rightarrow> jstr" where
  "join_with sep [] = []"
| "join_with sep [s] = s"
| "join_with sep (s # t # ss) = s @ sep @ join_with sep (t # ss)"

text \<open>\<open>s.includes(q)\<close>.\<close>

fun occurs_in :: "jstr \<Rightarrow> jstr \<Rightarrow> bool" where
  "occurs_in [] q = (q = [])"
| "occurs_in (c # cs) q = (take (length q) (c # cs) = q \<or> occurs_in cs q)"

text \<open>\<open>Math.ceil(a / b)\<close> and \<open>Math.round(a / b)\<close> for integers with \<open>0 < b\<close>.\<close>

definition ceil_div :: "int \<Rightarrow> int \<Rightarrow> int" where
  "ceil_div a b = - ((- a) div b)"

definition round_div :: "int \<Rightarrow> int \<Rightarrow> int" where
  "round_div a b = (2 * a + b) div (2 * b)"

lemma split_on_ne_Nil [simp]: "split_on d s \<noteq> []"
  by (induction s) (auto split: list.splits)

lemma join_split: "join_with [d] (split_on d s) = s"
proof (induction s)
  case Nil
  then show ?case by simp
next
  case (Cons c cs)
  then show ?case
    by (cases "split_on d cs"; cases "tl (split_on d cs)") auto
qed

lemma lit_Cons: "lit (c # cs) = of_char c # lit cs"
  by (simp add: lit_def)

lemma lit_Nil [simp]: "lit [] = []"
  by (simp add: lit_def)

lemma length_lit [simp]: "length (lit s) = length s"
  by (simp add: lit_def)

lemma lit_append: "lit (s @ t) = lit s @ lit t"
  by (simp add: lit_def)

lemma lit_inj [simp]: "lit s = lit t \<longleftrightarrow> s = t"
  unfolding lit_def by (intro inj_map_eq_map injI) (metis char_of_char)

text \<open>A separator that does not occur in the first part marks where it ends.\<close>

lemma append_sep_inj:
  "d \<notin> set a \<Longrightarrow> d \<notin> set b \<Longrightarrow> a @ d # x = b @ d # y \<Longrightarrow> a = b \<and> x = y"
proof (induction a arbitrary: b)
  case Nil
  then show ?case by (cases b) auto
next
  case (Cons c a)
  then show ?case by (cases b) auto
qed

lemma append_sep_inj_last:
  assumes "d \<notin> set x" "d \<notin> set y" "a @ d # x = b @ d # y"
  shows "a = b \<and> x = y"
proof -
  have "rev x @ d # rev a = rev y @ d # rev b"
    using arg_cong[OF assms(3), of rev] by simp
  then show ?thesis
    using append_sep_inj[of d "rev x" "rev y" "rev a" "rev b"] assms(1,2) by simp
qed

subsection \<open>Machines and their invariants\<close>

text \<open>
  A component that evolves by steps is a predicate for its initial states and a step
  relation. A locale states the contract of an invariant; every component that has one
  interprets it.
\<close>

inductive reachable :: "('s \<Rightarrow> bool) \<Rightarrow> ('s \<Rightarrow> 's \<Rightarrow> bool) \<Rightarrow> 's \<Rightarrow> bool"
  for ini :: "'s \<Rightarrow> bool" and stp :: "'s \<Rightarrow> 's \<Rightarrow> bool" where
  reach_init: "ini s \<Longrightarrow> reachable ini stp s"
| reach_step: "reachable ini stp s \<Longrightarrow> stp s t \<Longrightarrow> reachable ini stp t"

locale machine_invariant =
  fixes ini :: "'s \<Rightarrow> bool" and stp :: "'s \<Rightarrow> 's \<Rightarrow> bool" and inv :: "'s \<Rightarrow> bool"
  assumes inv_init: "ini s \<Longrightarrow> inv s"
    and inv_step: "stp s t \<Longrightarrow> inv s \<Longrightarrow> inv t"
begin

lemma inv_reachable: "reachable ini stp s \<Longrightarrow> inv s"
  by (induction rule: reachable.induct) (auto intro: inv_init inv_step)

lemma inv_steps: "stp\<^sup>*\<^sup>* s t \<Longrightarrow> inv s \<Longrightarrow> inv t"
  by (induction rule: rtranclp_induct) (auto intro: inv_step)

end

subsection \<open>Conditional writes\<close>

text \<open>
  The guard several handlers rely on against a concurrent writer: an \<open>updateMany\<close> whose
  \<open>where\<close> clause repeats the state the decision was made on, and whose data falsifies that
  clause. The write reports how many rows it changed; the handler that sees 0 lost the race.
\<close>

locale conditional_write =
  fixes key :: "'r \<Rightarrow> 'k" and open_row :: "'r \<Rightarrow> bool" and upd :: "'a \<Rightarrow> 'r \<Rightarrow> 'r"
  assumes key_upd: "key (upd a r) = key r"
    and closes: "open_row r \<Longrightarrow> \<not> open_row (upd a r)"
begin

lemma second_write_loses:
  "countWhere (\<lambda>r. key r = i \<and> open_row r)
     (updateMany (\<lambda>r. key r = i \<and> open_row r) (upd a) rows) = 0"
proof -
  have "\<not> (key r = i \<and> open_row r)"
    if "r \<in> set (updateMany (\<lambda>r. key r = i \<and> open_row r) (upd a) rows)" for r
    using that closes by (auto simp: set_updateMany split: if_splits)
  then show ?thesis by (simp add: countWhere_0_iff)
qed

lemma losing_write_changes_nothing:
  "countWhere (\<lambda>r. key r = i \<and> open_row r) rows = 0 \<Longrightarrow>
   updateMany (\<lambda>r. key r = i \<and> open_row r) (upd a) rows = rows"
  by (rule updateMany_id) (auto simp: countWhere_0_iff)

lemma other_rows_kept:
  "r \<in> set rows \<Longrightarrow> key r \<noteq> i \<or> \<not> open_row r \<Longrightarrow>
   r \<in> set (updateMany (\<lambda>r. key r = i \<and> open_row r) (upd a) rows)"
  by (force simp: set_updateMany)

lemma keys_kept:
  "map key (updateMany (\<lambda>r. key r = i \<and> open_row r) (upd a) rows) = map key rows"
  by (rule map_updateMany) (simp add: key_upd)

end

end
