(* ===== verification/OrderStatus.thy ===== *)
theory OrderStatus
  imports Prelude
begin

section \<open>Order statuses and the desk's transition table\<close>

text \<open>
  \<open>src/lib/orderStatus.ts\<close> (the statuses, which of them are owed for, which are in the
  kitchen, which a customer may withdraw) and the table \<open>transitions\<close> of
  \<open>src/app/api/desk/orders/[id]/route.ts\<close>. The life of one order is the step relation
  \<open>order_step\<close>: a desk transition or the customer's own withdrawal.
\<close>

datatype order_status = Received | Accepted | Preparing | Ready | Served | Rejected | Cancelled

definition ORDER_STATUSES :: "order_status list" where
  "ORDER_STATUSES = [Received, Accepted, Preparing, Ready, Served, Rejected, Cancelled]"

definition VOID_STATUSES :: "order_status list" where
  "VOID_STATUSES = [Rejected, Cancelled]"

definition IN_FLIGHT_STATUSES :: "order_status list" where
  "IN_FLIGHT_STATUSES = [Received, Accepted, Preparing, Ready]"

text \<open>\<open>{ notIn: [...VOID_STATUSES] }\<close> as the predicate the filter denotes.\<close>

definition notVoid :: "order_status \<Rightarrow> bool" where
  "notVoid s \<longleftrightarrow> s \<notin> set VOID_STATUSES"

definition CUSTOMER_CANCELLABLE :: order_status where
  "CUSTOMER_CANCELLABLE = Received"

fun status_label :: "order_status \<Rightarrow> string" where
  "status_label Received = ''received''"
| "status_label Accepted = ''accepted''"
| "status_label Preparing = ''preparing''"
| "status_label Ready = ''ready''"
| "status_label Served = ''served''"
| "status_label Rejected = ''rejected''"
| "status_label Cancelled = ''cancelled''"

text \<open>A status without an entry in the table has no transition (\<open>transitions[s]?.includes\<close>).\<close>

fun transitions :: "order_status \<Rightarrow> order_status list" where
  "transitions Received = [Accepted, Rejected]"
| "transitions Accepted = [Preparing, Ready, Rejected]"
| "transitions Preparing = [Ready, Rejected]"
| "transitions Ready = [Served]"
| "transitions _ = []"

text \<open>The order of the list \<open>ORDER_STATUSES\<close>: how far an order has come.\<close>

fun progress :: "order_status \<Rightarrow> nat" where
  "progress Received = 0"
| "progress Accepted = 1"
| "progress Preparing = 2"
| "progress Ready = 3"
| "progress Served = 4"
| "progress Rejected = 5"
| "progress Cancelled = 6"

lemma progress_inj: "progress s = progress t \<Longrightarrow> s = t"
  by (cases s; cases t) auto

instantiation order_status :: linorder
begin

definition less_eq_order_status :: "order_status \<Rightarrow> order_status \<Rightarrow> bool" where
  "less_eq_order_status s t \<longleftrightarrow> progress s \<le> progress t"

definition less_order_status :: "order_status \<Rightarrow> order_status \<Rightarrow> bool" where
  "less_order_status s t \<longleftrightarrow> progress s < progress t"

instance
  by standard (auto simp: less_eq_order_status_def less_order_status_def intro: progress_inj)

end

lemma in_flight_iff: "s \<in> set IN_FLIGHT_STATUSES \<longleftrightarrow> s < Served"
  by (cases s) (auto simp: IN_FLIGHT_STATUSES_def less_order_status_def)

lemma notVoid_iff: "notVoid s \<longleftrightarrow> s \<le> Served"
  by (cases s) (auto simp: notVoid_def VOID_STATUSES_def less_eq_order_status_def)

lemma notVoid_simps [simp]:
  "notVoid Received" "notVoid Accepted" "notVoid Preparing" "notVoid Ready" "notVoid Served"
  "\<not> notVoid Rejected" "\<not> notVoid Cancelled"
  by (simp_all add: notVoid_def VOID_STATUSES_def)

lemma in_flight_notVoid: "s \<in> set IN_FLIGHT_STATUSES \<Longrightarrow> notVoid s"
  by (cases s) (auto simp: IN_FLIGHT_STATUSES_def)

lemma transitions_increase: "t \<in> set (transitions s) \<Longrightarrow> s < t"
  by (cases s) (auto simp: less_order_status_def)

inductive order_step :: "order_status \<Rightarrow> order_status \<Rightarrow> bool" where
  desk: "t \<in> set (transitions s) \<Longrightarrow> order_step s t"
| withdraw: "order_step CUSTOMER_CANCELLABLE Cancelled"

inductive_cases order_stepE: "order_step s t"

inductive_simps order_step_from: "order_step s t"

lemma order_step_increase: "order_step s t \<Longrightarrow> s < t"
  by (elim order_stepE)
    (auto dest: transitions_increase simp: CUSTOMER_CANCELLABLE_def less_order_status_def)

lemma order_steps_increase: "order_step\<^sup>+\<^sup>+ s t \<Longrightarrow> s < t"
  by (induction rule: tranclp_induct) (auto dest: order_step_increase)

text \<open>A run is a list of statuses, each one step after the one before.\<close>

fun order_run :: "order_status \<Rightarrow> order_status list \<Rightarrow> bool" where
  "order_run s [] \<longleftrightarrow> True"
| "order_run s (t # ts) \<longleftrightarrow> order_step s t \<and> order_run t ts"

lemma order_step_progress: "order_step s t \<Longrightarrow> progress s < progress t"
  using order_step_increase by (simp add: less_order_status_def)

lemma order_step_final: "progress s \<ge> 4 \<Longrightarrow> \<not> order_step s t"
  by (cases s) (auto elim!: order_stepE simp: CUSTOMER_CANCELLABLE_def)

lemma order_step_from_ready: "order_step Ready t \<longleftrightarrow> t = Served"
  by (auto simp: order_step_from CUSTOMER_CANCELLABLE_def)

text \<open>Steps left from a status: what a run consumes.\<close>

lemma order_run_bound: "order_run s ts \<Longrightarrow> length ts \<le> 4 - min 4 (progress s)"
proof (induction ts arbitrary: s)
  case Nil
  then show ?case by simp
next
  case (Cons t ts)
  then have st: "order_step s t" and run: "order_run t ts" by auto
  have "length ts \<le> 4 - min 4 (progress t)" using Cons.IH[OF run] .
  moreover have "progress s < 4" using order_step_final st not_le_imp_less by blast
  ultimately show ?case using order_step_progress[OF st] by simp
qed



text \<open>
  what an order can still become. Only an order the kitchen has not accepted is withdrawn by
  its customer; staff can refuse it until it is ready; an order owed for that leaves the
  kitchen states was served from \<open>ready\<close>; and the statuses in flight are exactly those with
  a step left.
\<close>

theorem order_step_shape:
  "(order_step s Cancelled \<longleftrightarrow> s = Received) \<and>
   (order_step s Rejected \<longleftrightarrow> s \<in> {Received, Accepted, Preparing}) \<and>
   (order_step s Served \<longleftrightarrow> s = Ready) \<and>
   (s \<in> set IN_FLIGHT_STATUSES \<longleftrightarrow> (\<exists>t. order_step s t))"
proof -
  have "s \<in> set IN_FLIGHT_STATUSES \<longleftrightarrow> (\<exists>t. order_step s t)"
    by (cases s) (auto simp: IN_FLIGHT_STATUSES_def order_step_from CUSTOMER_CANCELLABLE_def)
  moreover have "order_step s Cancelled \<longleftrightarrow> s = Received"
    by (cases s) (auto simp: order_step_from CUSTOMER_CANCELLABLE_def)
  moreover have "order_step s Rejected \<longleftrightarrow> s \<in> {Received, Accepted, Preparing}"
    by (cases s) (auto simp: order_step_from)
  moreover have "order_step s Served \<longleftrightarrow> s = Ready"
    by (cases s) (auto simp: order_step_from)
  ultimately show ?thesis by blast
qed

end
