(* ===== verification/Schema.thy ===== *)
theory Schema
  imports OrderStatus
begin

section \<open>The rows of the database and the state of the server\<close>

text \<open>
  The models of \<open>prisma/schema.prisma\<close> as records (an order holds its items, as the code reads
  and writes them together), the events of \<open>src/lib/bus.ts\<close>, and the state of the one server
  process: the database, the in-memory rate limiter, account cache and menu cache, the log of
  published events and the clock. The columns \<open>modifiersJson\<close> and \<open>changesJson\<close>, which the
  code only writes with \<open>JSON.stringify\<close> and reads with \<open>JSON.parse\<close>, hold the lists
  themselves. \<open>Order.updatedAt\<close>, \<open>Order.paymentRef\<close> and the \<open>slug\<close>-only columns no
  handler reads are left out.
\<close>

subsection \<open>Enumerations stored as text\<close>

datatype visit_status = Open | BillRequested | Closed
datatype closed_reason = Settled | Abandoned
datatype payment_method = Cash | Card
datatype payment_status = Unpaid | Paid
datatype role = Admin | Desk
datatype delivery_status = Pending | Claimed | Sent | Failed

subsection \<open>Venue, tables, staff\<close>

record venue =
  ven_id :: id
  ven_slug :: jstr
  ven_name :: jstr
  ven_currency :: string
  ven_defaultLocale :: string
  ven_qrSecret :: string
  ven_posAdapter :: string

record tabl =
  tab_id :: id
  tab_venueId :: id
  tab_code :: string
  tab_name :: jstr
  tab_qrVersion :: int
  tab_active :: bool
  tab_createdAt :: time

record visit =
  tv_id :: id
  tv_venueId :: id
  tv_tableId :: id
  tv_status :: visit_status
  tv_openedAt :: time
  tv_billRequestedAt :: "time option"
  tv_closedAt :: "time option"
  tv_closedReason :: "closed_reason option"
  tv_totalKurus :: "int option"
  tv_paymentMethod :: "payment_method option"
  tv_paidAmountKurus :: "int option"
  tv_closedByStaffId :: "id option"

record staff_user =
  su_id :: id
  su_venueId :: id
  su_email :: jstr
  su_name :: jstr
  su_passwordHash :: string
  su_role :: role
  su_active :: bool
  su_tokenVersion :: int
  su_createdAt :: time

subsection \<open>The menu\<close>

record category =
  cat_id :: id
  cat_venueId :: id
  cat_nameTr :: jstr
  cat_nameEn :: jstr
  cat_sortOrder :: int
  cat_active :: bool

record modifier_option =
  mo_id :: id
  mo_nameTr :: jstr
  mo_nameEn :: jstr
  mo_priceDeltaKurus :: int
  mo_sortOrder :: int

record modifier_group =
  mg_id :: id
  mg_nameTr :: jstr
  mg_nameEn :: jstr
  mg_minSelect :: int
  mg_maxSelect :: int
  mg_sortOrder :: int
  mg_options :: "modifier_option list"

record menu_item =
  mi_id :: id
  mi_venueId :: id
  mi_categoryId :: id
  mi_nameTr :: jstr
  mi_nameEn :: jstr
  mi_descTr :: jstr
  mi_descEn :: jstr
  mi_priceKurus :: int
  mi_photoUrl :: "jstr option"
  mi_tags :: jstr
  mi_available :: bool
  mi_sortOrder :: int
  mi_modifierGroups :: "modifier_group list"

subsection \<open>Sessions, orders, deliveries\<close>

record table_session =
  ts_id :: id
  ts_venueId :: id
  ts_tableId :: id
  ts_token :: string
  ts_visitId :: "id option"
  ts_createdAt :: time
  ts_lastSeenAt :: time
  ts_expiresAt :: time
  ts_revokedAt :: "time option"

record chosen_modifier =
  cm_name :: jstr
  cm_priceDeltaKurus :: int

record order_item =
  oi_id :: id
  oi_itemId :: "id option"
  oi_nameSnapshot :: jstr
  oi_unitPriceKurus :: int
  oi_qty :: int
  oi_note :: jstr
  oi_modifiers :: "chosen_modifier list"
  oi_voidedAt :: "time option"

record order =
  ord_id :: id
  ord_venueId :: id
  ord_tableId :: id
  ord_sessionId :: id
  ord_visitId :: "id option"
  ord_number :: int
  ord_status :: order_status
  ord_rejectReason :: "jstr option"
  ord_totalKurus :: int
  ord_paymentStatus :: payment_status
  ord_paymentProvider :: "payment_method option"
  ord_idempotencyKey :: "string option"
  ord_createdAt :: time
  ord_items :: "order_item list"

record line_change =
  lc_name :: jstr
  lc_fromQty :: int
  lc_toQty :: int

record order_edit =
  oe_orderId :: id
  oe_staffId :: id
  oe_staffName :: jstr
  oe_changes :: "line_change list"
  oe_afterPrint :: bool
  oe_createdAt :: time

record order_attempt =
  oa_venueId :: "id option"
  oa_tableId :: "id option"
  oa_sessionId :: "id option"
  oa_orderId :: "id option"
  oa_ip :: jstr
  oa_userAgent :: jstr
  oa_outcome :: string
  oa_detail :: jstr
  oa_createdAt :: time

record pos_delivery =
  pd_id :: id
  pd_venueId :: id
  pd_orderId :: id
  pd_adapter :: string
  pd_status :: delivery_status
  pd_attempts :: int
  pd_lastError :: "jstr option"
  pd_claimedAt :: "time option"
  pd_claimId :: "id option"
  pd_payload :: jstr
  pd_createdAt :: time
  pd_updatedAt :: time

record bridge_key =
  bk_id :: id
  bk_venueId :: id
  bk_keyHash :: string
  bk_hint :: string
  bk_label :: jstr
  bk_createdAt :: time

subsection \<open>Events\<close>

datatype bus_event =
    OrderCreated (ev_venue: id) (ev_orderId: id) (ev_sessionId: id) (ev_table: id)
  | OrderUpdated (ev_venue: id) (ev_orderId: id) (ev_sessionId: id) (ev_table: id)
  | MenuChanged (ev_venue: id)
  | SessionRevoked (ev_venue: id) (ev_sessionId: id)
  | BillRequestedEv (ev_venue: id) (ev_visitId: id) (ev_table: id)
  | BillUpdated (ev_venue: id) (ev_visitId: id) (ev_table: id)
  | VisitClosed (ev_venue: id) (ev_visitId: id) (ev_table: id)

subsection \<open>The menu payload\<close>

record option_view =
  ov_id :: id
  ov_nameTr :: jstr
  ov_nameEn :: jstr
  ov_priceDeltaKurus :: int

record group_view =
  gv_id :: id
  gv_nameTr :: jstr
  gv_nameEn :: jstr
  gv_minSelect :: int
  gv_maxSelect :: int
  gv_options :: "option_view list"

record item_view =
  iv_id :: id
  iv_nameTr :: jstr
  iv_nameEn :: jstr
  iv_descTr :: jstr
  iv_descEn :: jstr
  iv_priceKurus :: int
  iv_photoUrl :: "jstr option"
  iv_tags :: "jstr list"
  iv_available :: bool
  iv_modifierGroups :: "group_view list"

record category_view =
  cv_id :: id
  cv_nameTr :: jstr
  cv_nameEn :: jstr
  cv_items :: "item_view list"

record venue_menu =
  vm_name :: jstr
  vm_currency :: string
  vm_defaultLocale :: string
  vm_categories :: "category_view list"

subsection \<open>Server state\<close>

record rl_window =
  w_count :: int
  w_resetAt :: time

record account_state =
  ac_checkedAt :: time
  ac_active :: bool
  ac_tokenVersion :: int
  ac_role :: role
  ac_name :: jstr

record server =
  venues :: "venue list"
  tables :: "tabl list"
  visits :: "visit list"
  staffUsers :: "staff_user list"
  categories :: "category list"
  menuItems :: "menu_item list"
  sessions :: "table_session list"
  orders :: "order list"
  orderEdits :: "order_edit list"
  orderAttempts :: "order_attempt list"
  posDeliveries :: "pos_delivery list"
  bridgeKeys :: "bridge_key list"
  windows :: "(jstr \<times> rl_window) list"
  accountCache :: "(id \<times> account_state) list"
  menuCache :: "(id \<times> venue_menu) list"
  events :: "bus_event list"
  trustProxy :: bool
  now :: time

definition empty_server :: server where
  "empty_server = \<lparr>venues = [], tables = [], visits = [], staffUsers = [], categories = [],
     menuItems = [], sessions = [], orders = [], orderEdits = [], orderAttempts = [],
     posDeliveries = [], bridgeKeys = [], windows = [], accountCache = [], menuCache = [],
     events = [], trustProxy = False, now = 0\<rparr>"

text \<open>The parts of an HTTP request the handlers read.\<close>

record request =
  rq_forwardedFor :: "jstr option"
  rq_realIp :: "jstr option"
  rq_userAgent :: "jstr option"
  rq_tableSession :: "string option"

definition bare_request :: request where
  "bare_request = \<lparr>rq_forwardedFor = None, rq_realIp = None, rq_userAgent = None,
     rq_tableSession = None\<rparr>"

subsection \<open>What an order is worth\<close>

text \<open>
  The sum over the lines staff have not voided: the amount every view of an order's money must
  agree with.
\<close>

definition live_items :: "order \<Rightarrow> order_item list" where
  "live_items o' = filter (\<lambda>i. oi_voidedAt i = None) (ord_items o')"

definition line_total :: "order_item \<Rightarrow> int" where
  "line_total i = oi_unitPriceKurus i * oi_qty i"

definition order_worth :: "order \<Rightarrow> int" where
  "order_worth o' = sum_list (map line_total (live_items o'))"

definition totals_current :: "order list \<Rightarrow> bool" where
  "totals_current os \<longleftrightarrow> (\<forall>o' \<in> set os. ord_totalKurus o' = order_worth o')"

lemma totals_currentD: "totals_current os \<Longrightarrow> o' \<in> set os \<Longrightarrow> ord_totalKurus o' = order_worth o'"
  by (simp add: totals_current_def)

lemma totals_current_updateMany:
  "totals_current os \<Longrightarrow>
   (\<And>o'. p o' \<Longrightarrow> ord_totalKurus o' = order_worth o' \<Longrightarrow>
      ord_totalKurus (f o') = order_worth (f o')) \<Longrightarrow>
   totals_current (updateMany p f os)"
  by (auto simp: totals_current_def set_updateMany)

subsection \<open>Publishing and clocks\<close>

text \<open>
  \<open>publish\<close> calls the listeners of the process-wide emitter. The listener every process has
  is the one \<open>src/lib/menu.ts\<close> registers when it is loaded, which drops the venue's cached
  menu; the streams of \<open>src/lib/sse.ts\<close> read the log.
\<close>

definition publish :: "bus_event \<Rightarrow> server \<Rightarrow> server" where
  "publish e s = s\<lparr>events := events s @ [e],
     menuCache := (case e of MenuChanged v \<Rightarrow> AList.delete v (menuCache s) | _ \<Rightarrow> menuCache s)\<rparr>"

lemma publish_frame [simp]:
  "venues (publish e s) = venues s" "tables (publish e s) = tables s"
  "visits (publish e s) = visits s" "staffUsers (publish e s) = staffUsers s"
  "categories (publish e s) = categories s" "menuItems (publish e s) = menuItems s"
  "sessions (publish e s) = sessions s" "orders (publish e s) = orders s"
  "orderEdits (publish e s) = orderEdits s" "orderAttempts (publish e s) = orderAttempts s"
  "posDeliveries (publish e s) = posDeliveries s" "bridgeKeys (publish e s) = bridgeKeys s"
  "windows (publish e s) = windows s" "accountCache (publish e s) = accountCache s"
  "trustProxy (publish e s) = trustProxy s" "now (publish e s) = now s"
  "events (publish e s) = events s @ [e]"
  by (simp_all add: publish_def)

end
