(* ===== verification/Sample.thy ===== *)
theory Sample
  imports Schema
begin

section \<open>A small restaurant\<close>

text \<open>
  One venue with a table, a party of two phones and two orders, on which the witnesses of the
  properties are evaluated.
\<close>

definition sample_line :: "id \<Rightarrow> int \<Rightarrow> int \<Rightarrow> order_item" where
  "sample_line i unit n = \<lparr>oi_id = i, oi_itemId = Some ''i1'', oi_nameSnapshot = lit ''Kofte'',
     oi_unitPriceKurus = unit, oi_qty = n, oi_note = [], oi_modifiers = [], oi_voidedAt = None\<rparr>"

definition sample_order :: "id \<Rightarrow> id \<Rightarrow> int \<Rightarrow> order_status \<Rightarrow> int \<Rightarrow> order_item list \<Rightarrow> order" where
  "sample_order i sid num st amount ls = \<lparr>ord_id = i, ord_venueId = ''v1'', ord_tableId = ''t1'',
     ord_sessionId = sid, ord_visitId = Some ''w1'', ord_number = num, ord_status = st,
     ord_rejectReason = None, ord_totalKurus = amount, ord_paymentStatus = Unpaid,
     ord_paymentProvider = None, ord_idempotencyKey = None, ord_createdAt = num * 1000,
     ord_items = ls\<rparr>"

definition sample_visit :: visit where
  "sample_visit = \<lparr>tv_id = ''w1'', tv_venueId = ''v1'', tv_tableId = ''t1'', tv_status = Open,
     tv_openedAt = 0, tv_billRequestedAt = None, tv_closedAt = None, tv_closedReason = None,
     tv_totalKurus = None, tv_paymentMethod = None, tv_paidAmountKurus = None,
     tv_closedByStaffId = None\<rparr>"

definition sample_session :: "id \<Rightarrow> string \<Rightarrow> table_session" where
  "sample_session i tok = \<lparr>ts_id = i, ts_venueId = ''v1'', ts_tableId = ''t1'', ts_token = tok,
     ts_visitId = Some ''w1'', ts_createdAt = 0, ts_lastSeenAt = 100000, ts_expiresAt = 7200000,
     ts_revokedAt = None\<rparr>"

definition sample_staff :: "id \<Rightarrow> role \<Rightarrow> staff_user" where
  "sample_staff i r = \<lparr>su_id = i, su_venueId = ''v1'', su_email = lit i, su_name = lit i,
     su_passwordHash = ''h'', su_role = r, su_active = True, su_tokenVersion = 0, su_createdAt = 0\<rparr>"

definition sample_item :: menu_item where
  "sample_item = \<lparr>mi_id = ''i1'', mi_venueId = ''v1'', mi_categoryId = ''c1'',
     mi_nameTr = lit ''Kofte'', mi_nameEn = lit ''Meatballs'', mi_descTr = [], mi_descEn = [],
     mi_priceKurus = 1000, mi_photoUrl = None, mi_tags = [], mi_available = True,
     mi_sortOrder = 0, mi_modifierGroups =
       [\<lparr>mg_id = ''g1'', mg_nameTr = lit ''Boy'', mg_nameEn = lit ''Size'', mg_minSelect = 0,
         mg_maxSelect = 1, mg_sortOrder = 0, mg_options =
           [\<lparr>mo_id = ''o1'', mo_nameTr = lit ''Buyuk'', mo_nameEn = lit ''Large'',
             mo_priceDeltaKurus = 250, mo_sortOrder = 0\<rparr>]\<rparr>]\<rparr>"

definition sample_delivery :: "id \<Rightarrow> id \<Rightarrow> pos_delivery" where
  "sample_delivery i oid = \<lparr>pd_id = i, pd_venueId = ''v1'', pd_orderId = oid,
     pd_adapter = ''escpos_bridge'', pd_status = Pending, pd_attempts = 0, pd_lastError = None,
     pd_claimedAt = None, pd_claimId = None, pd_payload = lit ''G0A='', pd_createdAt = 2000,
     pd_updatedAt = 2000\<rparr>"

definition sample :: server where
  "sample = empty_server\<lparr>
     venues := [\<lparr>ven_id = ''v1'', ven_slug = lit ''heaven'', ven_name = lit ''The Heaven'',
       ven_currency = ''TRY'', ven_defaultLocale = ''tr'', ven_qrSecret = ''sec'',
       ven_posAdapter = ''escpos_bridge''\<rparr>],
     tables := [\<lparr>tab_id = ''t1'', tab_venueId = ''v1'', tab_code = ''T1'', tab_name = lit ''Masa 1'',
       tab_qrVersion = 1, tab_active = True, tab_createdAt = 0\<rparr>],
     visits := [sample_visit],
     staffUsers := [sample_staff ''a1'' Admin, sample_staff ''d1'' Desk],
     categories := [\<lparr>cat_id = ''c1'', cat_venueId = ''v1'', cat_nameTr = lit ''Izgara'',
       cat_nameEn = lit ''Grill'', cat_sortOrder = 0, cat_active = True\<rparr>],
     menuItems := [sample_item],
     sessions := [sample_session ''s1'' ''tok1'', sample_session ''s2'' ''tok2''],
     orders := [sample_order ''o1'' ''s1'' 1 Received 2500
         [sample_line ''l1'' 1000 2, sample_line ''l2'' 500 1],
       sample_order ''o2'' ''s2'' 2 Accepted 300 [sample_line ''l3'' 300 1]],
     posDeliveries := [sample_delivery ''p1'' ''o2''],
     now := 120000\<rparr>"

text \<open>The fields of the sample server, so that proofs evaluate them without opening the record.\<close>

lemma sample_fields:
  "venues sample = [\<lparr>ven_id = ''v1'', ven_slug = lit ''heaven'', ven_name = lit ''The Heaven'',
       ven_currency = ''TRY'', ven_defaultLocale = ''tr'', ven_qrSecret = ''sec'',
       ven_posAdapter = ''escpos_bridge''\<rparr>]"
  "tables sample = [\<lparr>tab_id = ''t1'', tab_venueId = ''v1'', tab_code = ''T1'', tab_name = lit ''Masa 1'',
       tab_qrVersion = 1, tab_active = True, tab_createdAt = 0\<rparr>]"
  "visits sample = [sample_visit]"
  "staffUsers sample = [sample_staff ''a1'' Admin, sample_staff ''d1'' Desk]"
  "categories sample = [\<lparr>cat_id = ''c1'', cat_venueId = ''v1'', cat_nameTr = lit ''Izgara'',
       cat_nameEn = lit ''Grill'', cat_sortOrder = 0, cat_active = True\<rparr>]"
  "menuItems sample = [sample_item]"
  "sessions sample = [sample_session ''s1'' ''tok1'', sample_session ''s2'' ''tok2'']"
  "orders sample = [sample_order ''o1'' ''s1'' 1 Received 2500
         [sample_line ''l1'' 1000 2, sample_line ''l2'' 500 1],
       sample_order ''o2'' ''s2'' 2 Accepted 300 [sample_line ''l3'' 300 1]]"
  "orderEdits sample = []"
  "orderAttempts sample = []"
  "posDeliveries sample = [sample_delivery ''p1'' ''o2'']"
  "bridgeKeys sample = []"
  "windows sample = []"
  "accountCache sample = []"
  "menuCache sample = []"
  "events sample = []"
  "trustProxy sample = False"
  "now sample = 120000"
  by (simp_all add: sample_def empty_server_def)

lemmas sample_defs = sample_fields sample_order_def sample_line_def sample_visit_def
  sample_session_def sample_staff_def sample_item_def sample_delivery_def

end
