(* ===== verification/Bill.thy ===== *)
theory Bill
  imports Sample
begin

section \<open>The itemised bill of a visit\<close>

text \<open>
  \<open>buildBill\<close> of \<open>src/lib/visit.ts\<close> and the two views of the same money: the desk's list of
  open bills (\<open>src/app/api/desk/bills/route.ts\<close>), which adds up the orders' stored totals, and
  the customer's own view (\<open>src/app/api/bill/route.ts\<close>).
\<close>

record bill_line =
  bl_name :: jstr
  bl_qty :: int
  bl_unitPriceKurus :: int
  bl_lineTotalKurus :: int
  bl_note :: jstr
  bl_modifiers :: "jstr list"

record bill_phone =
  bp_sessionId :: id
  bp_label :: jstr
  bp_totalKurus :: int

record bill =
  b_visitId :: id
  b_tableId :: id
  b_tableName :: jstr
  b_status :: visit_status
  b_openedAt :: time
  b_billRequestedAt :: "time option"
  b_lines :: "bill_line list"
  b_totalKurus :: int
  b_phones :: "bill_phone list"
  b_orderCount :: nat
  b_orderIds :: "id list"

text \<open>The orders a visit owes for, oldest first: neither refused nor withdrawn.\<close>

definition billed :: "id \<Rightarrow> order \<Rightarrow> bool" where
  "billed vid o' \<longleftrightarrow> ord_visitId o' = Some vid \<and> notVoid (ord_status o')"

definition visit_orders :: "id \<Rightarrow> order list \<Rightarrow> order list" where
  "visit_orders vid os = orderBy ord_createdAt (filter (billed vid) os)"

definition bill_line_of :: "order_item \<Rightarrow> bill_line" where
  "bill_line_of i = \<lparr>bl_name = oi_nameSnapshot i, bl_qty = oi_qty i,
     bl_unitPriceKurus = oi_unitPriceKurus i, bl_lineTotalKurus = line_total i,
     bl_note = oi_note i, bl_modifiers = map cm_name (oi_modifiers i)\<rparr>"

text \<open>
  The loop over the orders: the lines so far and the per-phone map, whose insertion order is the
  order in which the phones first appear.
\<close>

fun bill_loop ::
  "order list \<Rightarrow> bill_line list \<times> (id \<times> int) list \<Rightarrow> bill_line list \<times> (id \<times> int) list" where
  "bill_loop [] acc = acc"
| "bill_loop (o' # os) (lines, perPhone) =
     (let orderTotal = sum_list (map line_total (live_items o'));
          sofar = (case map_of perPhone (ord_sessionId o') of None \<Rightarrow> 0 | Some k \<Rightarrow> k)
      in bill_loop os (lines @ map bill_line_of (live_items o'),
                       AList.update (ord_sessionId o') (sofar + orderTotal) perPhone))"

definition phone_entries :: "(id \<times> int) list \<Rightarrow> bill_phone list" where
  "phone_entries perPhone = map (\<lambda>(i, (sid, k)).
     \<lparr>bp_sessionId = sid, bp_label = lit ''Telefon '' @ show_nat (i + 1), bp_totalKurus = k\<rparr>)
     (enumerate 0 perPhone)"

definition buildBill :: "id \<Rightarrow> server \<Rightarrow> bill option" where
  "buildBill vid s =
     (case findFirst (\<lambda>v. tv_id v = vid) (visits s) of
        None \<Rightarrow> None
      | Some v \<Rightarrow>
          (case findFirst (\<lambda>t. tab_id t = tv_tableId v) (tables s) of
             None \<Rightarrow> None
           | Some t \<Rightarrow>
               (let os = visit_orders vid (orders s);
                    (lines, perPhone) = bill_loop os ([], [])
                in Some \<lparr>b_visitId = tv_id v, b_tableId = tv_tableId v, b_tableName = tab_name t,
                     b_status = tv_status v, b_openedAt = tv_openedAt v,
                     b_billRequestedAt = tv_billRequestedAt v,
                     b_lines = lines, b_totalKurus = sum_list (map bl_lineTotalKurus lines),
                     b_phones = phone_entries perPhone, b_orderCount = length os,
                     b_orderIds = map ord_id os\<rparr>)))"

subsection \<open>What the loop computes\<close>

lemma sum_update_int:
  "distinct (map fst kvs) \<Longrightarrow>
   sum_list (map snd (AList.update k v kvs)) =
   sum_list (map snd kvs) - (case map_of kvs k of None \<Rightarrow> 0 | Some w \<Rightarrow> w) + (v::int)"
  by (induction kvs) (auto simp: map_of_eq_None_iff[THEN iffD2] split: option.splits)

lemma bill_loop_lines:
  "fst (bill_loop os (lines, per)) = lines @ concat (map (\<lambda>o'. map bill_line_of (live_items o')) os)"
  by (induction os arbitrary: lines per) (auto simp: Let_def)

lemma bill_loop_phones:
  "distinct (map fst per) \<Longrightarrow>
   distinct (map fst (snd (bill_loop os (lines, per)))) \<and>
   sum_list (map snd (snd (bill_loop os (lines, per)))) =
   sum_list (map snd per) + sum_list (map order_worth os)"
  by (induction os arbitrary: lines per)
    (auto simp: Let_def sum_update_int distinct_update order_worth_def split: option.splits)

lemma bill_loop_phone_of:
  "(case map_of (snd (bill_loop os (lines, per))) sid of None \<Rightarrow> 0 | Some k \<Rightarrow> k) =
   (case map_of per sid of None \<Rightarrow> 0 | Some k \<Rightarrow> k) +
   sum_list (map order_worth (filter (\<lambda>o'. ord_sessionId o' = sid) os))"
  by (induction os arbitrary: lines per)
    (auto simp: Let_def update_conv' order_worth_def)

lemma bl_lineTotal_of [simp]: "bl_lineTotalKurus (bill_line_of i) = line_total i"
  by (simp add: bill_line_of_def)

lemma lines_total:
  "sum_list (map bl_lineTotalKurus (concat (map (\<lambda>o'. map bill_line_of (live_items o')) os))) =
   sum_list (map order_worth os)"
  by (induction os) (auto simp: order_worth_def o_def)

lemma phone_entries_totals: "map bp_totalKurus (phone_entries per) = map snd per"
  by (rule nth_equalityI) (auto simp: phone_entries_def nth_enumerate_eq split: prod.split)

lemma phone_entries_ids: "map bp_sessionId (phone_entries per) = map fst per"
  by (rule nth_equalityI) (auto simp: phone_entries_def nth_enumerate_eq split: prod.split)

lemma buildBill_SomeD:
  assumes "buildBill vid s = Some b"
  shows "b_totalKurus b = sum_list (map order_worth (visit_orders vid (orders s)))"
    and "b_orderIds b = map ord_id (visit_orders vid (orders s))"
    and "b_orderCount b = length (visit_orders vid (orders s))"
    and "b_lines b = concat (map (\<lambda>o'. map bill_line_of (live_items o')) (visit_orders vid (orders s)))"
    and "b_phones b = phone_entries (snd (bill_loop (visit_orders vid (orders s)) ([], [])))"
proof -
  let ?os = "visit_orders vid (orders s)"
  obtain lines per where loop: "bill_loop ?os ([], []) = (lines, per)"
    by (cases "bill_loop ?os ([], [])")
  have lines: "lines = concat (map (\<lambda>o'. map bill_line_of (live_items o')) ?os)"
    using bill_loop_lines[of ?os "[]" "[]"] loop by simp
  show "b_totalKurus b = sum_list (map order_worth ?os)"
    and "b_orderIds b = map ord_id ?os"
    and "b_orderCount b = length ?os"
    and "b_lines b = concat (map (\<lambda>o'. map bill_line_of (live_items o')) ?os)"
    and "b_phones b = phone_entries (snd (bill_loop ?os ([], [])))"
    using assms lines_total[of ?os]
    by (auto simp: buildBill_def Let_def loop lines split: option.splits)
qed

lemma in_orderIds:
  "buildBill vid s = Some b \<Longrightarrow>
   i \<in> set (b_orderIds b) \<longleftrightarrow> (\<exists>o' \<in> set (orders s). billed vid o' \<and> ord_id o' = i)"
  by (auto simp: buildBill_SomeD(2) visit_orders_def)

lemma sum_visit_orders:
  "sum_list (map g (visit_orders vid os)) = (sum_list (map g (filter (billed vid) os)) :: int)"
  by (simp add: visit_orders_def)

lemma bill_worth:
  "buildBill vid s = Some b \<Longrightarrow>
   b_totalKurus b = sum_list (map order_worth (filter (billed vid) (orders s)))"
  by (simp add: buildBill_SomeD(1) sum_visit_orders)

text \<open>
  the bill adds up. Its total is what the visit's orders are worth (voided lines and refused
  or withdrawn orders excluded), the per-phone shares sum to that total with one entry per phone,
  and the orders it names are exactly the ones it charges for.
\<close>

theorem bill_adds_up:
  assumes "buildBill vid s = Some b"
  shows "b_totalKurus b = sum_list (map order_worth (filter (billed vid) (orders s))) \<and>
    sum_list (map bp_totalKurus (b_phones b)) = b_totalKurus b \<and>
    distinct (map bp_sessionId (b_phones b)) \<and>
    set (b_orderIds b) = ord_id ` {o' \<in> set (orders s). billed vid o'}"
proof -
  note b = buildBill_SomeD[OF assms]
  have "sum_list (map bp_totalKurus (b_phones b)) = b_totalKurus b"
    using bill_loop_phones[of "[]" "visit_orders vid (orders s)" "[]"] b
    by (simp add: phone_entries_totals)
  moreover have "distinct (map bp_sessionId (b_phones b))"
    using bill_loop_phones[of "[]" "visit_orders vid (orders s)" "[]"] b
    by (simp add: phone_entries_ids)
  moreover have "set (b_orderIds b) = ord_id ` {o' \<in> set (orders s). billed vid o'}"
    using in_orderIds[OF assms] by (auto simp: image_iff)
  ultimately show ?thesis using b(1) by (simp add: sum_visit_orders)
qed

definition sample_bill :: bill where
  "sample_bill = (case buildBill ''w1'' sample of Some b \<Rightarrow> b | None \<Rightarrow> undefined)"

lemma sample_bill: "buildBill ''w1'' sample = Some sample_bill"
proof -
  have "buildBill ''w1'' sample \<noteq> None"
    by (simp add: buildBill_def sample_defs Let_def split: prod.split)
  then show ?thesis by (auto simp: sample_bill_def split: option.splits)
qed

theorem bill_adds_up_witness:
  "b_totalKurus sample_bill = 2800 \<and> sum_list (map bp_totalKurus (b_phones sample_bill)) = 2800"
  using bill_adds_up[OF sample_bill]
  by (simp add: sample_defs billed_def order_worth_def live_items_def line_total_def)

subsection \<open>The views\<close>

text \<open>
  \<open>GET /api/desk/bills\<close>, after the staff check: the open visits of the venue, those that asked for
  the bill first, each with the sum of its orders' stored totals.
\<close>

record bill_row =
  br_visitId :: id
  br_tableId :: id
  br_tableName :: jstr
  br_status :: visit_status
  br_openedAt :: time
  br_billRequestedAt :: "time option"
  br_totalKurus :: int
  br_orderCount :: nat
  br_phoneCount :: nat

definition visit_open :: "visit \<Rightarrow> bool" where
  "visit_open v \<longleftrightarrow> tv_status v \<in> {Open, BillRequested}"

definition bill_row_of :: "server \<Rightarrow> visit \<Rightarrow> bill_row" where
  "bill_row_of s v =
     (let os = filter (billed (tv_id v)) (orders s) in
      \<lparr>br_visitId = tv_id v, br_tableId = tv_tableId v,
       br_tableName = (case findFirst (\<lambda>t. tab_id t = tv_tableId v) (tables s) of
          None \<Rightarrow> [] | Some t \<Rightarrow> tab_name t),
       br_status = tv_status v, br_openedAt = tv_openedAt v,
       br_billRequestedAt = tv_billRequestedAt v,
       br_totalKurus = sum_list (map ord_totalKurus os), br_orderCount = length os,
       br_phoneCount = card (set (map ord_sessionId os))\<rparr>)"

definition GET_desk_bills :: "id \<Rightarrow> server \<Rightarrow> bill_row list" where
  "GET_desk_bills venueId s =
     filter (\<lambda>b. br_orderCount b > 0 \<or> br_status b = BillRequested)
       (map (bill_row_of s)
         (orderBy (\<lambda>v. (nullsLast (tv_billRequestedAt v), tv_openedAt v))
           (filter (\<lambda>v. tv_venueId v = venueId \<and> visit_open v) (visits s))))"

text \<open>The customer's share: the entry of this phone in the split, 0 without one.\<close>

definition your_total :: "id \<Rightarrow> bill \<Rightarrow> int" where
  "your_total sid b = (case findFirst (\<lambda>p. bp_sessionId p = sid) (b_phones b) of
     None \<Rightarrow> 0 | Some p \<Rightarrow> bp_totalKurus p)"

lemma findFirst_map_of:
  "(case findFirst (\<lambda>p. f p = k) ps of None \<Rightarrow> 0 | Some p \<Rightarrow> g p) =
   (case map_of (map (\<lambda>p. (f p, g p)) ps) k of None \<Rightarrow> (0::int) | Some x \<Rightarrow> x)"
  by (induction ps) auto

lemma phone_entries_pairs: "map (\<lambda>p. (bp_sessionId p, bp_totalKurus p)) (phone_entries per) = per"
  by (rule nth_equalityI) (auto simp: phone_entries_def nth_enumerate_eq split: prod.split)

text \<open>
  what a phone is shown as its share is the worth of the orders that phone placed in the
  visit, no more and no less.
\<close>

theorem customer_share_exact:
  assumes "buildBill vid s = Some b"
  shows "your_total sid b =
    sum_list (map order_worth (filter (\<lambda>o'. billed vid o' \<and> ord_sessionId o' = sid) (orders s)))"
proof -
  have "your_total sid b = (case map_of (snd (bill_loop (visit_orders vid (orders s)) ([], []))) sid of
      None \<Rightarrow> 0 | Some k \<Rightarrow> k)"
    by (simp add: your_total_def findFirst_map_of buildBill_SomeD(5)[OF assms] phone_entries_pairs)
  also have "\<dots> = sum_list (map order_worth (filter (\<lambda>o'. ord_sessionId o' = sid) (visit_orders vid (orders s))))"
    using bill_loop_phone_of[of "visit_orders vid (orders s)" "[]" "[]" sid] by simp
  also have "\<dots> = sum_list (map order_worth (filter (\<lambda>o'. billed vid o' \<and> ord_sessionId o' = sid) (orders s)))"
  proof -
    have "filter (\<lambda>o'. ord_sessionId o' = sid) (visit_orders vid (orders s)) =
        orderBy ord_createdAt (filter (\<lambda>o'. ord_sessionId o' = sid) (filter (billed vid) (orders s)))"
      by (simp add: visit_orders_def orderBy_def filter_sort)
    then show ?thesis by (simp add: conj_commute)
  qed
  finally show ?thesis .
qed

theorem customer_share_exact_witness: "your_total ''s1'' sample_bill = 2500"
  using customer_share_exact[OF sample_bill, of "''s1''"]
  by (simp add: sample_defs billed_def order_worth_def live_items_def line_total_def)

text \<open>
  the desk's list agrees with the itemised bill. As long as every order's stored total is
  current, the amount listed for an open visit is the total of the bill it would print, and the
  order and phone counts agree too.
\<close>

theorem desk_list_agrees_with_bill:
  assumes "totals_current (orders s)" and "buildBill (tv_id v) s = Some b"
  shows "br_totalKurus (bill_row_of s v) = b_totalKurus b \<and>
    br_orderCount (bill_row_of s v) = b_orderCount b \<and>
    br_phoneCount (bill_row_of s v) = length (b_phones b)"
proof -
  note b = buildBill_SomeD[OF assms(2)]
  have "map ord_totalKurus (filter (billed (tv_id v)) (orders s)) =
      map order_worth (filter (billed (tv_id v)) (orders s))"
    using assms(1) by (auto simp: totals_current_def)
  then have "br_totalKurus (bill_row_of s v) = b_totalKurus b"
    using b(1) by (simp only: bill_row_of_def Let_def sum_visit_orders bill_row.simps)
  moreover have "br_orderCount (bill_row_of s v) = b_orderCount b"
    using b(3) by (simp add: bill_row_of_def Let_def visit_orders_def)
  moreover have "br_phoneCount (bill_row_of s v) = length (b_phones b)"
  proof -
    have keys: "fst ` set (snd (bill_loop os (lines, per))) = fst ` set per \<union> ord_sessionId ` set os"
      for os lines per
      by (induction os arbitrary: lines per) (auto simp: Let_def dom_update)
    have "length (b_phones b) = card (set (map fst (snd (bill_loop (visit_orders (tv_id v) (orders s)) ([], [])))))"
      using bill_loop_phones[of "[]" "visit_orders (tv_id v) (orders s)" "[]"] b(5)
      by (metis distinct_card length_map list.map(1) distinct.simps(1) phone_entries_ids)
    then show ?thesis
      using keys[of "visit_orders (tv_id v) (orders s)" "[]" "[]"]
      by (simp add: bill_row_of_def Let_def visit_orders_def)
  qed
  ultimately show ?thesis by simp
qed

lemma sample_totals: "totals_current (orders sample)"
  by (simp add: totals_current_def sample_defs order_worth_def live_items_def line_total_def)

theorem desk_list_agrees_with_bill_witness:
  "br_totalKurus (bill_row_of sample sample_visit) = b_totalKurus sample_bill"
proof -
  have "buildBill (tv_id sample_visit) sample = Some sample_bill"
    using sample_bill by (simp add: sample_visit_def)
  from desk_list_agrees_with_bill[OF sample_totals this] show ?thesis by simp
qed

end
