(* ===== verification/RateLimit.thy ===== *)
theory RateLimit
  imports Schema
begin

section \<open>The in-memory fixed-window rate limiter\<close>

text \<open>
  \<open>src/lib/rateLimit.ts\<close> and the abuse ledger \<open>src/lib/attempts.ts\<close>. The JavaScript
  \<open>Map\<close> of windows is an association list; keys are built from the caller's scope and the
  client address exactly as the code builds them.
\<close>

definition MAX_KEYS :: nat where
  "MAX_KEYS = 10000"

record rate_limit_result =
  rl_allowed :: bool
  rl_remaining :: int
  rl_retryAfterSec :: int

definition evictExpired :: "time \<Rightarrow> (jstr \<times> rl_window) list \<Rightarrow> (jstr \<times> rl_window) list" where
  "evictExpired t ws = filter (\<lambda>(k, w). \<not> w_resetAt w \<le> t) ws"

text \<open>\<open>Map.set\<close> keeps the place of a key it already has and appends a new one.\<close>

definition map_set :: "'k \<Rightarrow> 'v \<Rightarrow> ('k \<times> 'v) list \<Rightarrow> ('k \<times> 'v) list" where
  "map_set k v ws = AList.update k v ws"

definition rateLimit ::
  "time \<Rightarrow> jstr \<Rightarrow> int \<Rightarrow> int \<Rightarrow> (jstr \<times> rl_window) list
   \<Rightarrow> rate_limit_result \<times> (jstr \<times> rl_window) list" where
  "rateLimit t key limit windowSec ws =
     (let namespaced = lit ''rl:'' @ key;
          fresh = (let ws' = (if length ws \<ge> MAX_KEYS then evictExpired t ws else ws) in
            (\<lparr>rl_allowed = True, rl_remaining = limit - 1, rl_retryAfterSec = 0\<rparr>,
             map_set namespaced \<lparr>w_count = 1, w_resetAt = t + windowSec * 1000\<rparr> ws'))
      in case map_of ws namespaced of
           None \<Rightarrow> fresh
         | Some entry \<Rightarrow>
             if w_resetAt entry \<le> t then fresh
             else (let n = w_count entry + 1 in
               (\<lparr>rl_allowed = (n \<le> limit), rl_remaining = max 0 (limit - n),
                 rl_retryAfterSec = max 1 (ceil_div (w_resetAt entry - t) 1000)\<rparr>,
                map_set namespaced (entry\<lparr>w_count := n\<rparr>) ws)))"

definition clearRateLimit :: "jstr \<Rightarrow> (jstr \<times> rl_window) list \<Rightarrow> (jstr \<times> rl_window) list" where
  "clearRateLimit key ws = AList.delete (lit ''rl:'' @ key) ws"

definition resetRateLimits :: "(jstr \<times> rl_window) list \<Rightarrow> (jstr \<times> rl_window) list" where
  "resetRateLimits ws = []"

text \<open>
  Which hop of \<open>X-Forwarded-For\<close> is believed: the last, written by the proxy, when a proxy is
  trusted, and the first otherwise. Neither header gives the empty string.
\<close>

definition clientIp :: "bool \<Rightarrow> request \<Rightarrow> jstr" where
  "clientIp trusted req =
     (let fallback = (case rq_realIp req of None \<Rightarrow> [] | Some ip \<Rightarrow> trim ip) in
      case rq_forwardedFor req of
        None \<Rightarrow> fallback
      | Some forwarded \<Rightarrow>
          if forwarded = [] then fallback
          else (let hops = filter (\<lambda>h. h \<noteq> []) (map trim (split_on 44 forwarded)) in
            if hops \<noteq> [] then (if trusted then last hops else hd hops) else fallback))"

definition or_unknown :: "jstr \<Rightarrow> jstr" where
  "or_unknown ip = (if ip = [] then lit ''unknown'' else ip)"

definition ipKey :: "jstr \<Rightarrow> jstr \<Rightarrow> jstr" where
  "ipKey scope ip = scope @ lit '':ip:'' @ or_unknown ip"

definition allKey :: "jstr \<Rightarrow> jstr" where
  "allKey scope = scope @ lit '':all''"

text \<open>Both windows are charged, whichever refuses.\<close>

definition writeBudget ::
  "time \<Rightarrow> jstr \<Rightarrow> jstr \<Rightarrow> int \<times> int \<Rightarrow> int \<times> int \<Rightarrow> (jstr \<times> rl_window) list
   \<Rightarrow> bool \<times> (jstr \<times> rl_window) list" where
  "writeBudget t scope ip perIp glob ws =
     (let (byIp, ws1) = rateLimit t (ipKey scope ip) (fst perIp) (snd perIp) ws;
          (overall, ws2) = rateLimit t (allKey scope) (fst glob) (snd glob) ws1
      in (rl_allowed byIp \<and> rl_allowed overall, ws2))"

subsection \<open>The ledger\<close>

text \<open>
  \<open>logAttempt\<close> appends one row; a failing insert is swallowed and changes nothing, so the row is
  the only effect.
\<close>

record attempt_extra =
  ax_venueId :: "id option"
  ax_tableId :: "id option"
  ax_sessionId :: "id option"
  ax_orderId :: "id option"
  ax_detail :: jstr

definition no_extra :: attempt_extra where
  "no_extra = \<lparr>ax_venueId = None, ax_tableId = None, ax_sessionId = None, ax_orderId = None,
     ax_detail = []\<rparr>"

definition logAttempt :: "request \<Rightarrow> string \<Rightarrow> attempt_extra \<Rightarrow> server \<Rightarrow> server" where
  "logAttempt req outcome extra s = s\<lparr>orderAttempts := orderAttempts s @
     [\<lparr>oa_venueId = ax_venueId extra, oa_tableId = ax_tableId extra,
       oa_sessionId = ax_sessionId extra, oa_orderId = ax_orderId extra,
       oa_ip = clientIp (trustProxy s) req,
       oa_userAgent = (case rq_userAgent req of None \<Rightarrow> [] | Some ua \<Rightarrow> ua),
       oa_outcome = outcome, oa_detail = ax_detail extra, oa_createdAt = now s\<rparr>]\<rparr>"

lemma logAttempt_frame [simp]:
  "venues (logAttempt req oc x s) = venues s" "tables (logAttempt req oc x s) = tables s"
  "visits (logAttempt req oc x s) = visits s" "staffUsers (logAttempt req oc x s) = staffUsers s"
  "categories (logAttempt req oc x s) = categories s"
  "menuItems (logAttempt req oc x s) = menuItems s"
  "sessions (logAttempt req oc x s) = sessions s" "orders (logAttempt req oc x s) = orders s"
  "orderEdits (logAttempt req oc x s) = orderEdits s"
  "posDeliveries (logAttempt req oc x s) = posDeliveries s"
  "bridgeKeys (logAttempt req oc x s) = bridgeKeys s"
  "windows (logAttempt req oc x s) = windows s"
  "accountCache (logAttempt req oc x s) = accountCache s"
  "menuCache (logAttempt req oc x s) = menuCache s" "events (logAttempt req oc x s) = events s"
  "trustProxy (logAttempt req oc x s) = trustProxy s" "now (logAttempt req oc x s) = now s"
  "length (orderAttempts (logAttempt req oc x s)) = Suc (length (orderAttempts s))"
  by (simp_all add: logAttempt_def)

subsection \<open>What one hit does\<close>

lemma map_of_map_set: "map_of (map_set k v ws) = (map_of ws)(k \<mapsto> v)"
  by (simp add: map_set_def update_conv')

lemma map_of_filter_keep:
  "distinct (map fst ws) \<Longrightarrow> map_of (filter P ws) k =
   (case map_of ws k of None \<Rightarrow> None | Some v \<Rightarrow> if P (k, v) then Some v else None)"
proof (induction ws)
  case (Cons a ws)
  obtain k' v' where a: "a = (k', v')" by (cases a)
  show ?case
  proof (cases "k' = k")
    case True
    then have "k \<notin> fst ` set (filter P ws)" using Cons.prems a by auto
    then have "map_of (filter P ws) k = None" by (simp add: map_of_eq_None_iff)
    then show ?thesis using True a by simp
  next
    case False
    then show ?thesis using Cons a by (cases "P a") auto
  qed
qed simp

lemma distinct_map_set: "distinct (map fst ws) \<Longrightarrow> distinct (map fst (map_set k v ws))"
  by (simp add: map_set_def distinct_update)

lemma distinct_evict: "distinct (map fst ws) \<Longrightarrow> distinct (map fst (evictExpired t ws))"
  by (simp add: evictExpired_def distinct_map_filter)

lemma distinct_rateLimit:
  "distinct (map fst ws) \<Longrightarrow> distinct (map fst (snd (rateLimit t key limit win ws)))"
  by (auto simp: rateLimit_def Let_def distinct_map_set distinct_evict split: option.splits)

text \<open>A window that has not run out is found again, by whatever key the hit before it used.\<close>

lemma map_of_evict_live:
  assumes "distinct (map fst ws)" "map_of ws k = Some w" "t < w_resetAt w"
  shows "map_of (evictExpired t ws) k = Some w"
  using assms by (simp add: evictExpired_def map_of_filter_keep)

lemma rateLimit_other_key:
  assumes "distinct (map fst ws)" "map_of ws k = Some w" "t < w_resetAt w" "k \<noteq> lit ''rl:'' @ key"
  shows "map_of (snd (rateLimit t key limit win ws)) k = Some w"
  using assms map_of_evict_live[of ws k w t]
  by (auto simp: rateLimit_def Let_def map_of_map_set split: option.splits)

lemma rateLimit_open_window:
  assumes "map_of ws (lit ''rl:'' @ key) = Some w" "t < w_resetAt w"
  shows "rl_allowed (fst (rateLimit t key limit win ws)) \<longleftrightarrow> w_count w + 1 \<le> limit"
    and "map_of (snd (rateLimit t key limit win ws)) (lit ''rl:'' @ key) =
      Some (w\<lparr>w_count := w_count w + 1\<rparr>)"
  using assms by (auto simp: rateLimit_def Let_def map_of_map_set)

lemma rateLimit_first:
  assumes "map_of ws (lit ''rl:'' @ key) = None \<or>
    (\<exists>w. map_of ws (lit ''rl:'' @ key) = Some w \<and> w_resetAt w \<le> t)"
  shows "rl_allowed (fst (rateLimit t key limit win ws))"
    and "map_of (snd (rateLimit t key limit win ws)) (lit ''rl:'' @ key) =
      Some \<lparr>w_count = 1, w_resetAt = t + win * 1000\<rparr>"
  using assms by (auto simp: rateLimit_def Let_def map_of_map_set)

subsection \<open>The contract the routes rely on\<close>

text \<open>
  A limiter counts the hits of one key inside a window: while the window is open every hit is
  counted and is allowed exactly when the count has not passed the limit. A client that sends a
  series of hits therefore gets at most the rest of the budget through.
\<close>

locale hit_counter =
  fixes hit :: "'a \<Rightarrow> 's \<Rightarrow> bool \<times> 's"
    and used :: "'s \<Rightarrow> int"
    and in_window :: "'a \<Rightarrow> 's \<Rightarrow> bool"
    and ready :: "'s \<Rightarrow> bool"
    and limit :: int
  assumes hit_used: "ready s \<Longrightarrow> in_window a s \<Longrightarrow> used (snd (hit a s)) = used s + 1"
    and hit_allowed: "ready s \<Longrightarrow> in_window a s \<Longrightarrow> fst (hit a s) \<Longrightarrow> used s + 1 \<le> limit"
    and hit_ready: "ready s \<Longrightarrow> in_window a s \<Longrightarrow> ready (snd (hit a s))"
    and hit_window: "ready s \<Longrightarrow> in_window a s \<Longrightarrow> in_window b s \<Longrightarrow> in_window b (snd (hit a s))"
begin

fun hits :: "'a list \<Rightarrow> 's \<Rightarrow> bool list \<times> 's" where
  "hits [] s = ([], s)"
| "hits (a # as) s = (let (b, s') = hit a s; (bs, t) = hits as s' in (b # bs, t))"

lemma allowed_hits_bounded:
  "ready s \<Longrightarrow> \<forall>a \<in> set as. in_window a s \<Longrightarrow>
   int (length (filter (\<lambda>b. b) (fst (hits as s)))) \<le> max 0 (limit - used s)"
proof (induction as arbitrary: s)
  case Nil
  then show ?case by simp
next
  case (Cons a as)
  obtain b s' where h: "hit a s = (b, s')" by (cases "hit a s")
  obtain bs t where rest: "hits as s' = (bs, t)" by (cases "hits as s'")
  have win: "in_window a s" using Cons.prems(2) by simp
  have s': "s' = snd (hit a s)" using h by simp
  have "\<forall>x \<in> set as. in_window x s'"
    using Cons.prems win hit_window s' by auto
  moreover have "ready s'" using hit_ready[OF Cons.prems(1) win] s' by simp
  ultimately have IH: "int (length (filter (\<lambda>b. b) bs)) \<le> max 0 (limit - used s')"
    using Cons.IH[of s'] rest by simp
  have u: "used s' = used s + 1" using hit_used[OF Cons.prems(1) win] s' by simp
  have "b \<Longrightarrow> used s + 1 \<le> limit" using hit_allowed[OF Cons.prems(1) win] h by simp
  then show ?case using IH u h rest by auto
qed

end

text \<open>The model's limiter keeps the contract for each key while its window is open.\<close>

type_synonym limiter = "(jstr \<times> rl_window) list"

definition window_count :: "jstr \<Rightarrow> limiter \<Rightarrow> int" where
  "window_count key ws = (case map_of ws (lit ''rl:'' @ key) of None \<Rightarrow> 0 | Some w \<Rightarrow> w_count w)"

definition window_open :: "jstr \<Rightarrow> time \<Rightarrow> limiter \<Rightarrow> bool" where
  "window_open key t ws \<longleftrightarrow> (\<exists>w. map_of ws (lit ''rl:'' @ key) = Some w \<and> t < w_resetAt w)"

definition budget_hit :: "jstr \<Rightarrow> int \<times> int \<Rightarrow> int \<times> int \<Rightarrow> jstr \<times> time \<Rightarrow> limiter \<Rightarrow> bool \<times> limiter"
  where "budget_hit scope perIp glob a ws = writeBudget (snd a) scope (fst a) perIp glob ws"

lemma budget_keys_differ [simp]: "allKey scope \<noteq> ipKey scope x"
  by (simp add: allKey_def ipKey_def lit_def)

lemma budget_after_ip:
  assumes ready: "distinct (map fst ws)" and open': "window_open (allKey scope) t ws"
    and r: "rateLimit t (ipKey scope ip) l win ws = (b, ws1)"
  shows "map_of ws1 (lit ''rl:'' @ allKey scope) = map_of ws (lit ''rl:'' @ allKey scope)"
    and "distinct (map fst ws1)"
proof -
  from open' obtain w where w: "map_of ws (lit ''rl:'' @ allKey scope) = Some w" "t < w_resetAt w"
    by (auto simp: window_open_def)
  have ws1: "ws1 = snd (rateLimit t (ipKey scope ip) l win ws)" by (simp add: r)
  show "map_of ws1 (lit ''rl:'' @ allKey scope) = map_of ws (lit ''rl:'' @ allKey scope)"
    using rateLimit_other_key[OF ready w, of "ipKey scope ip" l win] w(1) ws1 by simp
  show "distinct (map fst ws1)" using distinct_rateLimit[OF ready] ws1 by simp
qed

interpretation global_budget:
  hit_counter "budget_hit scope perIp glob" "window_count (allKey scope)"
    "\<lambda>a. window_open (allKey scope) (snd a)" "\<lambda>ws. distinct (map fst ws)" "fst glob"
  for scope perIp glob
proof
  fix ws :: limiter and a b :: "jstr \<times> time"
  let ?all = "allKey scope"
  obtain ip t where a: "a = (ip, t)" by (cases a)
  obtain r1 ws1 where r: "rateLimit t (ipKey scope ip) (fst perIp) (snd perIp) ws = (r1, ws1)"
    by (cases "rateLimit t (ipKey scope ip) (fst perIp) (snd perIp) ws")
  assume ready: "distinct (map fst ws)" and open': "window_open ?all (snd a) ws"
  have open_t: "window_open ?all t ws" using open' a by simp
  note ip = budget_after_ip[OF ready open_t r]
  from open_t obtain w where w: "map_of ws (lit ''rl:'' @ ?all) = Some w" "t < w_resetAt w"
    by (auto simp: window_open_def)
  have w1: "map_of ws1 (lit ''rl:'' @ ?all) = Some w" using ip(1) w(1) by simp
  note step = rateLimit_open_window[OF w1 w(2), of "fst glob" "snd glob"]
  have hit: "budget_hit scope perIp glob a ws =
      (rl_allowed r1 \<and> rl_allowed (fst (rateLimit t ?all (fst glob) (snd glob) ws1)),
       snd (rateLimit t ?all (fst glob) (snd glob) ws1))"
    by (simp add: budget_hit_def writeBudget_def a r Let_def split: prod.split)
  show "window_count ?all (snd (budget_hit scope perIp glob a ws)) = window_count ?all ws + 1"
    using step(2) w(1) by (simp add: hit window_count_def)
  show "fst (budget_hit scope perIp glob a ws) \<Longrightarrow> window_count ?all ws + 1 \<le> fst glob"
    using step(1) w(1) by (simp add: hit window_count_def)
  show "distinct (map fst (snd (budget_hit scope perIp glob a ws)))"
    using distinct_rateLimit[OF ip(2)] by (simp add: hit)
  show "window_open ?all (snd b) ws \<Longrightarrow>
      window_open ?all (snd b) (snd (budget_hit scope perIp glob a ws))"
    using step(2) w(1) by (simp add: hit window_open_def)
qed

text \<open>The single-key limiter of the login, password and scan routes.\<close>

definition key_hit :: "jstr \<Rightarrow> int \<Rightarrow> int \<Rightarrow> time \<Rightarrow> limiter \<Rightarrow> bool \<times> limiter" where
  "key_hit key limit win t ws = (let (r, ws') = rateLimit t key limit win ws in (rl_allowed r, ws'))"

interpretation single_key:
  hit_counter "key_hit key limit win" "window_count key" "window_open key"
    "\<lambda>ws. distinct (map fst ws)" limit
  for key limit win
proof
  fix ws :: limiter and t t' :: time
  assume ready: "distinct (map fst ws)" and "window_open key t ws"
  then obtain w where w: "map_of ws (lit ''rl:'' @ key) = Some w" "t < w_resetAt w"
    by (auto simp: window_open_def)
  note step = rateLimit_open_window[OF w, of limit win]
  have hit: "key_hit key limit win t ws =
      (rl_allowed (fst (rateLimit t key limit win ws)), snd (rateLimit t key limit win ws))"
    by (simp add: key_hit_def split: prod.split)
  show "window_count key (snd (key_hit key limit win t ws)) = window_count key ws + 1"
    using step(2) w(1) by (simp add: hit window_count_def)
  show "fst (key_hit key limit win t ws) \<Longrightarrow> window_count key ws + 1 \<le> limit"
    using step(1) w(1) by (simp add: hit window_count_def)
  show "distinct (map fst (snd (key_hit key limit win t ws)))"
    using distinct_rateLimit[OF ready] by (simp add: hit)
  show "window_open key t' ws \<Longrightarrow> window_open key t' (snd (key_hit key limit win t ws))"
    using step(2) w(1) by (simp add: hit window_open_def)
qed


subsection \<open>Runs of hits\<close>

fun budget_run ::
  "jstr \<Rightarrow> int \<times> int \<Rightarrow> int \<times> int \<Rightarrow> (jstr \<times> time) list \<Rightarrow> limiter \<Rightarrow> bool list \<times> limiter" where
  "budget_run scope perIp glob [] ws = ([], ws)"
| "budget_run scope perIp glob ((ip, t) # as) ws =
     (let (b, ws1) = writeBudget t scope ip perIp glob ws;
          (bs, ws2) = budget_run scope perIp glob as ws1
      in (b # bs, ws2))"

fun key_run :: "jstr \<Rightarrow> int \<Rightarrow> int \<Rightarrow> time list \<Rightarrow> limiter \<Rightarrow> bool list \<times> limiter" where
  "key_run key limit win [] ws = ([], ws)"
| "key_run key limit win (t # ts) ws =
     (let (r, ws1) = rateLimit t key limit win ws;
          (bs, ws2) = key_run key limit win ts ws1
      in (rl_allowed r # bs, ws2))"

lemma budget_run_hits: "budget_run scope perIp glob as ws = global_budget.hits scope perIp glob as ws"
  by (induction as arbitrary: ws) (auto simp: budget_hit_def split: prod.splits)

lemma rateLimit_other_key_cases:
  "k \<noteq> lit ''rl:'' @ key \<Longrightarrow> map_of (snd (rateLimit t key limit win ws)) k = map_of ws k \<or>
   map_of (snd (rateLimit t key limit win ws)) k = map_of (evictExpired t ws) k"
  by (auto simp: rateLimit_def Let_def map_of_map_set split: option.splits)

lemma map_of_evict_sub:
  "distinct (map fst ws) \<Longrightarrow> map_of (evictExpired t ws) k = Some w \<Longrightarrow> map_of ws k = Some w"
  by (auto simp: evictExpired_def map_of_filter_keep split: option.splits if_splits)

lemma rateLimit_other_closed:
  assumes "distinct (map fst ws)" "k \<noteq> lit ''rl:'' @ key"
    and "\<not> (\<exists>w. map_of ws k = Some w \<and> t < w_resetAt w)"
  shows "map_of (snd (rateLimit t key limit win ws)) k = None \<or>
    (\<exists>w. map_of (snd (rateLimit t key limit win ws)) k = Some w \<and> w_resetAt w \<le> t)"
  using rateLimit_other_key_cases[OF assms(2), of t limit win ws] map_of_evict_sub[OF assms(1), of t k] assms(3)
  by (cases "map_of (snd (rateLimit t key limit win ws)) k") (fastforce simp: not_less)+

lemma writeBudget_opens:
  assumes "distinct (map fst ws)" "\<not> window_open (allKey scope) t ws"
  shows "map_of (snd (writeBudget t scope ip perIp glob ws)) (lit ''rl:'' @ allKey scope) =
      Some \<lparr>w_count = 1, w_resetAt = t + snd glob * 1000\<rparr>"
    and "distinct (map fst (snd (writeBudget t scope ip perIp glob ws)))"
proof -
  obtain r1 ws1 where r: "rateLimit t (ipKey scope ip) (fst perIp) (snd perIp) ws = (r1, ws1)"
    by (cases "rateLimit t (ipKey scope ip) (fst perIp) (snd perIp) ws")
  have ws1: "ws1 = snd (rateLimit t (ipKey scope ip) (fst perIp) (snd perIp) ws)" by (simp add: r)
  have d1: "distinct (map fst ws1)" using distinct_rateLimit[OF assms(1)] ws1 by simp
  have closed: "map_of ws1 (lit ''rl:'' @ allKey scope) = None \<or>
      (\<exists>w. map_of ws1 (lit ''rl:'' @ allKey scope) = Some w \<and> w_resetAt w \<le> t)"
    using rateLimit_other_closed[OF assms(1), of "lit ''rl:'' @ allKey scope" "ipKey scope ip" t]
      assms(2) ws1 by (simp add: window_open_def not_less)
  show "map_of (snd (writeBudget t scope ip perIp glob ws)) (lit ''rl:'' @ allKey scope) =
      Some \<lparr>w_count = 1, w_resetAt = t + snd glob * 1000\<rparr>"
    using rateLimit_first(2)[OF closed, of "fst glob" "snd glob"]
    by (simp add: writeBudget_def r case_prod_beta Let_def)
  show "distinct (map fst (snd (writeBudget t scope ip perIp glob ws)))"
    using distinct_rateLimit[OF d1] by (simp add: writeBudget_def r case_prod_beta Let_def)
qed

text \<open>
  rotating forged client addresses does not beat the venue-wide cap. From the request that
  opens the global window, whatever addresses the following requests claim and in whatever order
  they come, at most \<open>limit\<close> of them may write before the window runs out.
\<close>

theorem writeBudget_global_cap:
  assumes "distinct (map fst ws)"
    and "\<not> window_open (allKey scope) t0 ws"
    and "1 \<le> fst glob"
    and "\<forall>(ip, t) \<in> set as. t < t0 + snd glob * 1000"
  shows "int (length (filter (\<lambda>b. b) (fst (budget_run scope perIp glob ((ip0, t0) # as) ws)))) \<le> fst glob"
proof -
  obtain b ws1 where first: "writeBudget t0 scope ip0 perIp glob ws = (b, ws1)"
    by (cases "writeBudget t0 scope ip0 perIp glob ws")
  note opened = writeBudget_opens[OF assms(1,2), of ip0 perIp glob, unfolded first snd_conv]
  have "\<forall>a \<in> set as. window_open (allKey scope) (snd a) ws1"
    using assms(4) opened(1) by (force simp: window_open_def)
  from global_budget.allowed_hits_bounded[OF opened(2) this, of perIp glob]
  have "int (length (filter (\<lambda>b. b) (fst (budget_run scope perIp glob as ws1)))) \<le> max 0 (fst glob - 1)"
    using opened(1) by (simp add: budget_run_hits window_count_def)
  then show ?thesis using assms(3) by (auto simp: first split: prod.splits)
qed

theorem writeBudget_global_cap_witness:
  "int (length (filter (\<lambda>b. b) (fst (budget_run (lit ''s'') (20, 600) (2, 600)
     ((lit ''a'', 0) # [(lit ''b'', 1), (lit ''c'', 2), (lit ''d'', 3)]) [])))) \<le> fst (2::int, 600::int)"
  by (rule writeBudget_global_cap) (simp_all add: window_open_def)

text \<open>
  inside one window the limiter lets through exactly the first \<open>limit\<close> hits of a key, and
  every later one is refused until the window runs out.
\<close>

theorem rateLimit_window_exact:
  assumes "\<not> window_open key t0 ws" and "\<forall>t \<in> set ts. t < t0 + win * 1000" and "1 \<le> limit"
  shows "fst (key_run key limit win (t0 # ts) ws) = map (\<lambda>i. int i < limit) [0..<Suc (length ts)]"
proof -
  have run: "fst (key_run key limit win ts vs) = map (\<lambda>i. c + int i < limit) [0..<length ts]"
    if "map_of vs (lit ''rl:'' @ key) = Some \<lparr>w_count = c, w_resetAt = r\<rparr>" "\<forall>t \<in> set ts. t < r"
    for vs c r ts
    using that
  proof (induction ts arbitrary: vs c)
    case Nil
    then show ?case by simp
  next
    case (Cons t ts)
    note hit = rateLimit_open_window[OF Cons.prems(1), of t limit win]
    have "fst (key_run key limit win ts (snd (rateLimit t key limit win vs))) =
        map (\<lambda>i. (c + 1) + int i < limit) [0..<length ts]"
      by (rule Cons.IH) (use hit(2) Cons.prems(2) in auto)
    then have "fst (key_run key limit win (t # ts) vs) =
        (c + 1 \<le> limit) # map (\<lambda>i. (c + 1) + int i < limit) [0..<length ts]"
      using hit(1) Cons.prems(2) by (auto split: prod.splits)
    also have "\<dots> = map (\<lambda>i. c + int i < limit) [0..<Suc (length ts)]"
      by (simp only: upt_conv_Cons[OF zero_less_Suc] map_Suc_upt[symmetric] list.map map_map o_def)
        (auto simp: algebra_simps)
    finally show ?case by simp
  qed
  have "map_of ws (lit ''rl:'' @ key) = None \<or>
      (\<exists>w. map_of ws (lit ''rl:'' @ key) = Some w \<and> w_resetAt w \<le> t0)"
    using assms(1) by (auto simp: window_open_def not_less)
  note first = rateLimit_first[OF this, of limit win]
  have "fst (key_run key limit win ts (snd (rateLimit t0 key limit win ws))) =
      map (\<lambda>i. 1 + int i < limit) [0..<length ts]"
    by (rule run[OF first(2) assms(2)])
  then have "fst (key_run key limit win (t0 # ts) ws) =
      True # map (\<lambda>i. 1 + int i < limit) [0..<length ts]"
    using first(1) by (auto split: prod.splits)
  also have "\<dots> = map (\<lambda>i. int i < limit) [0..<Suc (length ts)]"
    using assms(3)
    by (simp only: upt_conv_Cons[OF zero_less_Suc] map_Suc_upt[symmetric] list.map map_map o_def)
      auto
  finally show ?thesis .
qed

theorem rateLimit_window_exact_witness:
  "fst (key_run (lit ''k'') 2 600 (0 # [1, 2, 3]) []) = map (\<lambda>i. int i < 2) [0..<Suc (length [1, 2, 3::int])]"
  by (rule rateLimit_window_exact) (simp_all add: window_open_def)

lemma split_on_append: "split_on d (xs @ d # ys) = split_on d xs @ split_on d ys"
  by (induction xs) (auto split: list.splits)

lemma split_on_no_sep: "d \<notin> set s \<Longrightarrow> split_on d s = [s]"
  by (induction s) auto

text \<open>
  behind a trusted proxy a client cannot choose its own address. Whatever the client planted
  in front of the hop the proxy appended, that last hop is the address every limit is keyed on.
\<close>

theorem clientIp_trusted_hop:
  assumes "rq_forwardedFor req = Some (planted @ 44 # hop)" and "44 \<notin> set hop" and "trim hop \<noteq> []"
  shows "clientIp True req = trim hop"
  using assms by (simp add: clientIp_def Let_def split_on_append split_on_no_sep)

theorem clientIp_trusted_hop_witness:
  "clientIp True (bare_request\<lparr>rq_forwardedFor := Some (lit ''6.6.6.6'' @ 44 # lit '' 10.0.0.7'')\<rparr>) =
   trim (lit '' 10.0.0.7'')"
  by (rule clientIp_trusted_hop[where planted = "lit ''6.6.6.6''"])
    (simp_all add: lit_def trim_def is_ws_def)

text \<open>
  \<open>MAX_KEYS\<close> does not bound the limiter's memory. A hit under a new key always adds a
  window, also when the map already holds that many windows, as long as none has expired.
\<close>

theorem limiter_not_bounded:
  assumes "\<forall>(k, w) \<in> set ws. t < w_resetAt w" and "map_of ws (lit ''rl:'' @ key) = None"
    and "MAX_KEYS \<le> length ws"
  shows "MAX_KEYS < length (snd (rateLimit t key limit win ws)) \<and>
    length (snd (rateLimit t key limit win ws)) = Suc (length ws)"
proof -
  have "evictExpired t ws = ws"
    using assms(1) by (auto simp: evictExpired_def filter_id_conv)
  moreover have "length (AList.update k v vs) = Suc (length vs)" if "map_of vs k = None"
    for k v and vs :: limiter
    using that by (induction vs) auto
  ultimately have "length (snd (rateLimit t key limit win ws)) = Suc (length ws)"
    using assms(2) by (simp add: rateLimit_def map_set_def Let_def)
  then show ?thesis using assms(3) by simp
qed

theorem limiter_not_bounded_witness:
  "MAX_KEYS < length (snd (rateLimit 0 (lit ''x'') 1 600
     (map (\<lambda>i. (replicate i 0, \<lparr>w_count = 1, w_resetAt = 1\<rparr>)) [0..<MAX_KEYS])))"
proof -
  let ?ws = "map (\<lambda>i. (replicate i (0::nat), \<lparr>w_count = 1, w_resetAt = 1\<rparr>)) [0..<MAX_KEYS]"
  have "lit ''rl:'' @ lit ''x'' \<noteq> replicate i 0" for i
    by (simp add: lit_def Cons_replicate_eq)
  then have "lit ''rl:'' @ lit ''x'' \<notin> set (map fst ?ws)"
    by (simp only: set_map image_image fst_conv) blast
  then have new: "map_of ?ws (lit ''rl:'' @ lit ''x'') = None"
    by (simp add: map_of_eq_None_iff image_image)
  show ?thesis
    by (rule conjunct1[OF limiter_not_bounded[OF _ new]]) auto
qed

end
