(* ===== verification/Visit.thy ===== *)
theory Visit
  imports Bill RateLimit
begin

section \<open>The life of a visit: opening, asking for the bill, settling, abandoning\<close>

text \<open>
  The rest of \<open>src/lib/visit.ts\<close>. A function that reads first and writes afterwards is split at
  the point where another request can run in between: \<open>settle_read\<close> and \<open>settle_write\<close>,
  the three statements of \<open>openOrJoinVisit\<close>. The function of the source is their composition on
  one state. The identifier Prisma generates for a new row is an argument.
\<close>

definition ABANDON_AFTER_MS :: int where
  "ABANDON_AFTER_MS = 3 * 60 * 60 * 1000"

subsection \<open>Opening or joining\<close>

definition open_at :: "id \<Rightarrow> visit \<Rightarrow> bool" where
  "open_at tableId v \<longleftrightarrow> tv_tableId v = tableId \<and> visit_open v"

definition find_open_visit :: "id \<Rightarrow> server \<Rightarrow> id option" where
  "find_open_visit tableId s =
     (case orderByDesc tv_openedAt (filter (open_at tableId) (visits s)) of
        [] \<Rightarrow> None | v # _ \<Rightarrow> Some (tv_id v))"

definition new_visit :: "id \<Rightarrow> id \<Rightarrow> id \<Rightarrow> time \<Rightarrow> visit" where
  "new_visit vid tableId venueId t = \<lparr>tv_id = vid, tv_venueId = venueId, tv_tableId = tableId,
     tv_status = Open, tv_openedAt = t, tv_billRequestedAt = None, tv_closedAt = None,
     tv_closedReason = None, tv_totalKurus = None, tv_paymentMethod = None,
     tv_paidAmountKurus = None, tv_closedByStaffId = None\<rparr>"

definition create_visit :: "id \<Rightarrow> id \<Rightarrow> id \<Rightarrow> server \<Rightarrow> server" where
  "create_visit vid tableId venueId s =
     s\<lparr>visits := visits s @ [new_visit vid tableId venueId (now s)]\<rparr>"

text \<open>
  Deleting a visit nulls the references to it: both foreign keys are \<open>ON DELETE SET NULL\<close>.
\<close>

definition delete_visit :: "id \<Rightarrow> server \<Rightarrow> server" where
  "delete_visit vid s = s\<lparr>visits := deleteMany (\<lambda>v. tv_id v = vid) (visits s),
     sessions := updateMany (\<lambda>x. ts_visitId x = Some vid) (\<lambda>x. x\<lparr>ts_visitId := None\<rparr>) (sessions s),
     orders := updateMany (\<lambda>o'. ord_visitId o' = Some vid) (\<lambda>o'. o'\<lparr>ord_visitId := None\<rparr>) (orders s)\<rparr>"

definition recheck_visit :: "id \<Rightarrow> id \<Rightarrow> server \<Rightarrow> id \<times> server" where
  "recheck_visit tableId created s =
     (case orderBy tv_openedAt (filter (open_at tableId) (visits s)) of
        first # _ # _ \<Rightarrow>
          if tv_id first \<noteq> created then (tv_id first, delete_visit created s) else (created, s)
      | _ \<Rightarrow> (created, s))"

definition openOrJoinVisit :: "id \<Rightarrow> id \<Rightarrow> id \<Rightarrow> server \<Rightarrow> id \<times> server" where
  "openOrJoinVisit newId tableId venueId s =
     (case find_open_visit tableId s of
        Some vid \<Rightarrow> (vid, s)
      | None \<Rightarrow> recheck_visit tableId newId (create_visit newId tableId venueId s))"

subsection \<open>Asking for the bill\<close>

definition requestBill_read :: "id \<Rightarrow> id \<Rightarrow> server \<Rightarrow> visit option" where
  "requestBill_read visitId venueId s =
     (case findFirst (\<lambda>v. tv_id v = visitId \<and> tv_venueId v = venueId) (visits s) of
        None \<Rightarrow> None
      | Some v \<Rightarrow> if tv_status v = Closed then None else Some v)"

definition ask_bill :: "time \<Rightarrow> visit \<Rightarrow> visit" where
  "ask_bill t v = v\<lparr>tv_status := BillRequested, tv_billRequestedAt := Some t\<rparr>"

definition requestBill_write :: "id \<Rightarrow> id \<Rightarrow> visit \<Rightarrow> server \<Rightarrow> server" where
  "requestBill_write visitId venueId v s =
     publish (BillRequestedEv venueId visitId (tv_tableId v))
       (if tv_status v \<noteq> BillRequested
        then s\<lparr>visits := updateMany (\<lambda>x. tv_id x = visitId) (ask_bill (now s)) (visits s)\<rparr>
        else s)"

definition requestBill :: "id \<Rightarrow> id \<Rightarrow> server \<Rightarrow> bool \<times> server" where
  "requestBill visitId venueId s =
     (case requestBill_read visitId venueId s of
        None \<Rightarrow> (False, s)
      | Some v \<Rightarrow> (True, requestBill_write visitId venueId v s))"

definition clearBillRequest :: "id \<Rightarrow> id \<Rightarrow> server \<Rightarrow> bool \<times> server" where
  "clearBillRequest visitId venueId s =
     (case findFirst (\<lambda>v. tv_id v = visitId \<and> tv_venueId v = venueId) (visits s) of
        None \<Rightarrow> (False, s)
      | Some v \<Rightarrow>
          if tv_status v \<noteq> BillRequested then (False, s)
          else (True, publish (BillUpdated venueId visitId (tv_tableId v))
            (s\<lparr>visits := updateMany (\<lambda>x. tv_id x = visitId)
              (\<lambda>x. x\<lparr>tv_status := Open, tv_billRequestedAt := None\<rparr>) (visits s)\<rparr>)))"

subsection \<open>Settling\<close>

datatype settle_error = Settle_not_found | Already_closed | Orders_in_flight

record settle_input =
  si_paymentMethod :: payment_method
  si_paidAmountKurus :: "int option"
  si_staffId :: id
  si_force :: bool

text \<open>The checks and the bill, before the first write of the transaction.\<close>

definition settle_read ::
  "id \<Rightarrow> id \<Rightarrow> settle_input \<Rightarrow> server \<Rightarrow> (settle_error, visit \<times> bill option) outcome" where
  "settle_read visitId venueId input s =
     (case findFirst (\<lambda>v. tv_id v = visitId \<and> tv_venueId v = venueId) (visits s) of
        None \<Rightarrow> Refused Settle_not_found
      | Some v \<Rightarrow>
          if tv_status v = Closed then Refused Already_closed
          else if \<not> si_force input \<and>
            countWhere (\<lambda>o'. ord_visitId o' = Some visitId \<and> ord_status o' \<in> set IN_FLIGHT_STATUSES)
              (orders s) > 0
          then Refused Orders_in_flight
          else Done (v, buildBill visitId s))"

text \<open>
  The three writes. The close repeats the guard; when it matches nothing the transaction ends
  without touching orders or sessions. A total that does not fit the column throws and rolls
  the transaction back.
\<close>

definition closing :: "id \<Rightarrow> visit \<Rightarrow> bool" where
  "closing visitId v \<longleftrightarrow> tv_id v = visitId \<and> tv_status v \<noteq> Closed"

definition close_settled :: "time \<Rightarrow> settle_input \<Rightarrow> int \<Rightarrow> visit \<Rightarrow> visit" where
  "close_settled t input amount v = v\<lparr>tv_status := Closed, tv_closedAt := Some t,
     tv_closedReason := Some Settled, tv_totalKurus := Some amount,
     tv_paymentMethod := Some (si_paymentMethod input),
     tv_paidAmountKurus := Some (case si_paidAmountKurus input of Some p \<Rightarrow> p | None \<Rightarrow> amount),
     tv_closedByStaffId := Some (si_staffId input), tv_billRequestedAt := None\<rparr>"

definition bill_total :: "bill option \<Rightarrow> int" where
  "bill_total b = (case b of None \<Rightarrow> 0 | Some x \<Rightarrow> b_totalKurus x)"

definition bill_orders :: "bill option \<Rightarrow> id list" where
  "bill_orders b = (case b of None \<Rightarrow> [] | Some x \<Rightarrow> b_orderIds x)"

definition mark_paid :: "settle_input \<Rightarrow> order \<Rightarrow> order" where
  "mark_paid input o' =
     o'\<lparr>ord_paymentStatus := Paid, ord_paymentProvider := Some (si_paymentMethod input)\<rparr>"

definition revoke :: "time \<Rightarrow> table_session \<Rightarrow> table_session" where
  "revoke t x = x\<lparr>ts_revokedAt := Some t\<rparr>"

definition settle_write ::
  "id \<Rightarrow> id \<Rightarrow> settle_input \<Rightarrow> visit \<Rightarrow> bill option \<Rightarrow> server \<Rightarrow> (settle_error, int) outcome \<times> server" where
  "settle_write visitId venueId input v b s =
     (let totalKurus = bill_total b;
          paid = (case si_paidAmountKurus input of Some p \<Rightarrow> p | None \<Rightarrow> totalKurus)
      in if \<not> int4 totalKurus \<or> \<not> int4 paid then (Threw, s)
         else if countWhere (closing visitId) (visits s) = 0 then (Refused Already_closed, s)
         else (Done totalKurus, publish (VisitClosed venueId visitId (tv_tableId v))
           (s\<lparr>visits := updateMany (closing visitId) (close_settled (now s) input totalKurus) (visits s),
              orders := updateMany (\<lambda>o'. ord_id o' \<in> set (bill_orders b)) (mark_paid input) (orders s),
              sessions := updateMany (\<lambda>x. ts_visitId x = Some visitId \<and> ts_revokedAt x = None)
                (revoke (now s)) (sessions s)\<rparr>)))"

definition settleVisit ::
  "id \<Rightarrow> id \<Rightarrow> settle_input \<Rightarrow> server \<Rightarrow> (settle_error, int) outcome \<times> server" where
  "settleVisit visitId venueId input s =
     (case settle_read visitId venueId input s of
        Done (v, b) \<Rightarrow> settle_write visitId venueId input v b s
      | Refused e \<Rightarrow> (Refused e, s)
      | Threw \<Rightarrow> (Threw, s))"

subsection \<open>Abandoned visits\<close>

definition stale_visit :: "server \<Rightarrow> visit \<Rightarrow> bool" where
  "stale_visit s v \<longleftrightarrow> visit_open v \<and> tv_openedAt v < now s - ABANDON_AFTER_MS \<and>
     \<not> (\<exists>x \<in> set (sessions s). ts_visitId x = Some (tv_id v) \<and> ts_revokedAt x = None \<and>
          ts_expiresAt x > now s) \<and>
     \<not> (\<exists>o' \<in> set (orders s). ord_visitId o' = Some (tv_id v) \<and>
          ord_createdAt o' > now s - ABANDON_AFTER_MS)"

definition abandon_visit :: "visit \<Rightarrow> server \<Rightarrow> server option" where
  "abandon_visit v s =
     (let amount = bill_total (buildBill (tv_id v) s)
      in if \<not> int4 amount then None
         else Some (publish (VisitClosed (tv_venueId v) (tv_id v) (tv_tableId v))
           (s\<lparr>visits := updateMany (\<lambda>x. tv_id x = tv_id v)
             (\<lambda>x. x\<lparr>tv_status := Closed, tv_closedAt := Some (now s),
                tv_closedReason := Some Abandoned, tv_totalKurus := Some amount\<rparr>) (visits s)\<rparr>)))"

text \<open>A throw in the loop leaves the visits closed so far closed.\<close>

fun abandon_all :: "visit list \<Rightarrow> server \<Rightarrow> bool \<times> server" where
  "abandon_all [] s = (True, s)"
| "abandon_all (v # vs) s =
     (case abandon_visit v s of None \<Rightarrow> (False, s) | Some s' \<Rightarrow> abandon_all vs s')"

definition closeAbandonedVisits :: "server \<Rightarrow> (unit, nat) outcome \<times> server" where
  "closeAbandonedVisits s =
     (let stale = filter (stale_visit s) (visits s);
          (ok, s') = abandon_all stale s
      in (if ok then Done (length stale) else Threw, s'))"

lemmas visit_defs = openOrJoinVisit_def find_open_visit_def create_visit_def recheck_visit_def
  delete_visit_def requestBill_def requestBill_read_def
  requestBill_write_def clearBillRequest_def settleVisit_def settle_read_def
  settle_write_def abandon_visit_def closeAbandonedVisits_def

lemma delete_visit_frame [simp]:
  "venues (delete_visit vid s) = venues s" "tables (delete_visit vid s) = tables s"
  "windows (delete_visit vid s) = windows s" "events (delete_visit vid s) = events s"
  "now (delete_visit vid s) = now s" "menuItems (delete_visit vid s) = menuItems s"
  "trustProxy (delete_visit vid s) = trustProxy s"
  by (simp_all add: delete_visit_def)

lemma openOrJoin_frame [simp]:
  "venues (snd (openOrJoinVisit w t v s)) = venues s" "tables (snd (openOrJoinVisit w t v s)) = tables s"
  "windows (snd (openOrJoinVisit w t v s)) = windows s" "events (snd (openOrJoinVisit w t v s)) = events s"
  "now (snd (openOrJoinVisit w t v s)) = now s" "menuItems (snd (openOrJoinVisit w t v s)) = menuItems s"
  "trustProxy (snd (openOrJoinVisit w t v s)) = trustProxy s"
  by (simp_all add: openOrJoinVisit_def recheck_visit_def create_visit_def split: option.split list.split)

subsection \<open>What settling does\<close>

interpretation visit_close: conditional_write tv_id "\<lambda>v. tv_status v \<noteq> Closed"
  "\<lambda>(t, input, amount). close_settled t input amount"
  by standard (auto simp: close_settled_def)

lemma closing_alt: "closing visitId = (\<lambda>v. tv_id v = visitId \<and> tv_status v \<noteq> Closed)"
  by (auto simp: closing_def)

lemma close_settled_fields [simp]:
  "tv_id (close_settled t i k v) = tv_id v" "tv_tableId (close_settled t i k v) = tv_tableId v"
  "tv_venueId (close_settled t i k v) = tv_venueId v"
  "tv_status (close_settled t i k v) = Closed" "tv_totalKurus (close_settled t i k v) = Some k"
  by (simp_all add: close_settled_def)

lemma settle_Done_iff:
  "fst (settleVisit vid ven input s) = Done k \<longleftrightarrow>
   (\<exists>v. findFirst (\<lambda>v. tv_id v = vid \<and> tv_venueId v = ven) (visits s) = Some v \<and>
      tv_status v \<noteq> Closed \<and>
      (si_force input \<or> (\<forall>o' \<in> set (orders s). ord_visitId o' = Some vid \<longrightarrow>
         ord_status o' \<notin> set IN_FLIGHT_STATUSES)) \<and>
      k = bill_total (buildBill vid s) \<and> int4 k \<and>
      int4 (case si_paidAmountKurus input of Some p \<Rightarrow> p | None \<Rightarrow> k))"
proof -
  have "countWhere (closing vid) (visits s) > 0"
    if "findFirst (\<lambda>v. tv_id v = vid \<and> tv_venueId v = ven) (visits s) = Some v" "tv_status v \<noteq> Closed" for v
    using findFirst_SomeD[OF that(1)] that(2) by (auto simp: countWhere_pos_iff closing_def)
  then show ?thesis
    by (fastforce simp: settleVisit_def settle_read_def settle_write_def Let_def countWhere_pos_iff
        split: option.splits if_splits outcome.splits)
qed

lemma settle_Done_state:
  assumes "settleVisit vid ven input s = (Done k, s')"
  shows "visits s' = updateMany (closing vid) (close_settled (now s) input k) (visits s)"
    and "orders s' = updateMany (\<lambda>o'. ord_id o' \<in> set (bill_orders (buildBill vid s))) (mark_paid input) (orders s)"
    and "sessions s' = updateMany (\<lambda>x. ts_visitId x = Some vid \<and> ts_revokedAt x = None) (revoke (now s)) (sessions s)"
    and "now s' = now s" and "tables s' = tables s"
  using assms
  by (auto simp: settleVisit_def settle_read_def settle_write_def Let_def
      split: option.splits if_splits outcome.splits)

lemma settle_not_Done:
  assumes "settleVisit vid ven input s = (r, s')" "\<nexists>k. r = Done k"
  shows "s' = s"
  using assms
  by (auto simp: settleVisit_def settle_read_def settle_write_def Let_def
      split: option.splits if_splits outcome.splits)

lemma settle_none_open:
  assumes "settleVisit vid ven input s = (Done k, s')"
  shows "countWhere (closing vid) (visits s') = 0"
  using visit_close.second_write_loses[of vid "(now s, input, k)" "visits s"]
  by (simp add: settle_Done_state(1)[OF assms] closing_alt)




definition cash_input :: settle_input where
  "cash_input = \<lparr>si_paymentMethod = Cash, si_paidAmountKurus = None, si_staffId = ''a1'',
     si_force = True\<rparr>"

lemma sample_bill_total: "bill_total (buildBill ''w1'' sample) = 2800"
  using bill_worth[OF sample_bill]
  by (simp add: sample_bill bill_total_def sample_defs billed_def order_worth_def live_items_def
      line_total_def)

lemma sample_settles: "fst (settleVisit ''w1'' ''v1'' cash_input sample) = Done 2800"
proof -
  have "findFirst (\<lambda>v. tv_id v = ''w1'' \<and> tv_venueId v = ''v1'') (visits sample) = Some sample_visit"
    by (simp add: sample_defs)
  then show ?thesis
    unfolding settle_Done_iff sample_bill_total
    by (simp add: int4_def cash_input_def sample_visit_def)
qed

definition sample_settled :: server where
  "sample_settled = snd (settleVisit ''w1'' ''v1'' cash_input sample)"

lemma sample_settle: "settleVisit ''w1'' ''v1'' cash_input sample = (Done 2800, sample_settled)"
  using sample_settles by (simp add: sample_settled_def prod_eq_iff)



text \<open>
  when a settlement succeeds. Exactly when the visit exists in the staff member's venue, is
  not closed, has no order still in the kitchen (unless staff force it), and the amounts fit.
\<close>

theorem settle_succeeds_iff:
  "(\<exists>k. fst (settleVisit vid ven input s) = Done k) \<longleftrightarrow>
   (\<exists>v. findFirst (\<lambda>v. tv_id v = vid \<and> tv_venueId v = ven) (visits s) = Some v \<and>
      tv_status v \<noteq> Closed \<and>
      (si_force input \<or>
       filter (\<lambda>o'. ord_visitId o' = Some vid \<and> ord_status o' \<in> set IN_FLIGHT_STATUSES) (orders s) = []) \<and>
      int4 (bill_total (buildBill vid s)) \<and>
      int4 (case si_paidAmountKurus input of Some p \<Rightarrow> p | None \<Rightarrow> bill_total (buildBill vid s)))"
  by (simp only: settle_Done_iff filter_empty_conv) blast

subsection \<open>A request that lands after the settlement\<close>

lemma bill_total_cong:
  assumes vis: "visits s' = map g (visits s)"
    and ids: "\<And>x. tv_id (g x) = tv_id x" "\<And>x. tv_tableId (g x) = tv_tableId x"
    and "tables s' = tables s"
    and worth: "sum_list (map order_worth (filter (billed vid) (orders s'))) =
      sum_list (map order_worth (filter (billed vid) (orders s)))"
  shows "bill_total (buildBill vid s') = bill_total (buildBill vid s)"
proof -
  have "findFirst (\<lambda>v. tv_id v = vid) (visits s') = map_option g (findFirst (\<lambda>v. tv_id v = vid) (visits s))"
    unfolding vis by (rule findFirst_map) (simp add: ids)
  then have "buildBill vid s' = None \<longleftrightarrow> buildBill vid s = None"
    using assms(4) by (cases "findFirst (\<lambda>v. tv_id v = vid) (visits s)")
      (auto simp: buildBill_def ids Let_def split: option.splits prod.splits)
  then show ?thesis
    using worth bill_worth[of vid s] bill_worth[of vid s']
    by (cases "buildBill vid s"; cases "buildBill vid s'") (auto simp: bill_total_def)
qed

lemma paid_worth:
  "sum_list (map order_worth (filter (billed vid) (updateMany p (mark_paid input) os))) =
   sum_list (map order_worth (filter (billed vid) os))"
  by (rule sum_filter_updateMany) (simp_all add: mark_paid_def order_worth_def live_items_def billed_def)

text \<open>
  asking for the bill is not guarded against a settlement that runs in between. A customer
  whose request was checked while the visit was open writes unconditionally, which takes a visit
  that was settled meanwhile back to \<open>bill_requested\<close>, and the same visit can then be settled a
  second time for the same bill.
\<close>

theorem late_bill_request_reopens:
  assumes read: "requestBill_read vid ven s = Some v" "tv_status v = Open"
    and settled: "settleVisit vid ven input s = (Done k, s1)"
    and paid_in_full: "si_paidAmountKurus input = None" "si_force input"
  shows "\<exists>k2 s2. settleVisit vid ven input (requestBill_write vid ven v s1) = (Done k2, s2) \<and> k2 = k"
proof -
  let ?s = "requestBill_write vid ven v s1"
  let ?g = "\<lambda>x. if tv_id x = vid
      then ask_bill (now s1) (if closing vid x then close_settled (now s) input k x else x) else x"
  note st = settle_Done_state[OF settled]
  have k: "k = bill_total (buildBill vid s)" "int4 k"
    using settle_Done_iff[of vid ven input s k] settled by auto
  have vis: "visits ?s = map ?g (visits s)"
    by (auto simp: requestBill_write_def read(2) st(1) updateMany_def closing_def)
  have g: "tv_id (?g x) = tv_id x" "tv_venueId (?g x) = tv_venueId x" "tv_tableId (?g x) = tv_tableId x" for x
    by (simp_all add: ask_bill_def)
  have "bill_total (buildBill vid ?s) = bill_total (buildBill vid s)"
    by (rule bill_total_cong[OF vis]) (simp_all add: g requestBill_write_def st(2,5) paid_worth)
  moreover have "\<exists>v'. findFirst (\<lambda>v. tv_id v = vid \<and> tv_venueId v = ven) (visits ?s) = Some v' \<and>
      tv_status v' = BillRequested"
  proof -
    from read obtain v0 where v0: "findFirst (\<lambda>v. tv_id v = vid \<and> tv_venueId v = ven) (visits s) = Some v0"
      by (auto simp: requestBill_read_def split: option.splits)
    have "findFirst (\<lambda>v. tv_id v = vid \<and> tv_venueId v = ven) (map ?g (visits s)) = Some (?g v0)"
      by (subst findFirst_map) (simp_all only: g v0 option.map)
    then show ?thesis
      using findFirst_SomeD[OF v0] unfolding vis by (auto simp: ask_bill_def)
  qed
  ultimately have "fst (settleVisit vid ven input ?s) = Done k"
    using k paid_in_full by (auto simp: settle_Done_iff)
  then show ?thesis by (metis prod.collapse)
qed

theorem late_bill_request_reopens_witness:
  "\<exists>k2 s2. settleVisit ''w1'' ''v1'' cash_input
     (requestBill_write ''w1'' ''v1'' sample_visit sample_settled) = (Done k2, s2) \<and> k2 = 2800"
proof (rule late_bill_request_reopens[OF _ _ sample_settle])
  show "requestBill_read ''w1'' ''v1'' sample = Some sample_visit"
    by (simp add: requestBill_read_def sample_defs)
qed (simp_all add: sample_visit_def cash_input_def)

end
