(* ===== verification/TableSession.thy ===== *)
theory TableSession
  imports Visit
begin

section \<open>Customer table sessions\<close>

text \<open>
  \<open>src/lib/tableSession.ts\<close>: minting a session for a scanned table, with the cap on live sessions
  per table, and the validation every customer request goes through. The random token and the
  generated ids are arguments. \<open>mintSession\<close> is split after the row is created, where another
  scan can run. The foreign key of a session to its table makes the table lookup of
  \<open>getActiveSession\<close> succeed for every stored session; without one the model answers like an
  unknown token.
\<close>

definition HARD_CAP_MS :: int where "HARD_CAP_MS = 2 * 60 * 60 * 1000"
definition IDLE_MS :: int where "IDLE_MS = 30 * 60 * 1000"
definition MAX_ACTIVE_PER_TABLE :: nat where "MAX_ACTIVE_PER_TABLE = 6"
definition TOUCH_INTERVAL_MS :: int where "TOUCH_INTERVAL_MS = 60 * 1000"

record active_session =
  as_id :: id
  as_venueId :: id
  as_tableId :: id
  as_tableCode :: string
  as_tableName :: jstr
  as_visitId :: "id option"

subsection \<open>Minting\<close>

definition new_session :: "id \<Rightarrow> id \<Rightarrow> id \<Rightarrow> string \<Rightarrow> id \<Rightarrow> time \<Rightarrow> table_session" where
  "new_session sid tableId venueId token visitId t = \<lparr>ts_id = sid, ts_venueId = venueId,
     ts_tableId = tableId, ts_token = token, ts_visitId = Some visitId, ts_createdAt = t,
     ts_lastSeenAt = t, ts_expiresAt = t + HARD_CAP_MS, ts_revokedAt = None\<rparr>"

definition mint_create ::
  "id \<Rightarrow> id \<Rightarrow> string \<Rightarrow> id \<Rightarrow> id \<Rightarrow> server \<Rightarrow> server" where
  "mint_create newVisit sid token tableId venueId s =
     (let (visitId, s') = openOrJoinVisit newVisit tableId venueId s
      in s'\<lparr>sessions := sessions s' @ [new_session sid tableId venueId token visitId (now s')]\<rparr>)"

definition active_at :: "id \<Rightarrow> time \<Rightarrow> table_session \<Rightarrow> bool" where
  "active_at tableId t x \<longleftrightarrow> ts_tableId x = tableId \<and> ts_revokedAt x = None \<and> ts_expiresAt x > t"

definition displace :: "id \<Rightarrow> server \<Rightarrow> server" where
  "displace tableId s =
     (let active = orderByDesc ts_createdAt (filter (active_at tableId (now s)) (sessions s))
      in if length active > MAX_ACTIVE_PER_TABLE
         then (let stale = map ts_id (drop MAX_ACTIVE_PER_TABLE active) in
           s\<lparr>sessions := updateMany (\<lambda>x. ts_id x \<in> set stale) (revoke (now s)) (sessions s)\<rparr>)
         else s)"

definition mintSession ::
  "id \<Rightarrow> id \<Rightarrow> string \<Rightarrow> id \<Rightarrow> id \<Rightarrow> server \<Rightarrow> string \<times> server" where
  "mintSession newVisit sid token tableId venueId s =
     (token, displace tableId (mint_create newVisit sid token tableId venueId s))"

subsection \<open>Validation\<close>

definition touch :: "time \<Rightarrow> table_session \<Rightarrow> table_session" where
  "touch t x = x\<lparr>ts_lastSeenAt := t\<rparr>"

definition getActiveSession ::
  "string option \<Rightarrow> string option \<Rightarrow> server \<Rightarrow> active_session option \<times> server" where
  "getActiveSession cookie expectedTableCode s =
     (case cookie of
        None \<Rightarrow> (None, s)
      | Some token \<Rightarrow>
          if token = [] then (None, s) else
          (case findFirst (\<lambda>x. ts_token x = token) (sessions s) of
             None \<Rightarrow> (None, s)
           | Some x \<Rightarrow>
               (case findFirst (\<lambda>t. tab_id t = ts_tableId x) (tables s) of
                  None \<Rightarrow> (None, s)
                | Some t \<Rightarrow>
                    if ts_revokedAt x \<noteq> None then (None, s)
                    else if ts_expiresAt x < now s then (None, s)
                    else if ts_lastSeenAt x + IDLE_MS < now s then (None, s)
                    else if (case expectedTableCode of None \<Rightarrow> False
                      | Some c \<Rightarrow> c \<noteq> [] \<and> tab_code t \<noteq> c) then (None, s)
                    else if \<not> tab_active t then (None, s)
                    else
                      (Some \<lparr>as_id = ts_id x, as_venueId = ts_venueId x, as_tableId = ts_tableId x,
                         as_tableCode = tab_code t, as_tableName = tab_name t,
                         as_visitId = ts_visitId x\<rparr>,
                       if ts_lastSeenAt x + TOUCH_INTERVAL_MS \<le> now s
                       then s\<lparr>sessions := updateMany (\<lambda>y. ts_id y = ts_id x) (touch (now s)) (sessions s)\<rparr>
                       else s))))"

text \<open>The session a cookie stands for, when it is accepted.\<close>

definition live_session :: "string option \<Rightarrow> string option \<Rightarrow> server \<Rightarrow> table_session \<Rightarrow> tabl \<Rightarrow> bool" where
  "live_session cookie code s x t \<longleftrightarrow>
     (\<exists>token. cookie = Some token \<and> token \<noteq> [] \<and>
        findFirst (\<lambda>x. ts_token x = token) (sessions s) = Some x) \<and>
     findFirst (\<lambda>t. tab_id t = ts_tableId x) (tables s) = Some t \<and>
     ts_revokedAt x = None \<and> now s \<le> ts_expiresAt x \<and> now s \<le> ts_lastSeenAt x + IDLE_MS \<and>
     (case code of None \<Rightarrow> True | Some c \<Rightarrow> c = [] \<or> tab_code t = c) \<and> tab_active t"

lemma getActiveSession_live:
  assumes "live_session cookie code s x t"
  shows "getActiveSession cookie code s =
    (Some \<lparr>as_id = ts_id x, as_venueId = ts_venueId x, as_tableId = ts_tableId x,
       as_tableCode = tab_code t, as_tableName = tab_name t, as_visitId = ts_visitId x\<rparr>,
     if ts_lastSeenAt x + TOUCH_INTERVAL_MS \<le> now s
     then s\<lparr>sessions := updateMany (\<lambda>y. ts_id y = ts_id x) (touch (now s)) (sessions s)\<rparr> else s)"
proof -
  from assms obtain token where tok: "cookie = Some token" "token \<noteq> []"
    "findFirst (\<lambda>x. ts_token x = token) (sessions s) = Some x"
    by (auto simp: live_session_def)
  note ok = assms[unfolded live_session_def]
  have "\<not> (case code of None \<Rightarrow> False | Some c \<Rightarrow> c \<noteq> [] \<and> tab_code t \<noteq> c)"
    using ok by (cases code) auto
  then show ?thesis
    using ok unfolding getActiveSession_def tok(1) by (simp add: tok(2,3))
qed

lemma getActiveSession_dead:
  "\<nexists>x t. live_session cookie code s x t \<Longrightarrow> getActiveSession cookie code s = (None, s)"
  by (cases code) (auto simp: getActiveSession_def live_session_def split: option.splits)

lemma getActiveSession_Some:
  "fst (getActiveSession cookie code s) = Some a \<longleftrightarrow>
   (\<exists>x t. live_session cookie code s x t \<and>
      a = \<lparr>as_id = ts_id x, as_venueId = ts_venueId x, as_tableId = ts_tableId x,
           as_tableCode = tab_code t, as_tableName = tab_name t, as_visitId = ts_visitId x\<rparr>)"
proof (cases "\<exists>x t. live_session cookie code s x t")
  case True
  then obtain x t where live: "live_session cookie code s x t" by blast
  have "x' = x \<and> t' = t" if "live_session cookie code s x' t'" for x' t'
    using that live by (auto simp: live_session_def)
  then show ?thesis
    using live unfolding getActiveSession_live[OF live] fst_conv option.inject by metis
next
  case False
  then show ?thesis by (simp add: getActiveSession_dead)
qed

lemma getActiveSession_sessions:
  "\<exists>ss. snd (getActiveSession cookie code s) = s\<lparr>sessions := ss\<rparr> \<and> map ts_id ss = map ts_id (sessions s)"
proof -
  have keep: "\<exists>ss. s = s\<lparr>sessions := ss\<rparr> \<and> map ts_id ss = map ts_id (sessions s)"
    by (rule exI[of _ "sessions s"]) simp
  show ?thesis
  proof (cases "\<exists>x t. live_session cookie code s x t")
    case True
    then obtain x t where live: "live_session cookie code s x t" by blast
    show ?thesis
    proof (cases "ts_lastSeenAt x + TOUCH_INTERVAL_MS \<le> now s")
      case True
      then show ?thesis
        unfolding getActiveSession_live[OF live] snd_conv
        by (intro exI[of _ "updateMany (\<lambda>y. ts_id y = ts_id x) (touch (now s)) (sessions s)"])
          (simp add: map_updateMany touch_def)
    next
      case False
      then show ?thesis unfolding getActiveSession_live[OF live] snd_conv using keep by simp
    qed
  next
    case False
    then show ?thesis using keep by (simp only: getActiveSession_dead[OF False] snd_conv)
  qed
qed

lemma getActiveSession_frame [simp]:
  "venues (snd (getActiveSession c e s)) = venues s" "tables (snd (getActiveSession c e s)) = tables s"
  "visits (snd (getActiveSession c e s)) = visits s" "orders (snd (getActiveSession c e s)) = orders s"
  "menuItems (snd (getActiveSession c e s)) = menuItems s" "now (snd (getActiveSession c e s)) = now s"
  "windows (snd (getActiveSession c e s)) = windows s" "events (snd (getActiveSession c e s)) = events s"
  "orderAttempts (snd (getActiveSession c e s)) = orderAttempts s"
  "posDeliveries (snd (getActiveSession c e s)) = posDeliveries s"
  "orderEdits (snd (getActiveSession c e s)) = orderEdits s"
  "categories (snd (getActiveSession c e s)) = categories s"
  "trustProxy (snd (getActiveSession c e s)) = trustProxy s"
  "map ts_id (sessions (snd (getActiveSession c e s))) = map ts_id (sessions s)"
  using getActiveSession_sessions[of c e s] by auto

subsection \<open>The cap per table\<close>

lemma displace_active:
  assumes ids: "distinct (map ts_id (sessions s))"
  shows "filter (active_at tableId (now s)) (sessions (displace tableId s)) =
    filter (\<lambda>x. active_at tableId (now s) x \<and>
      x \<in> set (take MAX_ACTIVE_PER_TABLE (orderByDesc ts_createdAt (filter (active_at tableId (now s)) (sessions s)))))
      (sessions s)"
proof -
  let ?act = "orderByDesc ts_createdAt (filter (active_at tableId (now s)) (sessions s))"
  let ?m = MAX_ACTIVE_PER_TABLE
  have set: "set ?act = {x \<in> set (sessions s). active_at tableId (now s) x}" by auto
  have dist: "distinct ?act"
    using ids by (simp add: orderByDesc_def distinct_map)
  have stale: "ts_id x \<in> ts_id ` set (drop ?m ?act) \<longleftrightarrow> x \<notin> set (take ?m ?act)"
    if "x \<in> set (sessions s)" "active_at tableId (now s) x" for x
  proof -
    have "x \<in> set (take ?m ?act) \<union> set (drop ?m ?act)"
      using that set by (metis (mono_tags, lifting) append_take_drop_id mem_Collect_eq set_append)
    moreover have "set (take ?m ?act) \<inter> set (drop ?m ?act) = {}"
      using dist by (metis append_take_drop_id distinct_append)
    moreover have "ts_id x \<in> ts_id ` set (drop ?m ?act) \<longleftrightarrow> x \<in> set (drop ?m ?act)"
    proof (rule inj_on_image_mem_iff)
      show "inj_on ts_id (set (sessions s))" using ids by (simp add: distinct_map)
      show "set (drop ?m ?act) \<subseteq> set (sessions s)"
        using set_drop_subset[of ?m ?act] set by blast
    qed (rule that(1))
    ultimately show ?thesis by blast
  qed
  have revoked: "\<not> active_at tableId (now s) (revoke t x)" for t x
    by (simp add: active_at_def revoke_def)
  show ?thesis
  proof (cases "length ?act > ?m")
    case True
    have "filter (active_at tableId (now s)) (updateMany (\<lambda>x. ts_id x \<in> set (map ts_id (drop ?m ?act))) (revoke (now s)) (sessions s)) =
        filter (\<lambda>x. active_at tableId (now s) x \<and> \<not> (ts_id x \<in> set (map ts_id (drop ?m ?act)))) (sessions s)"
      by (rule filter_updateMany_drop) (rule revoked)
    moreover have "filter (\<lambda>x. active_at tableId (now s) x \<and> \<not> (ts_id x \<in> set (map ts_id (drop ?m ?act)))) (sessions s) =
        filter (\<lambda>x. active_at tableId (now s) x \<and> x \<in> set (take ?m ?act)) (sessions s)"
      by (rule filter_cong) (simp_all add: stale cong: conj_cong)
    ultimately show ?thesis using True
      by (simp add: displace_def Let_def del: set_map)
  next
    case False
    then show ?thesis using set
      by (auto simp: displace_def Let_def intro!: filter_cong)
  qed
qed

lemma displace_count:
  assumes "distinct (map ts_id (sessions s))"
  shows "countWhere (active_at tableId (now s)) (sessions (displace tableId s)) \<le> MAX_ACTIVE_PER_TABLE"
proof -
  let ?top = "take MAX_ACTIVE_PER_TABLE (orderByDesc ts_createdAt (filter (active_at tableId (now s)) (sessions s)))"
  let ?kept = "filter (\<lambda>x. active_at tableId (now s) x \<and> x \<in> set ?top) (sessions s)"
  have "distinct ?kept" using assms by (simp add: distinct_map)
  then have "length ?kept = card (set ?kept)" by (rule distinct_card[symmetric])
  also have "\<dots> \<le> card (set ?top)" by (rule card_mono) auto
  also have "\<dots> \<le> MAX_ACTIVE_PER_TABLE"
    by (metis card_length length_take min.cobounded2 order_trans min.commute)
  finally show ?thesis by (simp only: countWhere_def displace_active[OF assms])
qed

lemma displace_frame [simp]:
  "now (displace tableId s) = now s" "visits (displace tableId s) = visits s"
  "orders (displace tableId s) = orders s" "tables (displace tableId s) = tables s"
  by (simp_all add: displace_def Let_def)

text \<open>
  C8: at most six phones per table. After every scan that mints a session, however many sessions
  the table had, at most six of them are live, and making room revokes no session of another
  table.
\<close>

theorem mint_caps_sessions:
  assumes "distinct (map ts_id (sessions (mint_create w sid token tableId venueId s)))"
    and "mintSession w sid token tableId venueId s = (tok, s')"
  shows "countWhere (active_at tableId (now s')) (sessions s') \<le> 6 \<and>
    filter (\<lambda>x. ts_tableId x \<noteq> tableId) (sessions s') =
    filter (\<lambda>x. ts_tableId x \<noteq> tableId) (sessions (mint_create w sid token tableId venueId s))"
proof -
  let ?s = "mint_create w sid token tableId venueId s"
  have s': "s' = displace tableId ?s" using assms(2) by (auto simp: mintSession_def)
  have other: "ts_tableId x = tableId" if "x \<in> set (sessions ?s)"
    "ts_id x \<in> ts_id ` set (drop n (orderByDesc ts_createdAt (filter (active_at tableId (now ?s)) (sessions ?s))))"
    for x n
  proof -
    from that(2) obtain y where y: "ts_id y = ts_id x"
      "y \<in> set (orderByDesc ts_createdAt (filter (active_at tableId (now ?s)) (sessions ?s)))"
      by (force dest: in_set_dropD)
    then have "y = x" using assms(1) that(1) by (auto simp: distinct_map inj_on_def)
    then show ?thesis using y(2) by (simp add: active_at_def)
  qed
  have "filter (\<lambda>x. ts_tableId x \<noteq> tableId) (sessions s') = filter (\<lambda>x. ts_tableId x \<noteq> tableId) (sessions ?s)"
    unfolding s' displace_def Let_def
    by (simp, intro impI, subst filter_updateMany_drop)
      (auto simp: revoke_def dest: other intro!: filter_cong)
  then show ?thesis
    using displace_count[OF assms(1), of tableId] by (simp add: s' MAX_ACTIVE_PER_TABLE_def)
qed

lemma find_open_sample [simp]: "find_open_visit ''t1'' sample = Some ''w1''"
  by (simp add: find_open_visit_def orderByDesc_def sample_defs open_at_def visit_open_def)

theorem mint_caps_sessions_witness:
  "countWhere (active_at ''t1'' 120000) (sessions (snd (mintSession ''w2'' ''s3'' ''tok3'' ''t1'' ''v1'' sample))) \<le> 6"
proof -
  have ids: "distinct (map ts_id (sessions (mint_create ''w2'' ''s3'' ''tok3'' ''t1'' ''v1'' sample)))"
    by (simp add: mint_create_def openOrJoinVisit_def new_session_def sample_defs)
  have "now (snd (mintSession ''w2'' ''s3'' ''tok3'' ''t1'' ''v1'' sample)) = 120000"
    by (simp add: mintSession_def mint_create_def openOrJoinVisit_def sample_defs)
  then show ?thesis
    using mint_caps_sessions[OF ids, of "''tok3''" "snd (mintSession ''w2'' ''s3'' ''tok3'' ''t1'' ''v1'' sample)"]
    by (simp add: mintSession_def)
qed

subsection \<open>How long a session lives\<close>

text \<open>The answers a phone gets for requests at the given instants, nothing else happening.\<close>

fun session_requests :: "string \<Rightarrow> time list \<Rightarrow> server \<Rightarrow> bool list" where
  "session_requests token [] s = []"
| "session_requests token (t # ts) s =
     (let (a, s') = getActiveSession (Some token) None (s\<lparr>now := t\<rparr>)
      in (a \<noteq> None) # session_requests token ts s')"

text \<open>No two requests in a row are further apart than \<open>gap\<close>.\<close>

fun paced :: "int \<Rightarrow> time \<Rightarrow> time list \<Rightarrow> bool" where
  "paced gap t0 [] = True"
| "paced gap t0 (t # ts) \<longleftrightarrow> t0 \<le> t \<and> t \<le> t0 + gap \<and> paced gap t ts"

lemma session_request_step:
  assumes "token \<noteq> []" "findFirst (\<lambda>x. ts_token x = token) (sessions s) = Some x" "ts_revokedAt x = None"
    "findFirst (\<lambda>r. tab_id r = ts_tableId x) (tables s) = Some r" "tab_active r"
    "t \<le> ts_expiresAt x" "t \<le> ts_lastSeenAt x + IDLE_MS"
  shows "\<exists>a s' x'. getActiveSession (Some token) None (s\<lparr>now := t\<rparr>) = (Some a, s') \<and>
    findFirst (\<lambda>x. ts_token x = token) (sessions s') = Some x' \<and> tables s' = tables s \<and>
    ts_revokedAt x' = None \<and> ts_tableId x' = ts_tableId x \<and> ts_expiresAt x' = ts_expiresAt x \<and>
    t < ts_lastSeenAt x' + TOUCH_INTERVAL_MS"
proof -
  have live: "live_session (Some token) None (s\<lparr>now := t\<rparr>) x r"
    using assms by (simp add: live_session_def)
  show ?thesis
  proof (cases "ts_lastSeenAt x + TOUCH_INTERVAL_MS \<le> t")
    case True
    let ?s = "s\<lparr>now := t, sessions := updateMany (\<lambda>y. ts_id y = ts_id x) (touch t) (sessions s)\<rparr>"
    have "findFirst (\<lambda>x. ts_token x = token) (sessions ?s) = Some (touch t x)"
      by simp (subst findFirst_updateMany_key, simp_all add: touch_def assms(2))
    moreover have "getActiveSession (Some token) None (s\<lparr>now := t\<rparr>) =
        (fst (getActiveSession (Some token) None (s\<lparr>now := t\<rparr>)), ?s)"
      using True unfolding getActiveSession_live[OF live] by simp
    moreover have "fst (getActiveSession (Some token) None (s\<lparr>now := t\<rparr>)) \<noteq> None"
      unfolding getActiveSession_live[OF live] by simp
    moreover have "tables ?s = tables s" "ts_revokedAt (touch t x) = None" "ts_tableId (touch t x) = ts_tableId x"
      "ts_expiresAt (touch t x) = ts_expiresAt x" "t < ts_lastSeenAt (touch t x) + TOUCH_INTERVAL_MS"
      using assms(3) by (simp_all add: touch_def TOUCH_INTERVAL_MS_def)
    ultimately show ?thesis by (metis not_None_eq)
  next
    case False
    then show ?thesis
      unfolding getActiveSession_live[OF live] using assms by auto
  qed
qed

text \<open>
  a phone in use is never locked out. A session that is not revoked, at an active table,
  answers every request up to its two-hour cap as long as no two requests are more than 29
  minutes apart.
\<close>

theorem session_stays_alive:
  assumes "token \<noteq> []" "findFirst (\<lambda>x. ts_token x = token) (sessions s) = Some x" "ts_revokedAt x = None"
    and "findFirst (\<lambda>r. tab_id r = ts_tableId x) (tables s) = Some r" "tab_active r"
    and "paced (29 * 60 * 1000) (ts_lastSeenAt x) ts" "\<forall>t \<in> set ts. t \<le> ts_expiresAt x"
  shows "list_all (\<lambda>b. b) (session_requests token ts s)"
proof -
  have "list_all (\<lambda>b. b) (session_requests token ts s)"
    if "findFirst (\<lambda>x. ts_token x = token) (sessions s) = Some x" "ts_revokedAt x = None"
      "findFirst (\<lambda>r. tab_id r = ts_tableId x) (tables s) = Some r"
      "paced (29 * 60 * 1000) t0 ts" "t0 < ts_lastSeenAt x + TOUCH_INTERVAL_MS"
      "\<forall>t \<in> set ts. t \<le> ts_expiresAt x" for t0 s x
    using that
  proof (induction ts arbitrary: t0 s x)
    case Nil
    then show ?case by simp
  next
    case (Cons t ts)
    then have idle: "t \<le> ts_lastSeenAt x + IDLE_MS" "t \<le> ts_expiresAt x" "paced (29 * 60 * 1000) t ts"
      by (auto simp: IDLE_MS_def TOUCH_INTERVAL_MS_def)
    from session_request_step[OF assms(1) Cons.prems(1,2,3) assms(5) idle(2,1)]
    obtain a s' x' where step: "getActiveSession (Some token) None (s\<lparr>now := t\<rparr>) = (Some a, s')"
      "findFirst (\<lambda>x. ts_token x = token) (sessions s') = Some x'" "tables s' = tables s"
      "ts_revokedAt x' = None" "ts_tableId x' = ts_tableId x" "ts_expiresAt x' = ts_expiresAt x"
      "t < ts_lastSeenAt x' + TOUCH_INTERVAL_MS" by blast
    then show ?case
      using Cons.IH[of s' x' t] Cons.prems(3,6) idle(3) by simp
  qed
  then show ?thesis
    using assms by (simp add: TOUCH_INTERVAL_MS_def)
qed

theorem session_stays_alive_witness:
  "list_all (\<lambda>b. b) (session_requests ''tok1'' [130000, 1000000, 2700000] sample)"
  by (rule session_stays_alive[where x = "sample_session ''s1'' ''tok1''" and r = "hd (tables sample)"])
    (simp_all add: sample_defs)

text \<open>
  the price of not stamping every request. A request answered less than a minute after the
  last stamp leaves the stamp as it was, so the session is refused half an hour after the stamp,
  although its last answered request is more recent than the idle limit.
\<close>

theorem touch_interval_shortens_idle:
  assumes "token \<noteq> []" "findFirst (\<lambda>x. ts_token x = token) (sessions s) = Some x" "ts_revokedAt x = None"
    and "findFirst (\<lambda>r. tab_id r = ts_tableId x) (tables s) = Some r" "tab_active r"
    and "ts_lastSeenAt x < t" "t < ts_lastSeenAt x + TOUCH_INTERVAL_MS" "t \<le> ts_expiresAt x"
  shows "session_requests token [t, ts_lastSeenAt x + IDLE_MS + 1] s = [True, False] \<and>
    (ts_lastSeenAt x + IDLE_MS + 1) - t \<le> IDLE_MS"
proof -
  have live: "live_session (Some token) None (s\<lparr>now := t\<rparr>) x r"
    using assms by (simp add: live_session_def TOUCH_INTERVAL_MS_def IDLE_MS_def)
  let ?t = "ts_lastSeenAt x + IDLE_MS + 1"
  have "\<nexists>x' r'. live_session (Some token) None (s\<lparr>now := ?t\<rparr>) x' r'"
    using assms(2) by (auto simp: live_session_def)
  from getActiveSession_dead[OF this] show ?thesis
    using assms(6,7) by (simp add: getActiveSession_live[OF live])
qed

theorem touch_interval_shortens_idle_witness:
  "session_requests ''tok1'' [110000, ts_lastSeenAt (sample_session ''s1'' ''tok1'') + IDLE_MS + 1] sample = [True, False]"
  using touch_interval_shortens_idle[of "''tok1''" sample "sample_session ''s1'' ''tok1''" "hd (tables sample)" 110000]
  by (simp add: sample_defs TOUCH_INTERVAL_MS_def)

end
