(* ===== verification/Qr.thy ===== *)
theory Qr
  imports Schema
begin

section \<open>Signed table QR codes\<close>

text \<open>
  \<open>src/lib/qr.ts\<close>. The HMAC is a parameter of the model: \<open>hmac secret message\<close> is the
  base64url digest \<open>createHmac("sha256", secret).update(message).digest("base64url")\<close>.
  \<open>Buffer.from(s, "utf8")\<close> is the function \<open>utf8\<close>, in which a lone surrogate becomes the
  replacement character, and \<open>timingSafeEqual\<close> throws on buffers of different lengths
  (\<open>None\<close>).
\<close>

type_synonym mac = "string \<Rightarrow> jstr \<Rightarrow> string"

definition is_high :: "nat \<Rightarrow> bool" where
  "is_high c \<longleftrightarrow> 55296 \<le> c \<and> c < 56320"

definition is_low :: "nat \<Rightarrow> bool" where
  "is_low c \<longleftrightarrow> 56320 \<le> c \<and> c < 57344"

definition code_point :: "nat \<Rightarrow> nat \<Rightarrow> nat" where
  "code_point hi lo = 65536 + (hi - 55296) * 1024 + (lo - 56320)"

fun utf8 :: "jstr \<Rightarrow> nat list" where
  "utf8 [] = []"
| "utf8 (c # cs) =
     (if c < 128 then c # utf8 cs
      else if c < 2048 then (192 + c div 64) # (128 + c mod 64) # utf8 cs
      else if is_high c then
        (case cs of
           [] \<Rightarrow> [239, 191, 189]
         | d # ds \<Rightarrow>
             if is_low d then
               (let p = code_point c d in
                (240 + p div 262144) # (128 + p div 4096 mod 64) # (128 + p div 64 mod 64) #
                (128 + p mod 64) # utf8 ds)
             else 239 # 191 # 189 # utf8 cs)
      else if is_low c then 239 # 191 # 189 # utf8 cs
      else (224 + c div 4096) # (128 + c div 64 mod 64) # (128 + c mod 64) # utf8 cs)"

definition timingSafeEqual :: "nat list \<Rightarrow> nat list \<Rightarrow> bool option" where
  "timingSafeEqual a b = (if length a \<noteq> length b then None else Some (a = b))"

definition signed_message :: "string \<Rightarrow> int \<Rightarrow> jstr" where
  "signed_message tableCode qrVersion = lit tableCode @ 58 # show_int qrVersion"

definition signTableQr :: "mac \<Rightarrow> string \<Rightarrow> string \<Rightarrow> int \<Rightarrow> string" where
  "signTableQr hmac qrSecret tableCode qrVersion =
     take 24 (hmac qrSecret (signed_message tableCode qrVersion))"

definition verifyTableQr :: "mac \<Rightarrow> string \<Rightarrow> string \<Rightarrow> int \<Rightarrow> jstr \<Rightarrow> bool option" where
  "verifyTableQr hmac qrSecret tableCode qrVersion sig =
     (let expected = utf8 (lit (signTableQr hmac qrSecret tableCode qrVersion));
          actual = utf8 sig
      in if length actual \<noteq> length expected then Some False else timingSafeEqual actual expected)"

definition tableQrUrl :: "mac \<Rightarrow> jstr \<Rightarrow> string \<Rightarrow> string \<Rightarrow> int \<Rightarrow> jstr" where
  "tableQrUrl hmac baseUrl qrSecret tableCode qrVersion =
     baseUrl @ lit ''/scan/'' @ lit tableCode @ lit ''?k='' @
     lit (signTableQr hmac qrSecret tableCode qrVersion)"

subsection \<open>The bytes of an ASCII string come from that string only\<close>

lemma utf8_ascii: "\<forall>c \<in> set s. c < 128 \<Longrightarrow> utf8 s = s"
  by (induction s) auto

lemma utf8_wide: "\<not> c < 128 \<Longrightarrow> utf8 (c # cs) \<noteq> [] \<and> 128 \<le> hd (utf8 (c # cs))"
  by (cases cs) (simp_all add: Let_def)

lemma utf8_eq_ascii: "\<forall>c \<in> set t. c < 128 \<Longrightarrow> utf8 s = t \<Longrightarrow> s = t"
proof (induction s arbitrary: t rule: utf8.induct)
  case 1
  then show ?case by simp
next
  case (2 c cs)
  have "c < 128"
  proof (rule ccontr)
    assume "\<not> c < 128"
    from utf8_wide[OF this, of cs] show False
      using "2.prems" by (metis hd_in_set leD)
  qed
  then obtain ts where t: "t = c # ts" "utf8 cs = ts" using "2.prems"(2) by auto
  moreover have "cs = ts" using "2.IH"(1)[OF \<open>c < 128\<close>] t "2.prems"(1) by simp
  ultimately show ?case by simp
qed

subsection \<open>Decimal numerals determine the number\<close>

definition digits_value :: "jstr \<Rightarrow> nat" where
  "digits_value ds = foldl (\<lambda>a d. a * 10 + (d - 48)) 0 ds"

lemma digits_value_show: "digits_value (show_nat n) = n"
proof (induction n rule: show_nat.induct)
  case (1 n)
  then show ?case
    by (subst show_nat.simps) (auto simp: digits_value_def)
qed

lemma show_nat_digits: "\<forall>d \<in> set (show_nat n). 48 \<le> d \<and> d \<le> 57"
proof (induction n rule: show_nat.induct)
  case (1 n)
  then show ?case by (subst show_nat.simps) auto
qed

lemma show_nat_inj [simp]: "show_nat m = show_nat n \<longleftrightarrow> m = n"
  by (metis digits_value_show)

lemma show_nat_no_minus: "show_nat n \<noteq> 45 # s"
  using show_nat_digits[of n] by auto

lemma show_int_inj [simp]: "show_int m = show_int n \<longleftrightarrow> m = n"
  using show_nat_no_minus
  by (auto simp: show_int_def)
    (metis show_nat_no_minus)+

lemma show_int_no_colon: "58 \<notin> set (show_int n)"
  using show_nat_digits[of "nat n"] show_nat_digits[of "nat (- n)"]
  by (auto simp: show_int_def)

lemma signed_message_inj:
  assumes "signed_message c v = signed_message c' v'"
  shows "c = c' \<and> v = v'"
proof -
  show ?thesis
    using append_sep_inj_last[OF show_int_no_colon show_int_no_colon assms[unfolded signed_message_def]]
    by simp
qed

subsection \<open>Verification\<close>

lemma verify_exact:
  assumes "\<forall>c \<in> set (hmac secret (signed_message code ver)). of_char c < (128::nat)"
  shows "verifyTableQr hmac secret code ver sig = Some (sig = lit (signTableQr hmac secret code ver))"
proof -
  have ascii: "\<forall>c \<in> set (lit (signTableQr hmac secret code ver)). c < 128"
    using assms by (auto simp: lit_def signTableQr_def dest: in_set_takeD)
  have "utf8 sig = lit (signTableQr hmac secret code ver) \<longleftrightarrow> sig = lit (signTableQr hmac secret code ver)"
    using utf8_eq_ascii[OF ascii] utf8_ascii[OF ascii] by auto
  then show ?thesis
    by (auto simp: verifyTableQr_def Let_def timingSafeEqual_def utf8_ascii[OF ascii])
qed

text \<open>
  verifying a signature never throws, whatever bytes \<open>?k=\<close> carries, and accepts exactly the
  signature of the table's current version. The only thing used of the HMAC is that its
  base64url digest is ASCII.
\<close>

theorem verifyTableQr_exact:
  assumes "\<forall>c \<in> set (hmac secret (signed_message code ver)). of_char c < (128::nat)"
  shows "verifyTableQr hmac secret code ver sig = Some (sig = lit (signTableQr hmac secret code ver))"
  using assms by (rule verify_exact)

text \<open>A digest for the witnesses: it spells the message out in hexadecimal digits.\<close>

definition toy_mac :: mac where
  "toy_mac secret m = map (\<lambda>c. char_of (c mod 128)) m"

theorem verifyTableQr_exact_witness:
  "verifyTableQr toy_mac ''s'' ''T1'' 3 (lit ''T1:2'') =
   Some (lit ''T1:2'' = lit (signTableQr toy_mac ''s'' ''T1'' 3))"
  by (rule verifyTableQr_exact) (auto simp: toy_mac_def)

text \<open>
  a printed code opens one table at one version. Two codes whose messages do not collide
  under the MAC verify for each other only if they name the same table and the same version, so
  regenerating a table's code invalidates every earlier print of it and no other table's.
\<close>

theorem signature_binds_version:
  assumes "\<forall>c \<in> set (hmac secret (signed_message code' ver')). of_char c < (128::nat)"
    and no_collision: "signTableQr hmac secret code ver = signTableQr hmac secret code' ver' \<Longrightarrow>
      signed_message code ver = signed_message code' ver'"
  shows "verifyTableQr hmac secret code' ver' (lit (signTableQr hmac secret code ver)) =
    Some (code = code' \<and> ver = ver')"
proof -
  have "signTableQr hmac secret code ver = signTableQr hmac secret code' ver' \<longleftrightarrow> code = code' \<and> ver = ver'"
    using no_collision signed_message_inj by blast
  then show ?thesis
    using verify_exact[where hmac = hmac and secret = secret and code = code' and ver = ver', OF assms(1)]
    by simp
qed

theorem signature_binds_version_witness:
  "verifyTableQr toy_mac ''s'' ''T1'' 4 (lit (signTableQr toy_mac ''s'' ''T1'' 3)) =
   Some (''T1'' = ''T1'' \<and> (3::int) = 4)"
proof (rule signature_binds_version)
  show "\<forall>c \<in> set (toy_mac ''s'' (signed_message ''T1'' 4)). of_char c < (128::nat)"
    by (auto simp: toy_mac_def)
  have "signTableQr toy_mac ''s'' ''T1'' 3 \<noteq> signTableQr toy_mac ''s'' ''T1'' 4"
    by code_simp
  then show "signTableQr toy_mac ''s'' ''T1'' 3 = signTableQr toy_mac ''s'' ''T1'' 4 \<Longrightarrow>
      signed_message ''T1'' 3 = signed_message ''T1'' 4"
    by blast
qed

end
