(* ===== verification/Scan.thy ===== *)
theory Scan
  imports TableSession Qr
begin

section \<open>The scan route\<close>

text \<open>
  \<open>src/app/scan/[code]/route.ts\<close>: what a phone that opens the URL printed in a table's QR code
  gets. Every refusal is the same redirect (\<open>Wall\<close>); a success redirects to the menu and sets
  the session cookie (\<open>Landing\<close>). The query parameter \<open>k\<close> and the headers are the caller's;
  the generated identifiers and the token are arguments.
\<close>

datatype scan_result = Wall | Landing string | Scan_throws

definition FAIL_LIMIT :: int where "FAIL_LIMIT = 20"
definition FAIL_WINDOW_SEC :: int where "FAIL_WINDOW_SEC = 10 * 60"
definition OK_LIMIT :: int where "OK_LIMIT = 300"
definition OK_WINDOW_SEC :: int where "OK_WINDOW_SEC = 10 * 60"
definition GLOBAL_FAIL_LIMIT :: int where "GLOBAL_FAIL_LIMIT = 200"

text \<open>One call of the limiter on the server's windows.\<close>

definition limiter_hit :: "jstr \<Rightarrow> int \<Rightarrow> int \<Rightarrow> server \<Rightarrow> rate_limit_result \<times> server" where
  "limiter_hit key limit windowSec s =
     (let (r, ws) = rateLimit (now s) key limit windowSec (windows s) in (r, s\<lparr>windows := ws\<rparr>))"

definition logFailure :: "request \<Rightarrow> string \<Rightarrow> attempt_extra \<Rightarrow> server \<Rightarrow> server" where
  "logFailure req outcome extra s =
     (let (r, s') = limiter_hit (lit ''scan:fail:all'') GLOBAL_FAIL_LIMIT FAIL_WINDOW_SEC s
      in if rl_allowed r then logAttempt req outcome extra s' else s')"

definition scan_accepted ::
  "request \<Rightarrow> jstr \<Rightarrow> tabl \<Rightarrow> id \<Rightarrow> id \<Rightarrow> string \<Rightarrow> server \<Rightarrow> scan_result \<times> server" where
  "scan_accepted req ip t newVisit sid token s =
     (let s1 = s\<lparr>windows := clearRateLimit (lit ''scan:fail:'' @ ip) (windows s)\<rparr>;
          (r, s2) = limiter_hit (lit ''scan:ok:'' @ ip) OK_LIMIT OK_WINDOW_SEC s1
      in if \<not> rl_allowed r
         then (Wall, logAttempt req ''rate_limited'' (no_extra\<lparr>ax_tableId := Some (tab_id t),
           ax_venueId := Some (tab_venueId t), ax_detail := lit ''scan cap''\<rparr>) s2)
         else (let (tok, s3) = mintSession newVisit sid token (tab_id t) (tab_venueId t) s2
           in (Landing tok, logAttempt req ''scan_ok'' (no_extra\<lparr>ax_tableId := Some (tab_id t),
             ax_venueId := Some (tab_venueId t)\<rparr>) s3)))"

definition scan_checked ::
  "mac \<Rightarrow> request \<Rightarrow> jstr \<Rightarrow> string \<Rightarrow> jstr \<Rightarrow> id \<Rightarrow> id \<Rightarrow> string \<Rightarrow> server \<Rightarrow> scan_result \<times> server" where
  "scan_checked hmac req ip code sig newVisit sid token s =
     (case findFirst (\<lambda>t. tab_code t = code) (tables s) of
        None \<Rightarrow> (Wall, logFailure req ''table_inactive'' (no_extra\<lparr>ax_detail := lit code\<rparr>) s)
      | Some t \<Rightarrow>
          (case findFirst (\<lambda>v. ven_id v = tab_venueId t) (venues s) of
             None \<Rightarrow> (Scan_throws, s)
           | Some v \<Rightarrow>
               if \<not> tab_active t
               then (Wall, logFailure req ''table_inactive'' (no_extra\<lparr>ax_tableId := Some (tab_id t),
                 ax_venueId := Some (tab_venueId t), ax_detail := lit code\<rparr>) s)
               else (case verifyTableQr hmac (ven_qrSecret v) (tab_code t) (tab_qrVersion t) sig of
                  None \<Rightarrow> (Scan_throws, s)
                | Some False \<Rightarrow> (Wall, logFailure req ''invalid_qr'' (no_extra\<lparr>ax_tableId := Some (tab_id t),
                    ax_venueId := Some (tab_venueId t)\<rparr>) s)
                | Some True \<Rightarrow> scan_accepted req ip t newVisit sid token s)))"

definition GET_scan ::
  "mac \<Rightarrow> request \<Rightarrow> string \<Rightarrow> jstr option \<Rightarrow> id \<Rightarrow> id \<Rightarrow> string \<Rightarrow> server \<Rightarrow> scan_result \<times> server" where
  "GET_scan hmac req code k newVisit sid token s =
     (let sig = (case k of None \<Rightarrow> [] | Some x \<Rightarrow> x);
          ip = or_unknown (clientIp (trustProxy s) req);
          (r, s1) = limiter_hit (lit ''scan:fail:'' @ ip) FAIL_LIMIT FAIL_WINDOW_SEC s
      in if \<not> rl_allowed r
         then (let (r2, s2) = limiter_hit (lit ''scan:faillog:'' @ ip) 1 FAIL_WINDOW_SEC s1
           in (Wall, if rl_allowed r2
             then logAttempt req ''rate_limited'' (no_extra\<lparr>ax_detail := lit ''scan flood from '' @ ip\<rparr>) s2
             else s2))
         else scan_checked hmac req ip code sig newVisit sid token s1)"

lemma limiter_hit_state: "snd (limiter_hit k l w s) = s\<lparr>windows := snd (rateLimit (now s) k l w (windows s))\<rparr>"
  by (simp add: limiter_hit_def split: prod.split)

lemma limiter_hit_allowed: "fst (limiter_hit k l w s) = fst (rateLimit (now s) k l w (windows s))"
  by (simp add: limiter_hit_def split: prod.split)

lemma limiter_hit_frame [simp]:
  "venues (snd (limiter_hit k l w s)) = venues s" "tables (snd (limiter_hit k l w s)) = tables s"
  "visits (snd (limiter_hit k l w s)) = visits s" "sessions (snd (limiter_hit k l w s)) = sessions s"
  "orders (snd (limiter_hit k l w s)) = orders s" "now (snd (limiter_hit k l w s)) = now s"
  "orderAttempts (snd (limiter_hit k l w s)) = orderAttempts s"
  "trustProxy (snd (limiter_hit k l w s)) = trustProxy s" "events (snd (limiter_hit k l w s)) = events s"
  by (simp_all add: limiter_hit_state)

lemma logFailure_frame [simp]:
  "visits (logFailure req oc x s) = visits s" "sessions (logFailure req oc x s) = sessions s"
  "orders (logFailure req oc x s) = orders s"
  by (simp_all add: logFailure_def case_prod_unfold Let_def)

text \<open>The two windows a successful scan is charged to, as they stand when it arrives.\<close>

definition scan_budgets :: "request \<Rightarrow> server \<Rightarrow> bool" where
  "scan_budgets req s \<longleftrightarrow>
     (let ip = or_unknown (clientIp (trustProxy s) req);
          (r, s1) = limiter_hit (lit ''scan:fail:'' @ ip) FAIL_LIMIT FAIL_WINDOW_SEC s
      in rl_allowed r \<and>
         rl_allowed (fst (limiter_hit (lit ''scan:ok:'' @ ip) OK_LIMIT OK_WINDOW_SEC
           (s1\<lparr>windows := clearRateLimit (lit ''scan:fail:'' @ ip) (windows s1)\<rparr>))))"

lemma scan_checked_ok:
  assumes "findFirst (\<lambda>t. tab_code t = code) (tables s) = Some t"
    and "findFirst (\<lambda>v. ven_id v = tab_venueId t) (venues s) = Some v"
    and ascii: "\<And>m. \<forall>c \<in> set (hmac (ven_qrSecret v) m). of_char c < (128::nat)"
  shows "scan_checked hmac req ip code sig newVisit sid token s =
    (if tab_active t \<and> sig = lit (signTableQr hmac (ven_qrSecret v) (tab_code t) (tab_qrVersion t))
     then scan_accepted req ip t newVisit sid token s
     else (Wall, logFailure req (if tab_active t then ''invalid_qr'' else ''table_inactive'')
       (no_extra\<lparr>ax_tableId := Some (tab_id t), ax_venueId := Some (tab_venueId t),
          ax_detail := (if tab_active t then [] else lit code)\<rparr>) s))"
  using assms(1,2) verify_exact[where hmac = hmac, OF ascii]
  by (simp add: scan_checked_def no_extra_def)

lemma scan_checked_missing:
  assumes "findFirst (\<lambda>t. tab_code t = code) (tables s) = None \<or>
    (\<exists>t. findFirst (\<lambda>t. tab_code t = code) (tables s) = Some t \<and>
      findFirst (\<lambda>v. ven_id v = tab_venueId t) (venues s) = None)"
  shows "(\<forall>tok. fst (scan_checked hmac req ip code sig newVisit sid token s) \<noteq> Landing tok) \<and>
    sessions (snd (scan_checked hmac req ip code sig newVisit sid token s)) = sessions s \<and>
    visits (snd (scan_checked hmac req ip code sig newVisit sid token s)) = visits s"
  using assms by (auto simp: scan_checked_def)

lemma scan_accepted_cases:
  fixes ip s
  defines "s1 \<equiv> s\<lparr>windows := clearRateLimit (lit ''scan:fail:'' @ ip) (windows s)\<rparr>"
  shows "if rl_allowed (fst (limiter_hit (lit ''scan:ok:'' @ ip) OK_LIMIT OK_WINDOW_SEC s1))
    then fst (scan_accepted req ip t newVisit sid token s) = Landing token
    else fst (scan_accepted req ip t newVisit sid token s) = Wall \<and>
      sessions (snd (scan_accepted req ip t newVisit sid token s)) = sessions s \<and>
      visits (snd (scan_accepted req ip t newVisit sid token s)) = visits s"
  by (simp add: scan_accepted_def Let_def case_prod_unfold mintSession_def flip: s1_def)
    (simp add: s1_def)

definition k_param :: "jstr option \<Rightarrow> jstr" where
  "k_param k = (case k of None \<Rightarrow> [] | Some x \<Rightarrow> x)"

text \<open>The printed code: what \<open>k\<close> must be for the table's current version.\<close>

definition current_code :: "mac \<Rightarrow> string \<Rightarrow> jstr \<Rightarrow> server \<Rightarrow> bool" where
  "current_code hmac code sig s \<longleftrightarrow>
     (\<exists>t v. findFirst (\<lambda>t. tab_code t = code) (tables s) = Some t \<and>
        findFirst (\<lambda>v. ven_id v = tab_venueId t) (venues s) = Some v \<and> tab_active t \<and>
        sig = lit (signTableQr hmac (ven_qrSecret v) (tab_code t) (tab_qrVersion t)))"

lemma scan_checked_iff:
  assumes ascii: "\<And>secret m. \<forall>c \<in> set (hmac secret m). of_char c < (128::nat)"
    and "scan_checked hmac req ip code sig newVisit sid token s = (r, s')"
  shows "(r = Landing token \<longleftrightarrow> current_code hmac code sig s \<and>
      rl_allowed (fst (limiter_hit (lit ''scan:ok:'' @ ip) OK_LIMIT OK_WINDOW_SEC
        (s\<lparr>windows := clearRateLimit (lit ''scan:fail:'' @ ip) (windows s)\<rparr>)))) \<and>
    (r \<noteq> Landing token \<longrightarrow> sessions s' = sessions s \<and> visits s' = visits s)"
proof (cases "\<exists>t v. findFirst (\<lambda>t. tab_code t = code) (tables s) = Some t \<and>
    findFirst (\<lambda>v. ven_id v = tab_venueId t) (venues s) = Some v")
  case True
  then obtain t v where tv: "findFirst (\<lambda>t. tab_code t = code) (tables s) = Some t"
    "findFirst (\<lambda>v. ven_id v = tab_venueId t) (venues s) = Some v" by blast
  have cur: "current_code hmac code sig s \<longleftrightarrow> tab_active t \<and>
      sig = lit (signTableQr hmac (ven_qrSecret v) (tab_code t) (tab_qrVersion t))"
    by (simp add: current_code_def tv)
  show ?thesis
    using assms(2) scan_accepted_cases[of ip s req t newVisit sid token]
    unfolding scan_checked_ok[OF tv ascii] cur by (auto split: if_splits)
next
  case False
  then have none: "\<not> current_code hmac code sig s" by (auto simp: current_code_def)
  have "findFirst (\<lambda>t. tab_code t = code) (tables s) = None \<or>
    (\<exists>t. findFirst (\<lambda>t. tab_code t = code) (tables s) = Some t \<and>
      findFirst (\<lambda>v. ven_id v = tab_venueId t) (venues s) = None)"
    using False by (metis not_None_eq)
  from scan_checked_missing[OF this, of hmac req ip sig newVisit sid token] assms(2) none
  show ?thesis by simp
qed

lemma scan_outcome:
  assumes ascii: "\<And>secret m. \<forall>c \<in> set (hmac secret m). of_char c < (128::nat)"
    and scan: "GET_scan hmac req code k newVisit sid token s = (r, s')"
  shows "(r = Landing token \<longleftrightarrow> scan_budgets req s \<and> current_code hmac code (k_param k) s) \<and>
    (r \<noteq> Landing token \<longrightarrow> sessions s' = sessions s \<and> visits s' = visits s)"
proof -
  define ip where "ip = or_unknown (clientIp (trustProxy s) req)"
  obtain r1 s1 where hit: "limiter_hit (lit ''scan:fail:'' @ ip) FAIL_LIMIT FAIL_WINDOW_SEC s = (r1, s1)"
    by (cases "limiter_hit (lit ''scan:fail:'' @ ip) FAIL_LIMIT FAIL_WINDOW_SEC s")
  have s1: "tables s1 = tables s" "venues s1 = venues s" "sessions s1 = sessions s" "visits s1 = visits s"
    using limiter_hit_frame[of "lit ''scan:fail:'' @ ip" FAIL_LIMIT FAIL_WINDOW_SEC s] hit by simp_all
  have cur: "current_code hmac code sig s1 = current_code hmac code sig s" for sig
    by (simp add: current_code_def s1)
  show ?thesis
  proof (cases "rl_allowed r1")
    case True
    have checked: "scan_checked hmac req ip code (k_param k) newVisit sid token s1 = (r, s')"
      using scan True by (simp add: GET_scan_def Let_def hit k_param_def flip: ip_def)
    show ?thesis
      using scan_checked_iff[OF ascii checked] True
      by (auto simp: scan_budgets_def Let_def hit cur s1 simp flip: ip_def)
  next
    case False
    have "sessions s' = sessions s \<and> visits s' = visits s \<and> r = Wall"
      using scan False
      by (auto simp: GET_scan_def Let_def hit case_prod_unfold s1 simp flip: ip_def split: if_splits)
    then show ?thesis
      using False by (simp add: scan_budgets_def Let_def hit flip: ip_def)
  qed
qed


lemma toy_mac_ascii: "\<forall>c \<in> set (toy_mac secret m). of_char c < (128::nat)"
  by (auto simp: toy_mac_def)


subsection \<open>The refund and the venue-wide cap\<close>

lemma map_of_clear: "map_of (clearRateLimit key ws) (lit ''rl:'' @ key) = None"
  by (simp add: clearRateLimit_def delete_conv)

lemma mint_windows [simp]: "windows (snd (mintSession w sid token tab ven s)) = windows s"
  by (simp add: mintSession_def mint_create_def displace_def Let_def case_prod_unfold)

lemma rateLimit_keeps_absent:
  assumes "map_of ws k = None" "k \<noteq> lit ''rl:'' @ key"
  shows "map_of (snd (rateLimit t key limit win ws)) k = None"
proof -
  have "map_of (evictExpired t ws) k = None"
    using assms(1) by (auto simp: evictExpired_def map_of_eq_None_iff)
  then show ?thesis using rateLimit_other_key_cases[OF assms(2), of t limit win ws] assms(1) by auto
qed

lemma scan_checked_Landing:
  assumes "scan_checked hmac req ip code sig newVisit sid token s = (Landing tok, s')"
  shows "\<exists>t. scan_accepted req ip t newVisit sid token s = (Landing tok, s')"
  using assms unfolding scan_checked_def by (simp split: option.splits if_splits bool.splits) blast

lemma GET_scan_Landing:
  assumes "GET_scan hmac req code k newVisit sid token s = (Landing tok, s')"
  shows "\<exists>s1. scan_checked hmac req (or_unknown (clientIp (trustProxy s) req)) code (k_param k) newVisit sid token s1 =
    (Landing tok, s')"
  using assms unfolding GET_scan_def Let_def case_prod_unfold
  by (simp add: k_param_def split: if_splits) blast

text \<open>
  the venue-wide cap on failures can be refunded. The cap's window is stored under the key
  of the address \<open>all\<close>. Without a trusted proxy the address is the caller's to choose, and a
  successful scan from the address \<open>all\<close> drops the venue-wide count, so the next failure is
  written to the ledger whatever was counted before.
\<close>

theorem scan_refund_resets_global_cap:
  assumes "trustProxy s = False" and "rq_forwardedFor req = Some (lit ''all'')"
    and "GET_scan hmac req code k newVisit sid token s = (Landing tok, s')"
  shows "map_of (windows s') (lit ''rl:scan:fail:all'') = None \<and>
    length (orderAttempts (logFailure req' oc x s')) = Suc (length (orderAttempts s'))"
proof -
  have ip: "or_unknown (clientIp (trustProxy s) req) = lit ''all''"
  proof -
    have "map trim (split_on 44 (lit ''all'')) = [lit ''all'']" "lit ''all'' \<noteq> []"
      by (simp_all add: lit_def trim_def is_ws_def)
    then show ?thesis using assms(1,2) by (simp add: clientIp_def or_unknown_def)
  qed
  obtain s1 where "scan_checked hmac req (lit ''all'') code (k_param k) newVisit sid token s1 = (Landing tok, s')"
    using GET_scan_Landing[OF assms(3)] unfolding ip by blast
  then obtain t where acc: "scan_accepted req (lit ''all'') t newVisit sid token s1 = (Landing tok, s')"
    using scan_checked_Landing by blast
  let ?s2 = "s1\<lparr>windows := clearRateLimit (lit ''scan:fail:'' @ lit ''all'') (windows s1)\<rparr>"
  have "windows s' = windows (snd (limiter_hit (lit ''scan:ok:'' @ lit ''all'') OK_LIMIT OK_WINDOW_SEC ?s2))"
    using acc by (auto simp: scan_accepted_def Let_def case_prod_unfold split: if_splits)
  moreover have "map_of (clearRateLimit (lit ''scan:fail:'' @ lit ''all'') (windows s1)) (lit ''rl:scan:fail:all'') = None"
    using map_of_clear[of "lit ''scan:fail:'' @ lit ''all''" "windows s1"]
    by (simp flip: lit_append)
  moreover have "lit ''rl:scan:fail:all'' \<noteq> lit ''rl:'' @ lit ''scan:ok:'' @ lit ''all''"
    by (simp flip: lit_append)
  ultimately have none: "map_of (windows s') (lit ''rl:scan:fail:all'') = None"
    by (simp add: limiter_hit_state rateLimit_keeps_absent)
  then have "rl_allowed (fst (rateLimit (now s') (lit ''scan:fail:all'') GLOBAL_FAIL_LIMIT FAIL_WINDOW_SEC (windows s')))"
    by (intro rateLimit_first) (simp_all flip: lit_append)
  then show ?thesis
    using none by (simp add: logFailure_def Let_def case_prod_unfold limiter_hit_allowed)
qed

definition all_request :: request where
  "all_request = bare_request\<lparr>rq_forwardedFor := Some (lit ''all'')\<rparr>"

definition flooded :: server where
  "flooded = sample\<lparr>windows := [(lit ''rl:scan:fail:all'', \<lparr>w_count = 15, w_resetAt = 200000\<rparr>)]\<rparr>"

lemma all_ip: "or_unknown (clientIp False all_request) = lit ''all''"
  by (simp add: clientIp_def or_unknown_def all_request_def lit_def trim_def is_ws_def)

theorem scan_refund_resets_global_cap_witness:
  "\<exists>s'. GET_scan toy_mac all_request ''T1'' (Some (lit (signTableQr toy_mac ''sec'' ''T1'' 1))) ''w2'' ''s3'' ''tok3'' flooded =
     (Landing ''tok3'', s') \<and> map_of (windows s') (lit ''rl:scan:fail:all'') = None"
proof -
  let ?k = "Some (lit (signTableQr toy_mac ''sec'' ''T1'' 1))"
  obtain r s' where r: "GET_scan toy_mac all_request ''T1'' ?k ''w2'' ''s3'' ''tok3'' flooded = (r, s')"
    by (cases "GET_scan toy_mac all_request ''T1'' ?k ''w2'' ''s3'' ''tok3'' flooded")
  have "current_code toy_mac ''T1'' (k_param ?k) flooded"
    by (simp add: current_code_def flooded_def sample_defs k_param_def)
  moreover have "scan_budgets all_request flooded"
    by (simp add: scan_budgets_def Let_def limiter_hit_def rateLimit_def flooded_def sample_fields MAX_KEYS_def
        FAIL_LIMIT_def OK_LIMIT_def clearRateLimit_def map_of_map_set delete_conv all_ip case_prod_unfold
        flip: lit_append)
  ultimately have ok: "r = Landing ''tok3''"
    using scan_outcome[OF toy_mac_ascii r] by simp
  have "trustProxy flooded = False" "rq_forwardedFor all_request = Some (lit ''all'')"
    by (simp_all add: flooded_def sample_defs all_request_def)
  then show ?thesis
    using scan_refund_resets_global_cap[of flooded all_request toy_mac "''T1''" ?k] r ok by blast
qed

end
