(* ===== verification/VisitRace.thy ===== *)
theory VisitRace
  imports TableSession
begin

section \<open>Phones racing to open a table\<close>

text \<open>
  \<open>openOrJoinVisit\<close> of \<open>src/lib/visit.ts\<close> as the three statements it issues, interleaved. The
  state is the server, the number of scans of the table that have seen no open visit, and the
  visits created by scans that have not re-read yet. Tills may settle visits, and time passes,
  between any two statements.
\<close>

record race =
  rc_server :: server
  rc_saw_none :: nat
  rc_pending :: "id list"
  rc_joined :: "id list"

definition open_visits :: "id \<Rightarrow> server \<Rightarrow> visit list" where
  "open_visits tab s = filter (open_at tab) (visits s)"

inductive race_step :: "id \<Rightarrow> id \<Rightarrow> race \<Rightarrow> race \<Rightarrow> bool" for tab ven where
  race_join: "find_open_visit tab (rc_server r) = Some v \<Longrightarrow>
    race_step tab ven r (r\<lparr>rc_joined := v # rc_joined r\<rparr>)"
| race_none: "find_open_visit tab (rc_server r) = None \<Longrightarrow>
    race_step tab ven r (r\<lparr>rc_saw_none := Suc (rc_saw_none r)\<rparr>)"
| race_create: "rc_saw_none r = Suc n \<Longrightarrow> vid \<notin> tv_id ` set (visits (rc_server r)) \<Longrightarrow>
    race_step tab ven r (r\<lparr>rc_server := create_visit vid tab ven (rc_server r), rc_saw_none := n,
      rc_pending := vid # rc_pending r\<rparr>)"
| race_recheck: "vid \<in> set (rc_pending r) \<Longrightarrow> recheck_visit tab vid (rc_server r) = (v, s') \<Longrightarrow>
    race_step tab ven r (r\<lparr>rc_server := s', rc_pending := removeAll vid (rc_pending r),
      rc_joined := v # rc_joined r\<rparr>)"
| race_settle: "settleVisit vid ven' input (rc_server r) = (res, s') \<Longrightarrow>
    race_step tab ven r (r\<lparr>rc_server := s'\<rparr>)"
| race_tick: "now (rc_server r) \<le> t \<Longrightarrow>
    race_step tab ven r (r\<lparr>rc_server := (rc_server r)\<lparr>now := t\<rparr>\<rparr>)"

inductive_cases race_stepE: "race_step tab ven r r'"

definition race_start :: "id \<Rightarrow> race \<Rightarrow> bool" where
  "race_start tab r \<longleftrightarrow> rc_pending r = [] \<and> rc_saw_none r = 0 \<and>
     length (open_visits tab (rc_server r)) \<le> 1 \<and>
     distinct (map tv_id (visits (rc_server r))) \<and>
     sorted (map tv_openedAt (visits (rc_server r))) \<and>
     (\<forall>v \<in> set (visits (rc_server r)). tv_openedAt v \<le> now (rc_server r))"

text \<open>Every open visit of the table but the oldest has a creator that will still re-read.\<close>

definition race_inv :: "id \<Rightarrow> race \<Rightarrow> bool" where
  "race_inv tab r \<longleftrightarrow>
     distinct (map tv_id (visits (rc_server r))) \<and>
     sorted (map tv_openedAt (visits (rc_server r))) \<and>
     (\<forall>v \<in> set (visits (rc_server r)). tv_openedAt v \<le> now (rc_server r)) \<and>
     tv_id ` set (tl (open_visits tab (rc_server r))) \<subseteq> set (rc_pending r)"

lemma set_tl_subset: "set (tl zs) \<subseteq> set zs"
  by (cases zs) auto

lemma set_tl_filter: "set (tl (filter P xs)) \<subseteq> set (tl xs)"
proof (cases xs)
  case (Cons x ys)
  then show ?thesis
    using set_tl_subset[of "filter P ys"] by (cases "P x") auto
qed simp

lemma sorted_map_filter: "sorted (map f xs) \<Longrightarrow> sorted (map f (filter P xs))"
  by (induction xs) auto

lemma orderBy_sorted: "sorted (map f xs) \<Longrightarrow> orderBy f xs = xs"
  unfolding orderBy_def by (induction xs) (auto simp: insort_is_Cons)

lemma recheck_outcome:
  assumes "distinct (map tv_id (visits s))" "sorted (map tv_openedAt (visits s))"
    and "recheck_visit tab vid s = (v, s')"
  shows "s' = s \<and> vid \<notin> tv_id ` set (tl (open_visits tab s)) \<or>
    visits s' = filter (\<lambda>v. tv_id v \<noteq> vid) (visits s) \<and> now s' = now s \<and> open_visits tab s \<noteq> [] \<and> v = tv_id (hd (open_visits tab s))"
proof -
  have sort: "orderBy tv_openedAt (filter (open_at tab) (visits s)) = open_visits tab s"
    unfolding open_visits_def by (rule orderBy_sorted[OF sorted_map_filter[OF assms(2)]])
  have dist: "distinct (map tv_id (open_visits tab s))"
    unfolding open_visits_def by (rule distinct_map_filter[OF assms(1)])
  show ?thesis
    using assms(3) dist unfolding recheck_visit_def sort
    by (auto simp: delete_visit_def deleteMany_def split: list.splits if_splits)
qed

lemma settle_open_visits:
  assumes "settleVisit vid ven input s = (res, s')"
  shows "map tv_id (visits s') = map tv_id (visits s) \<and> map tv_openedAt (visits s') = map tv_openedAt (visits s) \<and>
    now s' = now s \<and> (open_visits tab s' = open_visits tab s \<or>
      open_visits tab s' = filter (\<lambda>v. \<not> closing vid v) (open_visits tab s))"
proof (cases "\<exists>k. res = Done k")
  case True
  then obtain k where "settleVisit vid ven input s = (Done k, s')" using assms by auto
  note st = settle_Done_state[OF this]
  have "open_visits tab s' = filter (\<lambda>v. open_at tab v \<and> \<not> closing vid v) (visits s)"
    unfolding open_visits_def st(1)
    by (rule filter_updateMany_drop) (simp add: open_at_def visit_open_def)
  also have "\<dots> = filter (\<lambda>v. \<not> closing vid v) (open_visits tab s)"
    unfolding open_visits_def filter_filter by simp
  finally have "open_visits tab s' = filter (\<lambda>v. \<not> closing vid v) (open_visits tab s)" .
  moreover have "map tv_id (visits s') = map tv_id (visits s)"
    "map tv_openedAt (visits s') = map tv_openedAt (visits s)"
    unfolding st(1) by (rule map_updateMany, simp add: close_settled_def)+
  ultimately show ?thesis using st(4) by simp
next
  case False
  then show ?thesis using settle_not_Done[OF assms] by auto
qed

lemma race_inv_keep:
  assumes "race_inv tab r"
    and "map tv_id (visits s') = map tv_id (visits (rc_server r))"
    and "map tv_openedAt (visits s') = map tv_openedAt (visits (rc_server r))"
    and "now (rc_server r) \<le> now s'"
    and "tv_id ` set (tl (open_visits tab s')) \<subseteq> tv_id ` set (tl (open_visits tab (rc_server r)))"
  shows "race_inv tab (r\<lparr>rc_server := s'\<rparr>)"
proof -
  have "tv_openedAt ` set (visits s') = tv_openedAt ` set (visits (rc_server r))"
    using arg_cong[OF assms(3), of set] by simp
  then have "\<forall>v \<in> set (visits s'). tv_openedAt v \<le> now s'"
    using assms(1,4) unfolding race_inv_def by (metis (no_types, lifting) image_iff order_trans)
  moreover have "tv_id ` set (tl (open_visits tab s')) \<subseteq> set (rc_pending r)"
    using assms(1,5) unfolding race_inv_def by blast
  ultimately show ?thesis using assms(1,2,3) by (simp add: race_inv_def)
qed

lemma open_visits_create:
  "open_visits tab (create_visit vid tab ven s) = open_visits tab s @ [new_visit vid tab ven (now s)]"
  by (simp add: open_visits_def create_visit_def new_visit_def open_at_def visit_open_def)

lemma race_inv_step: "race_step tab ven r r' \<Longrightarrow> race_inv tab r \<Longrightarrow> race_inv tab r'"
proof (induction rule: race_step.induct)
  case (race_join r v)
  then show ?case by (simp add: race_inv_def)
next
  case (race_none r)
  then show ?case by (simp add: race_inv_def)
next
  case (race_create r n vid)
  have "tv_id ` set (tl (open_visits tab (rc_server r) @ [new_visit vid tab ven (now (rc_server r))])) \<subseteq>
      set (vid # rc_pending r)"
    using race_create.prems
    by (cases "open_visits tab (rc_server r)") (auto simp: race_inv_def new_visit_def)
  then show ?case
    using race_create.hyps race_create.prems
    by (simp add: race_inv_def open_visits_create)
      (auto simp: create_visit_def new_visit_def sorted_append)
next
  case (race_recheck vid r v s')
  let ?s = "rc_server r"
  have inv: "distinct (map tv_id (visits ?s))" "sorted (map tv_openedAt (visits ?s))"
    "\<forall>v \<in> set (visits ?s). tv_openedAt v \<le> now ?s"
    "tv_id ` set (tl (open_visits tab ?s)) \<subseteq> set (rc_pending r)"
    using race_recheck.prems by (simp_all add: race_inv_def)
  from recheck_outcome[OF inv(1,2) race_recheck.hyps(2)] show ?case
  proof (elim disjE conjE)
    assume "s' = ?s" "vid \<notin> tv_id ` set (tl (open_visits tab ?s))"
    then show ?case using inv by (auto simp: race_inv_def)
  next
    assume s': "visits s' = filter (\<lambda>v. tv_id v \<noteq> vid) (visits ?s)" "now s' = now ?s"
    have "open_visits tab s' = filter (\<lambda>v. tv_id v \<noteq> vid) (open_visits tab ?s)"
      by (simp add: open_visits_def s'(1) conj_commute)
    then have "tv_id ` set (tl (open_visits tab s')) \<subseteq> set (removeAll vid (rc_pending r))"
      using inv(4) set_tl_filter[of "\<lambda>v. tv_id v \<noteq> vid" "open_visits tab ?s"]
        set_tl_subset[of "filter (\<lambda>v. tv_id v \<noteq> vid) (open_visits tab ?s)"] by fastforce
    then show ?case
      using inv by (simp add: race_inv_def s' distinct_map_filter sorted_map_filter)
  qed
next
  case (race_settle vid ven' input r res s')
  note st = settle_open_visits[OF race_settle.hyps, of tab]
  show ?case
  proof (rule race_inv_keep[OF race_settle.prems])
    show "tv_id ` set (tl (open_visits tab s')) \<subseteq> tv_id ` set (tl (open_visits tab (rc_server r)))"
      using st set_tl_filter[of "\<lambda>v. \<not> closing vid v" "open_visits tab (rc_server r)"]
      by (metis image_mono order_refl)
  qed (use st in simp_all)
next
  case (race_tick r t)
  then show ?case
    by (intro race_inv_keep) (simp_all add: open_visits_def)
qed

interpretation table_race: machine_invariant "race_start tab" "race_step tab ven" "race_inv tab"
  for tab ven
proof
  fix r assume "race_start tab r"
  then show "race_inv tab r"
    by (cases "open_visits tab (rc_server r)") (auto simp: race_start_def race_inv_def)
next
  fix r r' assume "race_step tab ven r r'" "race_inv tab r"
  then show "race_inv tab r'" by (rule race_inv_step)
qed


text \<open>Two phones that both saw an idle table, and both re-read.\<close>

definition race_server :: "visit list \<Rightarrow> race" where
  "race_server vs = \<lparr>rc_server = empty_server\<lparr>visits := vs\<rparr>, rc_saw_none = 0, rc_pending = [], rc_joined = []\<rparr>"

definition race_both :: race where
  "race_both = (race_server [new_visit ''a'' ''t'' ''v'' 0])\<lparr>rc_joined := [''a'', ''a'']\<rparr>"

lemma race_step_to: "race_step tab ven r x \<Longrightarrow> y = x \<Longrightarrow> race_step tab ven r y"
  by simp

lemma race_both_reachable: "reachable (race_start ''t'') (race_step ''t'' ''v'') race_both"
proof -
  let ?R = "reachable (race_start ''t'') (race_step ''t'' ''v'')"
  let ?a = "new_visit ''a'' ''t'' ''v'' 0" and ?b = "new_visit ''b'' ''t'' ''v'' 0"
  note step = race_server_def empty_server_def find_open_visit_def orderByDesc_def orderBy_def
    create_visit_def recheck_visit_def delete_visit_def deleteMany_def new_visit_def open_at_def visit_open_def
  have h0: "?R (race_server [])"
    by (rule reach_init) (simp add: race_start_def race_server_def open_visits_def empty_server_def)
  have h1: "?R ((race_server [])\<lparr>rc_saw_none := Suc 0\<rparr>)"
    by (rule reach_step[OF h0], rule race_step_to, rule race_none) (simp_all add: step)
  have h2: "?R ((race_server [])\<lparr>rc_saw_none := Suc (Suc 0)\<rparr>)"
    by (rule reach_step[OF h1], rule race_step_to, rule race_none) (simp_all add: step)
  have h3: "?R ((race_server [?a])\<lparr>rc_saw_none := Suc 0, rc_pending := [''a'']\<rparr>)"
    by (rule reach_step[OF h2], rule race_step_to, rule race_create[where vid = "''a''" and n = "Suc 0"]) (simp_all add: step)
  have h4: "?R ((race_server [?a, ?b])\<lparr>rc_pending := [''b'', ''a'']\<rparr>)"
    by (rule reach_step[OF h3], rule race_step_to, rule race_create[where vid = "''b''" and n = 0]) (simp_all add: step)
  have h5: "?R ((race_server [?a])\<lparr>rc_pending := [''a''], rc_joined := [''a'']\<rparr>)"
    by (rule reach_step[OF h4], rule race_step_to, rule race_recheck[where vid = "''b''" and v = "''a''"]) (simp_all add: step)
  show ?thesis
    by (rule reach_step[OF h5], rule race_step_to, rule race_recheck[where vid = "''a''" and v = "''a''"])
      (simp_all add: step race_both_def)
qed


subsection \<open>The phone in between\<close>

text \<open>
  a third phone can be left without a visit. A phone that scans between the second creation
  and the second re-read joins the newest open visit, the one about to be discarded; discarding
  it detaches that phone's session, so what it orders belongs to no visit and is on no bill.
\<close>

theorem joiner_left_without_visit:
  assumes "open_visits tab s = [older, newer]" and "tv_openedAt older < tv_openedAt newer"
    and "tv_id older \<noteq> tv_id newer"
    and "mint_create w sid tok tab ven s = s1" and "recheck_visit tab (tv_id newer) s1 = (kept, s2)"
  shows "find_open_visit tab s = Some (tv_id newer) \<and> kept = tv_id older \<and>
    ts_visitId (last (sessions s1)) = Some (tv_id newer) \<and> ts_visitId (last (sessions s2)) = None \<and>
    tv_id newer \<notin> tv_id ` set (visits s2)"
proof -
  have found: "find_open_visit tab s = Some (tv_id newer)"
    using assms(1,2) by (simp add: find_open_visit_def open_visits_def orderByDesc_def)
  then have s1: "s1 = s\<lparr>sessions := sessions s @ [new_session sid tab ven tok (tv_id newer) (now s)]\<rparr>"
    using assms(4) by (simp add: mint_create_def openOrJoinVisit_def)
  have "filter (open_at tab) (visits s) = [older, newer]" using assms(1) by (simp add: open_visits_def)
  then have "s2 = delete_visit (tv_id newer) s1 \<and> kept = tv_id older"
    using assms(2,3,5) by (auto simp: recheck_visit_def s1 orderBy_def)
  then show ?thesis
    using found by (auto simp: s1 delete_visit_def new_session_def updateMany_def)
qed

definition two_open :: server where
  "two_open = empty_server\<lparr>visits := [new_visit ''a'' ''t'' ''v'' 0, new_visit ''b'' ''t'' ''v'' 1], now := 1\<rparr>"

theorem joiner_left_without_visit_witness:
  "find_open_visit ''t'' two_open = Some ''b'' \<and>
   ts_visitId (last (sessions (snd (recheck_visit ''t'' ''b'' (mint_create ''w'' ''s'' ''k'' ''t'' ''v'' two_open))))) = None"
proof -
  let ?s1 = "mint_create ''w'' ''s'' ''k'' ''t'' ''v'' two_open"
  let ?a = "new_visit ''a'' ''t'' ''v'' 0" and ?b = "new_visit ''b'' ''t'' ''v'' 1"
  have "open_visits ''t'' two_open = [?a, ?b]"
    by (simp add: two_open_def open_visits_def new_visit_def open_at_def visit_open_def)
  from joiner_left_without_visit[OF this, of "''w''" "''s''" "''k''" "''v''" ?s1 "fst (recheck_visit ''t'' ''b'' ?s1)"
      "snd (recheck_visit ''t'' ''b'' ?s1)"]
  show ?thesis by (simp add: new_visit_def)
qed

end
