(* ===== verification/Staff.thy ===== *)
theory Staff
  imports Sample RateLimit
begin

section \<open>Staff accounts and their sessions\<close>

text \<open>
  \<open>src/lib/staffAuth.ts\<close>, \<open>src/lib/staffAdmin.ts\<close> and the routes under
  \<open>src/app/api/auth\<close> and \<open>src/app/api/admin/staff\<close>. What the code takes from libraries is a
  record of parameters: the JWT verification and signature of \<open>jose\<close> (with the instant they
  run at), \<open>bcrypt\<close>, \<open>toLowerCase\<close>, the e-mail check of \<open>zod\<close>, the hashed limiter key and the SHA-256 of a bridge key. A
  handler gets the value of the \<open>staff_session\<close> cookie as an argument.
\<close>

record staff_claims =
  sc_sub :: id
  sc_venueId :: id
  sc_role :: role
  sc_name :: jstr
  sc_ver :: "int option"

record platform =
  pf_jwtVerify :: "time \<Rightarrow> string \<Rightarrow> staff_claims option"
  pf_jwtSign :: "time \<Rightarrow> staff_claims \<Rightarrow> string"
  pf_bcryptHash :: "jstr \<Rightarrow> string"
  pf_bcryptCompare :: "jstr \<Rightarrow> string \<Rightarrow> bool"
  pf_lower :: "jstr \<Rightarrow> jstr"
  pf_isEmail :: "jstr \<Rightarrow> bool"
  pf_sha24 :: "jstr \<Rightarrow> jstr"
  pf_sha256hex :: "string \<Rightarrow> string"

definition ACCOUNT_CACHE_MS :: int where "ACCOUNT_CACHE_MS = 30000"

subsection \<open>Tokens and the account cache\<close>

definition createStaffToken :: "platform \<Rightarrow> staff_claims \<Rightarrow> server \<Rightarrow> string" where
  "createStaffToken pf claims s = pf_jwtSign pf (now s) claims"

definition invalidateStaffCache :: "id \<Rightarrow> server \<Rightarrow> server" where
  "invalidateStaffCache staffId s = s\<lparr>accountCache := AList.delete staffId (accountCache s)\<rparr>"

definition state_of_user :: "time \<Rightarrow> staff_user \<Rightarrow> account_state" where
  "state_of_user t u = \<lparr>ac_checkedAt = t, ac_active = su_active u, ac_tokenVersion = su_tokenVersion u,
     ac_role = su_role u, ac_name = su_name u\<rparr>"

definition accountState :: "id \<Rightarrow> server \<Rightarrow> account_state option \<times> server" where
  "accountState staffId s =
     (let reread = (case findFirst (\<lambda>u. su_id u = staffId) (staffUsers s) of
            None \<Rightarrow> (None, s\<lparr>accountCache := AList.delete staffId (accountCache s)\<rparr>)
          | Some u \<Rightarrow> (Some (state_of_user (now s) u),
              s\<lparr>accountCache := AList.update staffId (state_of_user (now s) u) (accountCache s)\<rparr>))
      in case map_of (accountCache s) staffId of
           Some cached \<Rightarrow> if now s - ac_checkedAt cached < ACCOUNT_CACHE_MS then (Some cached, s) else reread
         | None \<Rightarrow> reread)"

definition token_version :: "staff_claims \<Rightarrow> int" where
  "token_version c = (case sc_ver c of None \<Rightarrow> -1 | Some v \<Rightarrow> v)"

definition getStaff :: "platform \<Rightarrow> string option \<Rightarrow> server \<Rightarrow> staff_claims option \<times> server" where
  "getStaff pf cookie s =
     (case cookie of
        None \<Rightarrow> (None, s)
      | Some token \<Rightarrow>
          if token = [] then (None, s) else
          (case pf_jwtVerify pf (now s) token of
             None \<Rightarrow> (None, s)
           | Some claims \<Rightarrow>
               if sc_sub claims = [] then (None, s)
               else (case accountState (sc_sub claims) s of
                   (None, s1) \<Rightarrow> (None, s1)
                 | (Some account, s1) \<Rightarrow>
                     if \<not> ac_active account then (None, s1)
                     else if token_version claims \<noteq> ac_tokenVersion account then (None, s1)
                     else (Some \<lparr>sc_sub = sc_sub claims, sc_venueId = sc_venueId claims,
                       sc_role = ac_role account, sc_name = ac_name account,
                       sc_ver = Some (ac_tokenVersion account)\<rparr>, s1))))"

definition requireStaff :: "platform \<Rightarrow> role \<Rightarrow> string option \<Rightarrow> server \<Rightarrow> staff_claims option \<times> server" where
  "requireStaff pf r cookie s =
     (case getStaff pf cookie s of
        (None, s1) \<Rightarrow> (None, s1)
      | (Some staff, s1) \<Rightarrow> if r = Admin \<and> sc_role staff \<noteq> Admin then (None, s1) else (Some staff, s1))"

definition loginStaff :: "platform \<Rightarrow> jstr \<Rightarrow> jstr \<Rightarrow> server \<Rightarrow> (string \<times> role) option" where
  "loginStaff pf email password s =
     (case findFirst (\<lambda>u. su_email u = email) (staffUsers s) of
        None \<Rightarrow> None
      | Some u \<Rightarrow>
          if \<not> pf_bcryptCompare pf password (su_passwordHash u) \<or> \<not> su_active u then None
          else Some (createStaffToken pf \<lparr>sc_sub = su_id u, sc_venueId = su_venueId u, sc_role = su_role u,
            sc_name = su_name u, sc_ver = Some (su_tokenVersion u)\<rparr> s, su_role u))"

subsection \<open>Account management\<close>

datatype staff_error = Email_taken | Staff_not_found | Last_admin | Cannot_deactivate_self
  | Cannot_demote_self | Nothing_to_do | Wrong_password

definition PASSWORD_MIN :: nat where "PASSWORD_MIN = 8"

record staff_create =
  sn_email :: jstr
  sn_name :: jstr
  sn_role :: role
  sn_password :: jstr

definition valid_staff_create :: "platform \<Rightarrow> staff_create \<Rightarrow> bool" where
  "valid_staff_create pf i \<longleftrightarrow> pf_isEmail pf (sn_email i) \<and> 1 \<le> length (sn_name i) \<and>
     length (sn_name i) \<le> 80 \<and> PASSWORD_MIN \<le> length (sn_password i)"

record staff_update =
  up_name :: "jstr option"
  up_role :: "role option"
  up_active :: "bool option"
  up_password :: "jstr option"
  up_signOutEverywhere :: "bool option"

definition valid_staff_update :: "staff_update \<Rightarrow> bool" where
  "valid_staff_update i \<longleftrightarrow>
     (case up_name i of None \<Rightarrow> True | Some n \<Rightarrow> 1 \<le> length n \<and> length n \<le> 80) \<and>
     (case up_password i of None \<Rightarrow> True | Some p \<Rightarrow> PASSWORD_MIN \<le> length p)"

definition otherActiveAdmins :: "id \<Rightarrow> id \<Rightarrow> server \<Rightarrow> nat" where
  "otherActiveAdmins venueId exceptId s =
     countWhere (\<lambda>u. su_venueId u = venueId \<and> su_role u = Admin \<and> su_active u \<and> su_id u \<noteq> exceptId)
       (staffUsers s)"

definition createStaff ::
  "platform \<Rightarrow> id \<Rightarrow> id \<Rightarrow> staff_create \<Rightarrow> server \<Rightarrow> (staff_error, id) outcome \<times> server" where
  "createStaff pf newId venueId i s =
     (let email = trim (pf_lower pf (sn_email i)) in
      if list_ex (\<lambda>u. su_email u = email) (staffUsers s) then (Refused Email_taken, s)
      else (Done newId, s\<lparr>staffUsers := staffUsers s @ [\<lparr>su_id = newId, su_venueId = venueId,
        su_email = email, su_name = trim (sn_name i),
        su_passwordHash = pf_bcryptHash pf (sn_password i), su_role = sn_role i, su_active = True,
        su_tokenVersion = 0, su_createdAt = now s\<rparr>]\<rparr>))"

text \<open>The checks of an update, and its write, which another update can precede.\<close>

definition updateStaff_read ::
  "id \<Rightarrow> id \<Rightarrow> id \<Rightarrow> staff_update \<Rightarrow> server \<Rightarrow> (staff_error, unit) outcome" where
  "updateStaff_read venueId targetId actorId i s =
     (case findFirst (\<lambda>u. su_id u = targetId \<and> su_venueId u = venueId) (staffUsers s) of
        None \<Rightarrow> Refused Staff_not_found
      | Some target \<Rightarrow>
          if targetId = actorId \<and> up_active i = Some False then Refused Cannot_deactivate_self
          else if targetId = actorId \<and> up_role i = Some Desk then Refused Cannot_demote_self
          else (let losesAdmin = su_role target = Admin \<and> su_active target \<and>
                  (up_active i = Some False \<or> up_role i = Some Desk) in
            if losesAdmin \<and> otherActiveAdmins venueId targetId s = 0 then Refused Last_admin
            else Done ()))"

definition mustRevoke :: "staff_update \<Rightarrow> bool" where
  "mustRevoke i \<longleftrightarrow> up_signOutEverywhere i = Some True \<or> up_active i = Some False \<or>
     up_password i \<noteq> None \<or> up_role i \<noteq> None"

definition no_fields :: "staff_update \<Rightarrow> bool" where
  "no_fields i \<longleftrightarrow> up_name i = None \<and> up_role i = None \<and> up_active i = None \<and> up_password i = None \<and>
     \<not> mustRevoke i"

definition apply_update :: "platform \<Rightarrow> staff_update \<Rightarrow> staff_user \<Rightarrow> staff_user" where
  "apply_update pf i u = u\<lparr>
     su_name := (case up_name i of None \<Rightarrow> su_name u | Some n \<Rightarrow> trim n),
     su_role := (case up_role i of None \<Rightarrow> su_role u | Some r \<Rightarrow> r),
     su_active := (case up_active i of None \<Rightarrow> su_active u | Some a \<Rightarrow> a),
     su_passwordHash := (case up_password i of None \<Rightarrow> su_passwordHash u | Some p \<Rightarrow> pf_bcryptHash pf p),
     su_tokenVersion := (if mustRevoke i then su_tokenVersion u + 1 else su_tokenVersion u)\<rparr>"

definition updateStaff_write ::
  "platform \<Rightarrow> id \<Rightarrow> staff_update \<Rightarrow> server \<Rightarrow> (staff_error, unit) outcome \<times> server" where
  "updateStaff_write pf targetId i s =
     (if no_fields i then (Refused Nothing_to_do, s)
      else if countWhere (\<lambda>u. su_id u = targetId) (staffUsers s) = 0 then (Threw, s)
      else (Done (), invalidateStaffCache targetId
        (s\<lparr>staffUsers := updateMany (\<lambda>u. su_id u = targetId) (apply_update pf i) (staffUsers s)\<rparr>)))"

definition updateStaff ::
  "platform \<Rightarrow> id \<Rightarrow> id \<Rightarrow> id \<Rightarrow> staff_update \<Rightarrow> server \<Rightarrow> (staff_error, unit) outcome \<times> server" where
  "updateStaff pf venueId targetId actorId i s =
     (case updateStaff_read venueId targetId actorId i s of
        Refused e \<Rightarrow> (Refused e, s) | Threw \<Rightarrow> (Threw, s)
      | Done _ \<Rightarrow> updateStaff_write pf targetId i s)"

record password_change =
  pc_currentPassword :: jstr
  pc_newPassword :: jstr

definition valid_password_change :: "password_change \<Rightarrow> bool" where
  "valid_password_change i \<longleftrightarrow> 1 \<le> length (pc_currentPassword i) \<and> PASSWORD_MIN \<le> length (pc_newPassword i)"

definition changeOwnPassword ::
  "platform \<Rightarrow> id \<Rightarrow> password_change \<Rightarrow> server \<Rightarrow> (staff_error, unit) outcome \<times> server" where
  "changeOwnPassword pf staffId i s =
     (case findFirst (\<lambda>u. su_id u = staffId) (staffUsers s) of
        None \<Rightarrow> (Refused Staff_not_found, s)
      | Some u \<Rightarrow>
          if \<not> pf_bcryptCompare pf (pc_currentPassword i) (su_passwordHash u) then (Refused Wrong_password, s)
          else (Done (), invalidateStaffCache staffId (s\<lparr>staffUsers := updateMany (\<lambda>u. su_id u = staffId)
            (\<lambda>u. u\<lparr>su_passwordHash := pf_bcryptHash pf (pc_newPassword i),
                   su_tokenVersion := su_tokenVersion u + 1\<rparr>) (staffUsers s)\<rparr>)))"

subsection \<open>The routes\<close>

definition IP_LIMIT :: int where "IP_LIMIT = 10"
definition IP_WINDOW_SEC :: int where "IP_WINDOW_SEC = 10 * 60"
definition ACCOUNT_LIMIT :: int where "ACCOUNT_LIMIT = 5"
definition ACCOUNT_WINDOW_SEC :: int where "ACCOUNT_WINDOW_SEC = 15 * 60"

definition accountKey :: "platform \<Rightarrow> jstr \<Rightarrow> jstr" where
  "accountKey pf email = lit ''login:acct:'' @ pf_sha24 pf email"

definition tooMany :: "int \<Rightarrow> 'a response" where
  "tooMany retryAfterSec = Fail 429 ''rate_limited'' [(''Retry-After'', FNum retryAfterSec)]"

text \<open>The body is \<open>None\<close> when e-mail or password is missing or not a string.\<close>

definition POST_login ::
  "platform \<Rightarrow> request \<Rightarrow> (jstr \<times> jstr) option \<Rightarrow> server \<Rightarrow> (string \<times> role) response \<times> server" where
  "POST_login pf req body s =
     (case body of
        None \<Rightarrow> (Fail 400 ''invalid'' [], s)
      | Some (email, password) \<Rightarrow>
          (let normalized = trim (pf_lower pf email);
               (byIp, ws1) = rateLimit (now s) (lit ''login:ip:'' @ or_unknown (clientIp (trustProxy s) req))
                 IP_LIMIT IP_WINDOW_SEC (windows s);
               s1 = s\<lparr>windows := ws1\<rparr>
           in if \<not> rl_allowed byIp then (tooMany (rl_retryAfterSec byIp), s1)
              else (let (byAccount, ws2) = rateLimit (now s) (accountKey pf normalized) ACCOUNT_LIMIT
                      ACCOUNT_WINDOW_SEC ws1;
                    s2 = s\<lparr>windows := ws2\<rparr>
                in if \<not> rl_allowed byAccount then (tooMany (rl_retryAfterSec byAccount), s2)
                   else (case loginStaff pf normalized password s2 of
                       None \<Rightarrow> (Fail 401 ''invalid_credentials'' [], s2)
                     | Some login \<Rightarrow> (Ok login, s2)))))"

text \<open>The answer carries the cookie the browser is told to store, empty to clear it.\<close>

definition POST_logout :: "server \<Rightarrow> string response \<times> server" where
  "POST_logout s = (Ok [], s)"

definition POST_password ::
  "platform \<Rightarrow> request \<Rightarrow> string option \<Rightarrow> password_change option \<Rightarrow> server \<Rightarrow> string response \<times> server" where
  "POST_password pf req cookie body s =
     (case getStaff pf cookie s of
        (None, s1) \<Rightarrow> (Fail 401 ''unauthorized'' [], s1)
      | (Some staff, s1) \<Rightarrow>
          (let (limit, ws) = rateLimit (now s1) (lit ''pwchange:'' @ lit (sc_sub staff) @ lit '':'' @
                 clientIp (trustProxy s1) req) 5 (15 * 60) (windows s1);
               s2 = s1\<lparr>windows := ws\<rparr>
           in if \<not> rl_allowed limit then (tooMany (rl_retryAfterSec limit), s2)
              else (case body of
                  None \<Rightarrow> (Fail 400 ''invalid'' [], s2)
                | Some i \<Rightarrow>
                    if \<not> valid_password_change i then (Fail 400 ''invalid'' [], s2)
                    else (case changeOwnPassword pf (sc_sub staff) i s2 of
                        (Refused Wrong_password, s3) \<Rightarrow> (Fail 403 ''wrong_password'' [], s3)
                      | (Refused e, s3) \<Rightarrow> (Fail 404 ''not_found'' [], s3)
                      | (Threw, s3) \<Rightarrow> (Crash, s3)
                      | (Done _, s3) \<Rightarrow>
                          (case findFirst (\<lambda>u. su_id u = sc_sub staff) (staffUsers s3) of
                             None \<Rightarrow> (Crash, s3)
                           | Some fresh \<Rightarrow>
                               (Ok (createStaffToken pf \<lparr>sc_sub = sc_sub staff, sc_venueId = su_venueId fresh,
                                 sc_role = su_role fresh, sc_name = su_name fresh,
                                 sc_ver = Some (su_tokenVersion fresh)\<rparr> s3), s3))))))"

record staff_row =
  sr_id :: id
  sr_email :: jstr
  sr_name :: jstr
  sr_role :: role
  sr_active :: bool
  sr_createdAt :: time

definition GET_staff :: "platform \<Rightarrow> string option \<Rightarrow> server \<Rightarrow> (staff_row list \<times> id) response \<times> server" where
  "GET_staff pf cookie s =
     (case requireStaff pf Admin cookie s of
        (None, s1) \<Rightarrow> (Fail 401 ''unauthorized'' [], s1)
      | (Some staff, s1) \<Rightarrow>
          (Ok (map (\<lambda>u. \<lparr>sr_id = su_id u, sr_email = su_email u, sr_name = su_name u, sr_role = su_role u,
                 sr_active = su_active u, sr_createdAt = su_createdAt u\<rparr>)
             (orderBy su_createdAt (filter (\<lambda>u. su_venueId u = sc_venueId staff) (staffUsers s1))),
           sc_sub staff), s1))"

fun staff_error_name :: "staff_error \<Rightarrow> string" where
  "staff_error_name Email_taken = ''email_taken''"
| "staff_error_name Staff_not_found = ''not_found''"
| "staff_error_name Last_admin = ''last_admin''"
| "staff_error_name Cannot_deactivate_self = ''cannot_deactivate_self''"
| "staff_error_name Cannot_demote_self = ''cannot_demote_self''"
| "staff_error_name Nothing_to_do = ''nothing_to_do''"
| "staff_error_name Wrong_password = ''wrong_password''"

definition POST_staff ::
  "platform \<Rightarrow> id \<Rightarrow> string option \<Rightarrow> staff_create option \<Rightarrow> server \<Rightarrow> id response \<times> server" where
  "POST_staff pf newId cookie body s =
     (case requireStaff pf Admin cookie s of
        (None, s1) \<Rightarrow> (Fail 401 ''unauthorized'' [], s1)
      | (Some staff, s1) \<Rightarrow>
          (case body of
             None \<Rightarrow> (Fail 400 ''invalid'' [], s1)
           | Some i \<Rightarrow>
               if \<not> valid_staff_create pf i then (Fail 400 ''invalid'' [], s1)
               else (case createStaff pf newId (sc_venueId staff) i s1 of
                   (Done k, s2) \<Rightarrow> (Ok k, s2)
                 | (Refused e, s2) \<Rightarrow> (Fail 409 (staff_error_name e) [], s2)
                 | (Threw, s2) \<Rightarrow> (Crash, s2))))"

definition PATCH_staff ::
  "platform \<Rightarrow> id \<Rightarrow> string option \<Rightarrow> staff_update option \<Rightarrow> server \<Rightarrow> unit response \<times> server" where
  "PATCH_staff pf targetId cookie body s =
     (case requireStaff pf Admin cookie s of
        (None, s1) \<Rightarrow> (Fail 401 ''unauthorized'' [], s1)
      | (Some staff, s1) \<Rightarrow>
          (case body of
             None \<Rightarrow> (Fail 400 ''invalid'' [], s1)
           | Some i \<Rightarrow>
               if \<not> valid_staff_update i then (Fail 400 ''invalid'' [], s1)
               else (case updateStaff pf (sc_venueId staff) targetId (sc_sub staff) i s1 of
                   (Done _, s2) \<Rightarrow> (Ok (), s2)
                 | (Refused e, s2) \<Rightarrow> (Fail (if e = Staff_not_found then 404
                     else if e = Nothing_to_do then 400 else 409) (staff_error_name e) [], s2)
                 | (Threw, s2) \<Rightarrow> (Crash, s2))))"

subsection \<open>Who stays in charge\<close>

definition is_admin :: "id \<Rightarrow> staff_user \<Rightarrow> bool" where
  "is_admin ven u \<longleftrightarrow> su_venueId u = ven \<and> su_role u = Admin \<and> su_active u"

definition has_admin :: "id \<Rightarrow> server \<Rightarrow> bool" where
  "has_admin ven s \<longleftrightarrow> list_ex (is_admin ven) (staffUsers s)"

lemma accountState_users: "staffUsers (snd (accountState i s)) = staffUsers s"
  by (simp add: accountState_def Let_def split: option.split)

lemma getStaff_users [simp]: "staffUsers (snd (getStaff pf cookie s)) = staffUsers s"
proof -
  have "staffUsers s1 = staffUsers s" if "accountState i s = (a, s1)" for i a s1
    using that accountState_users[of i s] by simp
  then show ?thesis
    by (auto simp: getStaff_def split: option.split prod.split)
qed

lemma requireStaff_users [simp]: "staffUsers (snd (requireStaff pf r cookie s)) = staffUsers s"
  using getStaff_users[of pf cookie s]
  by (cases "getStaff pf cookie s") (auto simp: requireStaff_def split: option.split)

text \<open>Checking who is at the keyboard writes nothing but the account cache.\<close>

definition same_but_cache :: "server \<Rightarrow> server \<Rightarrow> bool" where
  "same_but_cache s t \<longleftrightarrow> t = s\<lparr>accountCache := accountCache t\<rparr>"

lemma same_but_cache_refl [simp]: "same_but_cache s s"
  by (simp add: same_but_cache_def)

lemma same_but_cache_upd [simp]: "same_but_cache s (s\<lparr>accountCache := c\<rparr>)"
  by (simp add: same_but_cache_def)

lemma accountState_state: "accountState i s = (a, t) \<Longrightarrow> same_but_cache s t"
  by (auto simp: accountState_def Let_def split: option.splits if_splits)

lemma getStaff_state: "same_but_cache s (snd (getStaff pf cookie s))"
  by (auto simp: getStaff_def dest: accountState_state split: option.split prod.split)

lemma requireStaff_state: "\<exists>c. snd (requireStaff pf r cookie s) = s\<lparr>accountCache := c\<rparr>"
proof -
  have "same_but_cache s (snd (requireStaff pf r cookie s))"
    using getStaff_state[of s pf cookie]
    by (cases "getStaff pf cookie s") (auto simp: requireStaff_def split: option.split)
  then show ?thesis unfolding same_but_cache_def by (rule exI)
qed

lemma requireStaff_cases:
  obtains (refused) c where "requireStaff pf r cookie s = (None, s\<lparr>accountCache := c\<rparr>)"
  | (staff) st c where "requireStaff pf r cookie s = (Some st, s\<lparr>accountCache := c\<rparr>)"
proof -
  obtain c where c: "snd (requireStaff pf r cookie s) = s\<lparr>accountCache := c\<rparr>"
    using requireStaff_state by blast
  show thesis
  proof (cases "fst (requireStaff pf r cookie s)")
    case None
    then show thesis using c refused[of c] by (cases "requireStaff pf r cookie s") simp
  next
    case (Some st)
    then show thesis using c staff[of st c] by (cases "requireStaff pf r cookie s") simp
  qed
qed

lemma requireStaff_SomeD:
  assumes "requireStaff pf r cookie s = (Some st, s1)"
  shows "\<exists>c. s1 = s\<lparr>accountCache := c\<rparr>"
  using requireStaff_state[of pf r cookie s] assms by simp

lemma updateStaff_Done:
  assumes "updateStaff pf ven target actor i s = (Done r, s')"
  shows "staffUsers s' = updateMany (\<lambda>u. su_id u = target) (apply_update pf i) (staffUsers s)"
    and "accountCache s' = AList.delete target (accountCache s)" and "now s' = now s"
    and "updateStaff_read ven target actor i s = Done r"
  using assms
  by (auto simp: updateStaff_def updateStaff_write_def invalidateStaffCache_def split: outcome.splits if_splits)

lemma updateStaff_not_Done:
  "updateStaff pf ven target actor i s = (r, s') \<Longrightarrow> \<nexists>k. r = Done k \<Longrightarrow> s' = s"
  by (auto simp: updateStaff_def updateStaff_write_def split: outcome.splits if_splits)

lemma apply_update_id [simp]: "su_id (apply_update pf i u) = su_id u" "su_venueId (apply_update pf i u) = su_venueId u"
  by (simp_all add: apply_update_def)

lemma has_admin_other:
  assumes "u \<in> set us" "is_admin ven u" "su_id u \<noteq> target"
  shows "list_ex (is_admin ven) (updateMany (\<lambda>u. su_id u = target) f us)"
  using assms by (force simp: list_ex_iff set_updateMany)

lemma updateStaff_keeps_admin:
  assumes ids: "distinct (map su_id (staffUsers s))" and had: "has_admin ven s"
    and upd: "updateStaff pf ven' target actor i s = (r, s')"
  shows "has_admin ven s'"
proof (cases "\<exists>k. r = Done k")
  case False
  then show ?thesis using updateStaff_not_Done[OF upd] had by simp
next
  case True
  then obtain k where "updateStaff pf ven' target actor i s = (Done k, s')" using upd by auto
  note st = updateStaff_Done[OF this]
  obtain u where u: "u \<in> set (staffUsers s)" "is_admin ven u" using had by (auto simp: has_admin_def list_ex_iff)
  show ?thesis
  proof (cases "su_id u = target")
    case False
    then show ?thesis using has_admin_other[OF u] by (simp add: has_admin_def st(1))
  next
    case same: True
    from st(4) obtain tu where tu: "findFirst (\<lambda>u. su_id u = target \<and> su_venueId u = ven') (staffUsers s) = Some tu"
      by (auto simp: updateStaff_read_def split: option.splits)
    have "tu = u"
      using findFirst_SomeD[OF tu] u(1) same ids by (auto simp: distinct_map inj_on_def)
    show ?thesis
    proof (cases "up_active i = Some False \<or> up_role i = Some Desk")
      case True
      then have "otherActiveAdmins ven' target s \<noteq> 0"
        using st(4) u(2) tu \<open>tu = u\<close> by (auto simp: updateStaff_read_def is_admin_def Let_def split: if_splits)
      then obtain w where "w \<in> set (staffUsers s)" "is_admin ven' w" "su_id w \<noteq> target"
        by (auto simp: otherActiveAdmins_def countWhere_0_iff is_admin_def)
      moreover have "ven' = ven"
        using findFirst_SomeD[OF tu] u(2) \<open>tu = u\<close> by (simp add: is_admin_def)
      ultimately show ?thesis using has_admin_other by (simp add: has_admin_def st(1))
    next
      case False
      have "is_admin ven (apply_update pf i u)"
        using u(2) False
        by (cases "up_role i"; cases "up_active i") (auto simp: is_admin_def apply_update_def intro: role.exhaust)
      moreover have "apply_update pf i u \<in> set (staffUsers s')"
        using u(1) same by (auto simp: st(1) set_updateMany image_iff)
      ultimately show ?thesis by (auto simp: has_admin_def list_ex_iff)
    qed
  qed
qed

lemma PATCH_staff_users:
  "\<exists>ven actor i s1. staffUsers s1 = staffUsers s \<and>
     (staffUsers (snd (PATCH_staff pf target cookie body s)) = staffUsers s \<or>
      staffUsers (snd (PATCH_staff pf target cookie body s)) = staffUsers (snd (updateStaff pf ven target actor i s1)))"
proof -
  obtain c s1 where r: "requireStaff pf Admin cookie s = (c, s1)" by (cases "requireStaff pf Admin cookie s")
  have s1: "staffUsers s1 = staffUsers s" using requireStaff_users[of pf Admin cookie s] r by simp
  show ?thesis
  proof (cases "\<exists>staff i. c = Some staff \<and> body = Some i \<and> valid_staff_update i")
    case True
    then obtain staff i where "c = Some staff" "body = Some i" "valid_staff_update i" by blast
    then have "snd (PATCH_staff pf target cookie body s) = snd (updateStaff pf (sc_venueId staff) target (sc_sub staff) i s1)"
      by (simp add: PATCH_staff_def r split: prod.split outcome.split)
    then show ?thesis using s1 by metis
  next
    case False
    then have "snd (PATCH_staff pf target cookie body s) = s1"
      by (auto simp: PATCH_staff_def r split: option.split)
    then show ?thesis using s1 by metis
  qed
qed

text \<open>
  C14: a venue is never left without an administrator. Editing any account through the admin
  screen, one request at a time, keeps at least one active administrator in every venue that had
  one.
\<close>

theorem venue_keeps_an_admin:
  assumes "distinct (map su_id (staffUsers s))" and "has_admin ven s"
  shows "has_admin ven (snd (PATCH_staff pf target cookie body s))"
proof -
  obtain ven' actor i s1 where s1: "staffUsers s1 = staffUsers s" and
    cases: "staffUsers (snd (PATCH_staff pf target cookie body s)) = staffUsers s \<or>
      staffUsers (snd (PATCH_staff pf target cookie body s)) = staffUsers (snd (updateStaff pf ven' target actor i s1))"
    using PATCH_staff_users by blast
  have "has_admin ven (snd (updateStaff pf ven' target actor i s1))"
    using updateStaff_keeps_admin[of s1 ven pf ven' target actor i] assms s1
    by (metis has_admin_def prod.collapse)
  then show ?thesis using cases assms(2) by (auto simp: has_admin_def)
qed

text \<open>A platform for the witnesses: tokens are looked up in a table, hashing is the identity.\<close>

definition toy_claims :: "id \<Rightarrow> role \<Rightarrow> int \<Rightarrow> staff_claims" where
  "toy_claims i r v = \<lparr>sc_sub = i, sc_venueId = ''v1'', sc_role = r, sc_name = lit i, sc_ver = Some v\<rparr>"

definition toy_token :: "staff_claims \<Rightarrow> string" where
  "toy_token c = sc_sub c @ (if token_version c = 0 then ''-0'' else ''-1'')"

definition toy_verify :: "string \<Rightarrow> staff_claims option" where
  "toy_verify tok = map_of [(''a1-0'', toy_claims ''a1'' Admin 0), (''a1-1'', toy_claims ''a1'' Admin 1),
     (''d1-0'', toy_claims ''d1'' Desk 0), (''d1-1'', toy_claims ''d1'' Desk 1)] tok"

definition toy_platform :: platform where
  "toy_platform = \<lparr>pf_jwtVerify = (\<lambda>_. toy_verify), pf_jwtSign = (\<lambda>_. toy_token),
     pf_bcryptHash = (\<lambda>p. map (\<lambda>c. char_of c) p), pf_bcryptCompare = (\<lambda>p h. p = lit h),
     pf_lower = (\<lambda>e. e), pf_isEmail = (\<lambda>_. True), pf_sha24 = (\<lambda>e. e),
     pf_sha256hex = (\<lambda>k. k)\<rparr>"

definition deactivate :: staff_update where
  "deactivate = \<lparr>up_name = None, up_role = None, up_active = Some False, up_password = None,
     up_signOutEverywhere = None\<rparr>"

theorem venue_keeps_an_admin_witness:
  "has_admin ''v1'' (snd (PATCH_staff toy_platform ''a1'' (Some ''a1-0'') (Some deactivate) sample))"
  by (rule venue_keeps_an_admin) (simp_all add: sample_defs has_admin_def is_admin_def)

text \<open>
  the guard does not hold against two requests at once. When a venue has exactly two active
  administrators and each is deactivated by the other at the same moment, both checks pass on what
  they read and both writes go through, and no active administrator is left.
\<close>

theorem two_admins_can_remove_each_other:
  assumes "staffUsers s = [a, b]" and "is_admin ven a" and "is_admin ven b" and "su_id a \<noteq> su_id b"
    and "updateStaff_write pf (su_id b) deactivate s = (r1, s1)"
    and "updateStaff_write pf (su_id a) deactivate s1 = (r2, s2)"
  shows "updateStaff_read ven (su_id b) (su_id a) deactivate s = Done () \<and>
    updateStaff_read ven (su_id a) (su_id b) deactivate s = Done () \<and>
    r1 = Done () \<and> r2 = Done () \<and> \<not> has_admin ven s2"
proof -
  have reads: "updateStaff_read ven (su_id b) (su_id a) deactivate s = Done ()"
    "updateStaff_read ven (su_id a) (su_id b) deactivate s = Done ()"
    using assms(1-4)
    by (auto simp: updateStaff_read_def is_admin_def deactivate_def otherActiveAdmins_def countWhere_def)
  have "\<not> no_fields deactivate" by (simp add: no_fields_def deactivate_def)
  then have "r1 = Done () \<and> staffUsers s1 = [a, apply_update pf deactivate b]"
    using assms(1,4,5)
    by (auto simp: updateStaff_write_def countWhere_def invalidateStaffCache_def)
  moreover from this \<open>\<not> no_fields deactivate\<close>
  have "r2 = Done () \<and> staffUsers s2 = [apply_update pf deactivate a, apply_update pf deactivate b]"
    using assms(4,6)
    by (auto simp: updateStaff_write_def countWhere_def invalidateStaffCache_def)
  ultimately show ?thesis
    using reads by (simp add: has_admin_def is_admin_def apply_update_def deactivate_def)
qed

definition two_admins :: server where
  "two_admins = sample\<lparr>staffUsers := [sample_staff ''a1'' Admin, sample_staff ''a2'' Admin]\<rparr>"

theorem two_admins_can_remove_each_other_witness:
  "\<not> has_admin ''v1'' (snd (updateStaff_write toy_platform ''a1'' deactivate
     (snd (updateStaff_write toy_platform ''a2'' deactivate two_admins))))"
proof -
  let ?a = "sample_staff ''a1'' Admin" and ?b = "sample_staff ''a2'' Admin"
  let ?w1 = "updateStaff_write toy_platform (su_id ?b) deactivate two_admins"
  have "staffUsers two_admins = [?a, ?b]" "is_admin ''v1'' ?a" "is_admin ''v1'' ?b" "su_id ?a \<noteq> su_id ?b"
    by (simp_all add: two_admins_def is_admin_def sample_staff_def)
  from two_admins_can_remove_each_other[OF this, of toy_platform "fst ?w1" "snd ?w1"
      "fst (updateStaff_write toy_platform (su_id ?a) deactivate (snd ?w1))"
      "snd (updateStaff_write toy_platform (su_id ?a) deactivate (snd ?w1))"]
  show ?thesis by (simp add: sample_staff_def)
qed

subsection \<open>Revocation\<close>

text \<open>An entry of the cache never shows a newer version than the row.\<close>

lemma getStaff_fresh:
  assumes "token \<noteq> []" "pf_jwtVerify pf (now s) token = Some c" "sc_sub c \<noteq> []"
    and "map_of (accountCache s) (sc_sub c) = None" "findFirst (\<lambda>u. su_id u = sc_sub c) (staffUsers s) = Some u"
  shows "fst (getStaff pf (Some token) s) = (if su_active u \<and> token_version c = su_tokenVersion u
    then Some \<lparr>sc_sub = sc_sub c, sc_venueId = sc_venueId c, sc_role = su_role u, sc_name = su_name u,
      sc_ver = Some (su_tokenVersion u)\<rparr> else None)"
  using assms by (simp add: getStaff_def accountState_def state_of_user_def)

lemma getStaff_Some:
  assumes "getStaff pf (Some token) s = (Some st, s1)"
  shows "\<exists>c. pf_jwtVerify pf (now s) token = Some c \<and> sc_sub c = sc_sub st \<and> sc_sub c \<noteq> [] \<and> now s1 = now s"
  using assms
  by (auto simp: getStaff_def accountState_def Let_def split: option.splits if_splits prod.splits)

definition reissued :: "staff_user \<Rightarrow> staff_claims" where
  "reissued u = \<lparr>sc_sub = su_id u, sc_venueId = su_venueId u, sc_role = su_role u, sc_name = su_name u,
     sc_ver = Some (su_tokenVersion u + 1)\<rparr>"

lemma POST_password_Ok:
  assumes "POST_password pf req (Some tok) body s = (Ok fresh, s')"
    and "pf_jwtVerify pf (now s) tok = Some c"
    and row: "findFirst (\<lambda>u. su_id u = sc_sub c) (staffUsers s) = Some u"
  shows "\<exists>i. body = Some i \<and> staffUsers s' = updateMany (\<lambda>x. su_id x = sc_sub c)
      (\<lambda>x. x\<lparr>su_passwordHash := pf_bcryptHash pf (pc_newPassword i), su_tokenVersion := su_tokenVersion x + 1\<rparr>)
      (staffUsers s) \<and>
    findFirst (\<lambda>x. su_id x = sc_sub c) (staffUsers s') =
      Some (u\<lparr>su_passwordHash := pf_bcryptHash pf (pc_newPassword i), su_tokenVersion := su_tokenVersion u + 1\<rparr>) \<and>
    map_of (accountCache s') (sc_sub c) = None \<and> now s' = now s \<and> sc_sub c \<noteq> [] \<and>
    fresh = pf_jwtSign pf (now s) (reissued u)"
proof -
  obtain st s1 where g: "getStaff pf (Some tok) s = (Some st, s1)"
    using assms(1) by (cases "getStaff pf (Some tok) s"; cases "fst (getStaff pf (Some tok) s)")
      (auto simp: POST_password_def)
  have st: "sc_sub st = sc_sub c" "sc_sub c \<noteq> []" "now s1 = now s"
    using getStaff_Some[OF g] assms(2) by auto
  have s1: "staffUsers s1 = staffUsers s" using getStaff_users[of pf "Some tok" s] g by simp
  let ?upd = "\<lambda>h. updateMany (\<lambda>x. su_id x = sc_sub c)
    (\<lambda>x. x\<lparr>su_passwordHash := h, su_tokenVersion := su_tokenVersion x + 1\<rparr>) (staffUsers s)"
  have found: "findFirst (\<lambda>x. su_id x = sc_sub c) (?upd h) =
      Some (u\<lparr>su_passwordHash := h, su_tokenVersion := su_tokenVersion u + 1\<rparr>)" for h
    using findFirst_SomeD[OF row] by (subst findFirst_updateMany_key) (simp_all add: row)
  have uid: "su_id u = sc_sub c" using findFirst_SomeD[OF row] by simp
  obtain i ws where body: "body = Some i" and "changeOwnPassword pf (sc_sub c) i (s1\<lparr>windows := ws\<rparr>) = (Done (), s')"
    "fresh = (case findFirst (\<lambda>x. su_id x = sc_sub c) (staffUsers s') of None \<Rightarrow> undefined | Some f \<Rightarrow>
      createStaffToken pf \<lparr>sc_sub = sc_sub c, sc_venueId = su_venueId f, sc_role = su_role f,
        sc_name = su_name f, sc_ver = Some (su_tokenVersion f)\<rparr> s')"
    using assms(1) unfolding POST_password_def g Let_def st(1)
    by (auto simp: st(1) tooMany_def split: prod.splits if_splits option.splits outcome.splits staff_error.splits)
  moreover have "s' = invalidateStaffCache (sc_sub c) (s1\<lparr>windows := ws,
      staffUsers := ?upd (pf_bcryptHash pf (pc_newPassword i))\<rparr>)"
    using calculation(2) by (simp add: changeOwnPassword_def s1 row split: if_splits)
  ultimately show ?thesis
    by (simp add: body invalidateStaffCache_def delete_conv st found createStaffToken_def reissued_def uid)
qed

text \<open>
  C15: changing a password signs out every other device at once. The token the route hands back
  is accepted by the very next request, and every token issued before, for any device, is refused.
\<close>

theorem password_change_signs_out_others:
  assumes change: "POST_password pf req (Some tok) body s = (Ok fresh, s')"
    and claims: "pf_jwtVerify pf (now s) tok = Some c"
    and row: "findFirst (\<lambda>u. su_id u = sc_sub c) (staffUsers s) = Some u" "su_active u"
    and jwt: "pf_jwtSign pf (now s) (reissued u) \<noteq> []"
      "pf_jwtVerify pf (now s) (pf_jwtSign pf (now s) (reissued u)) = Some (reissued u)"
    and old: "pf_jwtVerify pf (now s) old = Some c'" "sc_sub c' = sc_sub c" "token_version c' \<le> su_tokenVersion u"
  shows "fst (getStaff pf (Some old) s') = None \<and> fst (getStaff pf (Some fresh) s') \<noteq> None"
proof -
  from POST_password_Ok[OF change claims row(1)] obtain h where
    row': "findFirst (\<lambda>x. su_id x = sc_sub c) (staffUsers s') =
      Some (u\<lparr>su_passwordHash := h, su_tokenVersion := su_tokenVersion u + 1\<rparr>)"
    and s': "map_of (accountCache s') (sc_sub c) = None" "now s' = now s" "sc_sub c \<noteq> []"
    and fresh: "fresh = pf_jwtSign pf (now s) (reissued u)" by blast
  have uid: "su_id u = sc_sub c" using findFirst_SomeD[OF row(1)] by simp
  have "fst (getStaff pf (Some old) s') = None"
  proof (cases "old = []")
    case False
    then show ?thesis
      using getStaff_fresh[of old pf s' c'] old s' row' by simp
  qed (simp add: getStaff_def)
  moreover have "fst (getStaff pf (Some fresh) s') \<noteq> None"
    using getStaff_fresh[of fresh pf s' "reissued u"] jwt s' row' row(2)
    by (simp add: fresh reissued_def uid token_version_def)
  ultimately show ?thesis by blast
qed

definition toy_change :: password_change where
  "toy_change = \<lparr>pc_currentPassword = lit ''h'', pc_newPassword = replicate 8 97\<rparr>"

theorem password_change_signs_out_others_witness:
  "fst (getStaff toy_platform (Some ''a1-0'')
     (snd (POST_password toy_platform bare_request (Some ''a1-0'') (Some toy_change) sample))) = None"
proof -
  let ?r = "POST_password toy_platform bare_request (Some ''a1-0'') (Some toy_change) sample"
  have "fst ?r = Ok ''a1-1''"
    by (simp add: POST_password_def getStaff_def toy_platform_def toy_verify_def toy_claims_def accountState_def
        sample_defs state_of_user_def token_version_def rateLimit_def toy_change_def valid_password_change_def
        PASSWORD_MIN_def changeOwnPassword_def invalidateStaffCache_def createStaffToken_def toy_token_def
        MAX_KEYS_def case_prod_unfold Let_def)
  then have r: "?r = (Ok ''a1-1'', snd ?r)" by (simp add: prod_eq_iff)
  show ?thesis
    using password_change_signs_out_others[OF r, of "toy_claims ''a1'' Admin 0" "sample_staff ''a1'' Admin"
        "''a1-0''" "toy_claims ''a1'' Admin 0"]
    by (simp add: toy_platform_def toy_verify_def toy_claims_def sample_defs reissued_def toy_token_def token_version_def)
qed

subsection \<open>The two accounts of the sample venue at work\<close>

definition toy_admin :: staff_claims where
  "toy_admin = \<lparr>sc_sub = ''a1'', sc_venueId = ''v1'', sc_role = Admin, sc_name = lit ''a1'', sc_ver = Some 0\<rparr>"

definition toy_desk :: staff_claims where
  "toy_desk = \<lparr>sc_sub = ''d1'', sc_venueId = ''v1'', sc_role = Desk, sc_name = lit ''d1'', sc_ver = Some 0\<rparr>"

lemma toy_requires:
  assumes "staffUsers s = staffUsers sample" "accountCache s = []"
  shows "\<exists>c. requireStaff toy_platform Admin (Some ''a1-0'') s = (Some toy_admin, s\<lparr>accountCache := c\<rparr>)"
    and "\<exists>c. requireStaff toy_platform Desk (Some ''d1-0'') s = (Some toy_desk, s\<lparr>accountCache := c\<rparr>)"
  using assms
  by (auto simp: requireStaff_def getStaff_def toy_platform_def toy_verify_def toy_claims_def accountState_def
      sample_defs state_of_user_def token_version_def toy_admin_def toy_desk_def)

subsection \<open>The same request again\<close>

lemma requireStaff_again:
  assumes "requireStaff pf r cookie s = (Some st, s1)" and "now s' = now s1" and "accountCache s' = accountCache s1"
  shows "requireStaff pf r cookie s' = (Some st, s')"
proof -
  obtain g where g: "getStaff pf cookie s = (Some st, s1)" "\<not> (r = Admin \<and> sc_role st \<noteq> Admin)"
    using assms(1) by (auto simp: requireStaff_def split: prod.splits option.splits if_splits)
  then obtain tok c a where t: "cookie = Some tok" "tok \<noteq> []" "pf_jwtVerify pf (now s) tok = Some c" "sc_sub c \<noteq> []"
      "accountState (sc_sub c) s = (Some a, s1)" "ac_active a" "token_version c = ac_tokenVersion a"
      "st = \<lparr>sc_sub = sc_sub c, sc_venueId = sc_venueId c, sc_role = ac_role a, sc_name = ac_name a,
        sc_ver = Some (ac_tokenVersion a)\<rparr>"
    by (auto simp: getStaff_def split: option.splits if_splits prod.splits)
  have n: "now s1 = now s" using t(5) by (auto simp: accountState_def Let_def split: option.splits if_splits)
  have "map_of (accountCache s1) (sc_sub c) = Some a \<and> now s - ac_checkedAt a < ACCOUNT_CACHE_MS"
    using t(5) by (auto simp: accountState_def Let_def state_of_user_def ACCOUNT_CACHE_MS_def update_conv
        split: option.splits if_splits)
  then have "accountState (sc_sub c) s' = (Some a, s')"
    using assms(2,3) n by (simp add: accountState_def Let_def)
  then have "getStaff pf cookie s' = (Some st, s')"
    using t assms(2) n by (simp add: getStaff_def)
  then show ?thesis using g(2) by (simp add: requireStaff_def)
qed

end
