(* ===== verification/Reporting.thy ===== *)
theory Reporting
  imports Visit Staff Complex_Main "HOL-Library.Char_ord" "HOL-Library.List_Lexorder"
begin

section \<open>Figures and the order log\<close>

text \<open>
  \<open>src/lib/reporting.ts\<close>, \<open>src/lib/pagination.ts\<close>, \<open>src/app/api/admin/stats/route.ts\<close> and
  \<open>src/app/api/admin/orders/route.ts\<close>. The server's time zone enters as the function that gives
  the local midnight a number of days away from an instant. A number taken from a query string
  is a \<open>js_number\<close>; the code's rounding of quotients is the exact one. The order of ids is the
  one of their characters.
\<close>

subsection \<open>Periods\<close>

definition dayBounds :: "(time \<Rightarrow> int \<Rightarrow> time) \<Rightarrow> int \<Rightarrow> time \<Rightarrow> time \<times> time" where
  "dayBounds midnight daysAgo t = (midnight t (- daysAgo), midnight t (- daysAgo + 1))"

record period_report =
  pr_from :: time
  pr_to :: time
  pr_settledKurus :: int
  pr_cashKurus :: int
  pr_cardKurus :: int
  pr_settledVisits :: nat
  pr_avgCheckKurus :: int
  pr_ordersPlaced :: nat
  pr_ordersRejected :: nat
  pr_itemsSold :: int

definition in_period :: "time \<Rightarrow> time \<Rightarrow> time \<Rightarrow> bool" where
  "in_period a b t \<longleftrightarrow> a \<le> t \<and> t < b"

definition settled_visit :: "id \<Rightarrow> time \<Rightarrow> time \<Rightarrow> visit \<Rightarrow> bool" where
  "settled_visit venueId a b v \<longleftrightarrow> tv_venueId v = venueId \<and> tv_status v = Closed \<and>
     tv_closedReason v = Some Settled \<and> (case tv_closedAt v of None \<Rightarrow> False | Some t \<Rightarrow> in_period a b t)"

definition amountOf :: "visit \<Rightarrow> int" where
  "amountOf v = (case tv_paidAmountKurus v of Some p \<Rightarrow> p
     | None \<Rightarrow> (case tv_totalKurus v of Some k \<Rightarrow> k | None \<Rightarrow> 0))"

definition placed :: "id \<Rightarrow> time \<Rightarrow> time \<Rightarrow> order \<Rightarrow> bool" where
  "placed venueId a b o' \<longleftrightarrow> ord_venueId o' = venueId \<and> in_period a b (ord_createdAt o')"

definition periodReport :: "id \<Rightarrow> time \<Rightarrow> time \<Rightarrow> server \<Rightarrow> period_report" where
  "periodReport venueId a b s =
     (let vs = filter (settled_visit venueId a b) (visits s);
          settled = sum_list (map amountOf vs)
      in \<lparr>pr_from = a, pr_to = b, pr_settledKurus = settled,
          pr_cashKurus = sum_list (map amountOf (filter (\<lambda>v. tv_paymentMethod v = Some Cash) vs)),
          pr_cardKurus = sum_list (map amountOf (filter (\<lambda>v. tv_paymentMethod v = Some Card) vs)),
          pr_settledVisits = length vs,
          pr_avgCheckKurus = (if vs \<noteq> [] then round_div settled (int (length vs)) else 0),
          pr_ordersPlaced = countWhere (placed venueId a b) (orders s),
          pr_ordersRejected = countWhere (\<lambda>o'. placed venueId a b o' \<and> ord_status o' = Rejected) (orders s),
          pr_itemsSold = sum_list (map oi_qty (concat (map ord_items
            (filter (\<lambda>o'. placed venueId a b o' \<and> notVoid (ord_status o')) (orders s)))))\<rparr>)"

record open_tables =
  ot_count :: nat
  ot_runningKurus :: int
  ot_billRequested :: nat

definition openTables :: "id \<Rightarrow> server \<Rightarrow> open_tables" where
  "openTables venueId s =
     (let vs = filter (\<lambda>v. tv_venueId v = venueId \<and> visit_open v) (visits s)
      in \<lparr>ot_count = length vs,
          ot_runningKurus = sum_list (map (\<lambda>v. sum_list (map ord_totalKurus
            (filter (billed (tv_id v)) (orders s)))) vs),
          ot_billRequested = length (filter (\<lambda>v. tv_status v = BillRequested) vs)\<rparr>)"

definition percentChange :: "int \<Rightarrow> int \<Rightarrow> int option" where
  "percentChange current previous = (if previous = 0 then None
     else Some \<lfloor>of_int (100 * (current - previous)) / (of_int previous :: rat) + 1 / 2\<rfloor>)"

record stats_page =
  sp_today :: period_report
  sp_yesterday :: period_report
  sp_openTables :: open_tables
  sp_settledChange :: "int option"
  sp_ordersChange :: "int option"

definition GET_stats ::
  "platform \<Rightarrow> (time \<Rightarrow> int \<Rightarrow> time) \<Rightarrow> string option \<Rightarrow> server \<Rightarrow> stats_page response \<times> server" where
  "GET_stats pf midnight cookie s =
     (case requireStaff pf Admin cookie s of
        (None, s1) \<Rightarrow> (Fail 401 ''unauthorized'' [], s1)
      | (Some staff, s1) \<Rightarrow>
          (let (a, b) = dayBounds midnight 0 (now s1);
               (a', b') = dayBounds midnight 1 (now s1);
               today = periodReport (sc_venueId staff) a b s1;
               yesterday = periodReport (sc_venueId staff) a' b' s1
           in (Ok \<lparr>sp_today = today, sp_yesterday = yesterday,
                sp_openTables = openTables (sc_venueId staff) s1,
                sp_settledChange = percentChange (pr_settledKurus today) (pr_settledKurus yesterday),
                sp_ordersChange = percentChange (int (pr_ordersPlaced today)) (int (pr_ordersPlaced yesterday))\<rparr>,
              s1)))"

subsection \<open>Pages of the order log\<close>

datatype js_number = Not_finite | Fin rat

definition ORDER_PAGE_SIZE :: int where "ORDER_PAGE_SIZE = 50"
definition ORDER_MAX_PAGE_SIZE :: int where "ORDER_MAX_PAGE_SIZE = 200"
definition MAX_DAYS :: rat where "MAX_DAYS = 365"

definition pageLimit :: "js_number \<Rightarrow> int" where
  "pageLimit raw = (case raw of Not_finite \<Rightarrow> ORDER_PAGE_SIZE
     | Fin n \<Rightarrow> if n \<le> 0 then ORDER_PAGE_SIZE else min \<lfloor>n\<rfloor> ORDER_MAX_PAGE_SIZE)"

text \<open>\<open>None\<close> is the \<open>TypeError\<close> of reading the id of a row that is not there.\<close>

definition splitPage :: "('r \<Rightarrow> id) \<Rightarrow> 'r list \<Rightarrow> nat \<Rightarrow> ('r list \<times> id option) option" where
  "splitPage rid rows limit =
     (if length rows \<le> limit then Some (rows, None)
      else (let items = take limit rows in
        if items = [] then None else Some (items, Some (rid (last items)))))"

definition log_key :: "order \<Rightarrow> time \<times> id" where
  "log_key o' = (ord_createdAt o', ord_id o')"

definition days_of :: "js_number \<Rightarrow> rat \<Rightarrow> rat" where
  "days_of raw dflt = (case raw of Fin d \<Rightarrow> if d > 0 then min d MAX_DAYS else dflt | Not_finite \<Rightarrow> dflt)"

definition in_days :: "id \<Rightarrow> rat \<Rightarrow> time \<Rightarrow> order \<Rightarrow> bool" where
  "in_days venueId days t o' \<longleftrightarrow> ord_venueId o' = venueId \<and>
     ord_createdAt o' > \<lfloor>of_int t - days * 86400000\<rfloor>"

text \<open>The rows from the cursor's place on; an unknown cursor has none.\<close>

definition from_cursor :: "id option \<Rightarrow> order list \<Rightarrow> order list \<Rightarrow> order list" where
  "from_cursor cursor table rows =
     (case cursor of None \<Rightarrow> rows
      | Some c \<Rightarrow>
          (case findFirst (\<lambda>o'. ord_id o' = c) table of
             None \<Rightarrow> []
           | Some o' \<Rightarrow> drop 1 (filter (\<lambda>x. log_key x \<le> log_key o') rows)))"

definition log_rows :: "id \<Rightarrow> rat \<Rightarrow> time \<Rightarrow> id option \<Rightarrow> nat \<Rightarrow> order list \<Rightarrow> order list" where
  "log_rows venueId days t cursor n table =
     take n (from_cursor cursor table (rev (orderBy log_key (filter (in_days venueId days t) table))))"

record log_order =
  lo_id :: id
  lo_number :: int
  lo_status :: order_status
  lo_paymentStatus :: payment_status
  lo_paymentMethod :: "payment_method option"
  lo_totalKurus :: int
  lo_createdAt :: time
  lo_tableName :: jstr
  lo_items :: "(jstr \<times> int) list"

definition visit_of_order :: "order \<Rightarrow> server \<Rightarrow> visit option" where
  "visit_of_order o' s = (case ord_visitId o' of None \<Rightarrow> None
     | Some v \<Rightarrow> findFirst (\<lambda>x. tv_id x = v) (visits s))"

definition log_order_of :: "server \<Rightarrow> order \<Rightarrow> log_order" where
  "log_order_of s o' = \<lparr>lo_id = ord_id o', lo_number = ord_number o', lo_status = ord_status o',
     lo_paymentStatus = ord_paymentStatus o',
     lo_paymentMethod = (case visit_of_order o' s of None \<Rightarrow> None | Some v \<Rightarrow> tv_paymentMethod v),
     lo_totalKurus = ord_totalKurus o', lo_createdAt = ord_createdAt o',
     lo_tableName = (case findFirst (\<lambda>t. tab_id t = ord_tableId o') (tables s) of
       None \<Rightarrow> [] | Some t \<Rightarrow> tab_name t),
     lo_items = map (\<lambda>i. (oi_nameSnapshot i, oi_qty i)) (ord_items o')\<rparr>"

definition some_cursor :: "id option \<Rightarrow> id option" where
  "some_cursor c = (if c = Some [] then None else c)"

definition GET_admin_orders ::
  "platform \<Rightarrow> js_number \<Rightarrow> js_number \<Rightarrow> id option \<Rightarrow> string option \<Rightarrow> server
   \<Rightarrow> (rat \<times> id option \<times> log_order list) response \<times> server" where
  "GET_admin_orders pf rawDays rawLimit cursor cookie s =
     (case requireStaff pf Admin cookie s of
        (None, s1) \<Rightarrow> (Fail 401 ''unauthorized'' [], s1)
      | (Some staff, s1) \<Rightarrow>
          (let days = days_of rawDays 7;
               limit = nat (pageLimit rawLimit);
               rows = log_rows (sc_venueId staff) days (now s1) (some_cursor cursor) (limit + 1) (orders s1)
           in case splitPage ord_id rows limit of
                None \<Rightarrow> (Crash, s1)
              | Some (os, next') \<Rightarrow> (Ok (days, next', map (log_order_of s1) os), s1)))"

subsection \<open>Takings\<close>

lemma settle_row:
  assumes settled: "settleVisit vid ven input s = (Done k, s')"
    and ids: "distinct (map tv_id (visits s))"
  obtains v where "v \<in> set (visits s)" "closing vid v" "tv_venueId v = ven" "tv_status v \<noteq> Closed"
    "\<And>w. w \<in> set (visits s) \<Longrightarrow> closing vid w \<Longrightarrow> tv_id w = tv_id v"
proof -
  obtain v where v: "findFirst (\<lambda>v. tv_id v = vid \<and> tv_venueId v = ven) (visits s) = Some v" "tv_status v \<noteq> Closed"
    using settle_Done_iff[of vid ven input s k] settled by auto
  then show thesis using that[of v] findFirst_SomeD[OF v(1)] by (auto simp: closing_def)
qed

lemma close_settled_amount:
  "amountOf (close_settled t input k v) = (case si_paidAmountKurus input of Some p \<Rightarrow> p | None \<Rightarrow> k)"
  "tv_paymentMethod (close_settled t input k v) = Some (si_paymentMethod input)"
  by (simp_all add: amountOf_def close_settled_def)

text \<open>
  what the till takes is what the report shows, once. When a visit is settled within a period,
  the period's takings, the share of the method used and the number of settled tables grow by
  exactly that payment, and the other method's share does not move.
\<close>

theorem settlement_enters_takings:
  assumes settled: "settleVisit vid ven input s = (Done k, s')"
    and ids: "distinct (map tv_id (visits s))" and period: "a \<le> now s" "now s < b"
  defines "before \<equiv> periodReport ven a b s" and "after \<equiv> periodReport ven a b s'"
    and "paid \<equiv> (case si_paidAmountKurus input of Some p \<Rightarrow> p | None \<Rightarrow> k)"
  shows "pr_settledKurus after = pr_settledKurus before + paid \<and>
    pr_settledVisits after = Suc (pr_settledVisits before) \<and>
    pr_cashKurus after = pr_cashKurus before + (if si_paymentMethod input = Cash then paid else 0) \<and>
    pr_cardKurus after = pr_cardKurus before + (if si_paymentMethod input = Card then paid else 0)"
proof -
  obtain v where v: "v \<in> set (visits s)" "closing vid v" "tv_venueId v = ven" "tv_status v \<noteq> Closed"
    "\<And>w. w \<in> set (visits s) \<Longrightarrow> closing vid w \<Longrightarrow> tv_id w = tv_id v"
    using settle_row[OF settled ids] by blast
  let ?f = "close_settled (now s) input k" and ?q = "settled_visit ven a b"
  obtain ys zs where split: "visits s = ys @ v # zs" "visits s' = ys @ ?f v # zs"
  proof (rule updateMany_one[where k = tv_id and xs = "visits s" and x = v and p = "closing vid" and f = ?f])
    show "tv_id w = tv_id v" if "w \<in> set (visits s)" "closing vid w" for w using v(5)[OF that] .
  qed (use ids v(1,2) settle_Done_state(1)[OF settled] in simp_all)
  have q: "\<not> ?q v" "?q (?f v)"
    using v(3,4) period by (simp_all add: settled_visit_def close_settled_def in_period_def)
  have paid: "amountOf (?f v) = paid" "tv_paymentMethod (?f v) = Some (si_paymentMethod input)"
    by (simp_all add: close_settled_amount paid_def)
  show ?thesis
    using q paid by (auto simp: before_def after_def periodReport_def Let_def split)
qed

theorem settlement_enters_takings_witness:
  "pr_settledKurus (periodReport ''v1'' 0 200000 sample_settled) =
   pr_settledKurus (periodReport ''v1'' 0 200000 sample) + 2800"
proof -
  have "distinct (map tv_id (visits sample))" "0 \<le> now sample" "now sample < 200000"
    by (simp_all add: sample_defs)
  from settlement_enters_takings[OF sample_settle this] show ?thesis by (simp add: cash_input_def)
qed

text \<open>
  days do not overlap and leave no gap. Reports over two adjacent periods add up to the report
  over both in takings, settled tables, orders and items, so no payment is counted on two days or
  on none; and when every settled visit has a method, cash and card add up to the takings.
\<close>

theorem periods_add_up:
  fixes ven :: id
  assumes "a \<le> b" "b \<le> c"
    and methods: "\<forall>v \<in> set (visits s). tv_closedReason v = Some Settled \<longrightarrow> tv_paymentMethod v \<noteq> None"
  defines "r \<equiv> \<lambda>x y. periodReport ven x y s"
  shows "pr_settledKurus (r a c) = pr_settledKurus (r a b) + pr_settledKurus (r b c) \<and>
    pr_settledVisits (r a c) = pr_settledVisits (r a b) + pr_settledVisits (r b c) \<and>
    pr_ordersPlaced (r a c) = pr_ordersPlaced (r a b) + pr_ordersPlaced (r b c) \<and>
    pr_itemsSold (r a c) = pr_itemsSold (r a b) + pr_itemsSold (r b c) \<and>
    pr_cashKurus (r a c) + pr_cardKurus (r a c) = pr_settledKurus (r a c)"
proof -
  have join: "in_period a c t \<longleftrightarrow> in_period a b t \<or> in_period b c t" for t
    using assms(1,2) by (auto simp: in_period_def)
  have apart: "\<not> in_period b c t" if "in_period a b t" for t using that by (auto simp: in_period_def)
  have sv: "settled_visit ven a c = (\<lambda>v. settled_visit ven a b v \<or> settled_visit ven b c v)"
    "placed ven a c = (\<lambda>o'. placed ven a b o' \<or> placed ven b c o')"
    by (auto simp: settled_visit_def placed_def join split: option.splits)
  have sv': "\<not> settled_visit ven b c v" if "settled_visit ven a b v" for v
    using that apart by (auto simp: settled_visit_def split: option.splits)
  have pl': "\<not> placed ven b c o'" if "placed ven a b o'" for o'
    using that apart by (auto simp: placed_def)
  have "pr_settledKurus (r a c) = pr_settledKurus (r a b) + pr_settledKurus (r b c)"
    using sum_filter_disjoint[of "visits s" "settled_visit ven a b" "settled_visit ven b c" amountOf] sv'
    by (simp add: r_def periodReport_def Let_def sv)
  moreover have "pr_settledVisits (r a c) = pr_settledVisits (r a b) + pr_settledVisits (r b c)"
    using countWhere_disjoint[of "visits s" "settled_visit ven a b" "settled_visit ven b c"] sv'
    by (simp add: r_def periodReport_def Let_def sv countWhere_def)
  moreover have "pr_ordersPlaced (r a c) = pr_ordersPlaced (r a b) + pr_ordersPlaced (r b c)"
    using countWhere_disjoint[of "orders s" "placed ven a b" "placed ven b c"] pl'
    by (simp add: r_def periodReport_def Let_def sv)
  moreover have sold: "sum_list (map oi_qty (concat (map ord_items os))) =
      sum_list (map (\<lambda>o'. sum_list (map oi_qty (ord_items o'))) os)" for os
    by (induction os) auto
  have "pr_itemsSold (r x y) = sum_list (map (\<lambda>o'. sum_list (map oi_qty (ord_items o')))
      (filter (placed ven x y) (filter (\<lambda>o'. notVoid (ord_status o')) (orders s))))" for x y
    unfolding r_def periodReport_def Let_def period_report.select_convs sold filter_filter
    by (simp add: conj_commute)
  then have "pr_itemsSold (r a c) = pr_itemsSold (r a b) + pr_itemsSold (r b c)"
    using sum_filter_disjoint[of "filter (\<lambda>o'. notVoid (ord_status o')) (orders s)" "placed ven a b" "placed ven b c"
        "\<lambda>o'. sum_list (map oi_qty (ord_items o'))"] pl'
    by (simp add: sv)
  moreover have methods_split: "sum_list (map amountOf (filter (\<lambda>v. tv_paymentMethod v = Some Cash) vs)) +
      sum_list (map amountOf (filter (\<lambda>v. tv_paymentMethod v = Some Card) vs)) = sum_list (map amountOf vs)"
    if "\<forall>v \<in> set vs. tv_paymentMethod v \<noteq> None" for vs
    using that by (induction vs) (auto, metis payment_method.exhaust)
  have "\<forall>v \<in> set (filter (settled_visit ven a c) (visits s)). tv_paymentMethod v \<noteq> None"
    using methods by (auto simp: settled_visit_def)
  from methods_split[OF this] have "pr_cashKurus (r a c) + pr_cardKurus (r a c) = pr_settledKurus (r a c)"
    unfolding r_def periodReport_def Let_def period_report.select_convs .
  ultimately show ?thesis by simp
qed

theorem periods_add_up_witness:
  "pr_settledKurus (periodReport ''v1'' 0 200000 sample_settled) =
   pr_settledKurus (periodReport ''v1'' 0 100000 sample_settled) +
   pr_settledKurus (periodReport ''v1'' 100000 200000 sample_settled)"
proof -
  have "visits sample_settled = updateMany (closing ''w1'') (close_settled (now sample) cash_input 2800) (visits sample)"
    by (rule settle_Done_state(1)[OF sample_settle])
  then have "\<forall>v \<in> set (visits sample_settled). tv_closedReason v = Some Settled \<longrightarrow> tv_paymentMethod v \<noteq> None"
    by (simp add: sample_defs closing_def close_settled_def)
  from periods_add_up[OF _ _ this, of 0 100000 200000] show ?thesis by simp
qed

subsection \<open>Pages\<close>

lemma pageLimit_bounds: "0 \<le> pageLimit raw \<and> pageLimit raw \<le> ORDER_MAX_PAGE_SIZE"
  by (auto simp: pageLimit_def ORDER_PAGE_SIZE_def ORDER_MAX_PAGE_SIZE_def split: js_number.split)

lemma orderBy_Nil_iff [simp]: "orderBy key xs = [] \<longleftrightarrow> xs = []"
  by (metis length_0_conv length_orderBy)

lemma log_rows_one: "log_rows ven days t None 1 table = [] \<longleftrightarrow> filter (in_days ven days t) table = []"
  by (simp add: log_rows_def from_cursor_def)

text \<open>
  a fractional page size makes the log fail. A \<open>limit\<close> between 0 and 1 is positive, so it is not
  replaced by the default, and rounds down to a page of no rows; as soon as the log has a row, the
  route throws on the last row of that page instead of answering.
\<close>

theorem fractional_limit_crashes:
  assumes "0 < n" "n < 1"
    and "requireStaff pf Admin cookie s = (Some staff, s1)"
    and "log_rows (sc_venueId staff) (days_of rawDays 7) (now s1) (some_cursor cursor) 1 (orders s1) \<noteq> []"
  shows "GET_admin_orders pf rawDays (Fin n) cursor cookie s = (Crash, s1)"
proof -
  have "\<lfloor>n\<rfloor> = 0" using assms(1,2) by (simp add: floor_eq_iff)
  then have "pageLimit (Fin n) = 0" using assms(1) by (simp add: pageLimit_def ORDER_MAX_PAGE_SIZE_def)
  then show ?thesis using assms(3,4) by (simp add: GET_admin_orders_def splitPage_def)
qed

theorem fractional_limit_crashes_witness:
  "fst (GET_admin_orders toy_platform Not_finite (Fin (1 / 2)) None (Some ''a1-0'') sample) = Crash"
proof -
  obtain c where c: "requireStaff toy_platform Admin (Some ''a1-0'') sample =
      (Some toy_admin, sample\<lparr>accountCache := c\<rparr>)"
    using toy_requires(1)[of sample] by (auto simp: sample_fields)
  have "\<lfloor>of_int 120000 - (7 * 86400000 :: rat)\<rfloor> = - 604680000" by simp
  then have "filter (in_days ''v1'' 7 120000) (orders sample) = orders sample"
    by (simp add: sample_defs in_days_def)
  then have "log_rows ''v1'' 7 120000 None 1 (orders sample) \<noteq> []"
    unfolding log_rows_one by (simp add: sample_fields)
  then have "log_rows (sc_venueId toy_admin) (days_of Not_finite 7) (now (sample\<lparr>accountCache := c\<rparr>))
      (some_cursor None) 1 (orders (sample\<lparr>accountCache := c\<rparr>)) \<noteq> []"
    by (simp add: days_of_def some_cursor_def toy_admin_def sample_fields(18))
  from fractional_limit_crashes[OF _ _ c this, of "1 / 2"] show ?thesis by simp
qed

text \<open>The pages a client gets by following \<open>nextCursor\<close>, put together; \<open>None\<close> when a page throws.\<close>

fun walk_pages :: "nat \<Rightarrow> id \<Rightarrow> rat \<Rightarrow> time \<Rightarrow> nat \<Rightarrow> id option \<Rightarrow> order list \<Rightarrow> order list option" where
  "walk_pages 0 ven days t limit cursor table = None"
| "walk_pages (Suc fuel) ven days t limit cursor table =
     (case splitPage ord_id (log_rows ven days t cursor (limit + 1) table) limit of
        None \<Rightarrow> None
      | Some (items, None) \<Rightarrow> Some items
      | Some (items, Some c) \<Rightarrow> map_option ((@) items) (walk_pages fuel ven days t limit (Some c) table))"

lemma strictly_descending:
  assumes "distinct (map ord_id table)"
  shows "sorted_wrt (\<lambda>x y. log_key y < log_key x) (rev (orderBy log_key (filter P table)))"
proof -
  have "distinct (map ord_id (orderBy log_key (filter P table)))"
    using assms by (simp add: distinct_orderBy distinct_map_filter)
  then have "distinct (map log_key (orderBy log_key (filter P table)))"
    by (auto simp: distinct_map inj_on_def log_key_def)
  moreover have "sorted (map log_key (orderBy log_key (filter P table)))" by (simp add: orderBy_def)
  ultimately have "sorted_wrt (<) (map log_key (orderBy log_key (filter P table)))"
    using strict_sorted_iff by blast
  then show ?thesis by (simp add: sorted_wrt_rev sorted_wrt_map)
qed

text \<open>The cursor of the last row of a page resumes right behind it.\<close>

lemma from_cursor_resumes:
  assumes "distinct (map ord_id table)" and rows: "rev (orderBy log_key (filter P table)) = pre @ x # suf"
  shows "from_cursor (Some (ord_id x)) table (pre @ x # suf) = suf"
proof -
  have "x \<in> set (rev (orderBy log_key (filter P table)))" unfolding rows by simp
  then have "x \<in> set table" by simp
  then have "findFirst (\<lambda>o'. ord_id o' = ord_id x) table = Some x" by (rule findFirst_key[OF assms(1)])
  moreover have desc: "sorted_wrt (\<lambda>x y. log_key y < log_key x) (pre @ x # suf)"
    using strictly_descending[OF assms(1), of P] rows by simp
  have "filter (\<lambda>y. log_key y \<le> log_key x) pre = []"
    using desc by (auto simp: filter_empty_conv sorted_wrt_append)
  moreover have "filter (\<lambda>y. log_key y \<le> log_key x) suf = suf"
    using desc by (auto simp: filter_id_conv sorted_wrt_append)
  ultimately show ?thesis by (simp add: from_cursor_def)
qed

lemma log_rows_from:
  assumes "distinct (map ord_id table)"
    and rows: "rev (orderBy log_key (filter (in_days ven days t) table)) = pre @ suf"
    and cursor: "cursor = (if pre = [] then None else Some (ord_id (last pre)))"
  shows "log_rows ven days t cursor n table = take n suf"
proof (cases "pre = []")
  case True
  then show ?thesis using rows cursor by (simp add: log_rows_def from_cursor_def)
next
  case False
  then have "rev (orderBy log_key (filter (in_days ven days t) table)) = butlast pre @ last pre # suf"
    using rows by simp
  then show ?thesis using from_cursor_resumes[OF assms(1)] False cursor by (simp add: log_rows_def)
qed

lemma walk_pages_from:
  assumes ids: "distinct (map ord_id table)" and limit: "0 < limit"
    and rows: "rev (orderBy log_key (filter (in_days ven days t) table)) = pre @ suf"
    and cursor: "cursor = (if pre = [] then None else Some (ord_id (last pre)))"
    and fuel: "length suf < fuel"
  shows "walk_pages fuel ven days t limit cursor table = Some suf"
  using rows cursor fuel
proof (induction fuel arbitrary: pre suf cursor)
  case (Suc fuel)
  have page: "log_rows ven days t cursor (Suc limit) table = take (Suc limit) suf"
    by (rule log_rows_from[OF ids Suc.prems(1,2)])
  show ?case
  proof (cases "length suf \<le> limit")
    case True
    then show ?thesis by (simp add: page splitPage_def)
  next
    case False
    let ?items = "take limit suf"
    have ne: "?items \<noteq> []" using False limit by auto
    have "walk_pages fuel ven days t limit (Some (ord_id (last ?items))) table = Some (drop limit suf)"
    proof (rule Suc.IH)
      show "rev (orderBy log_key (filter (in_days ven days t) table)) = (pre @ ?items) @ drop limit suf"
        using Suc.prems(1) by simp
      show "Some (ord_id (last ?items)) = (if pre @ ?items = [] then None else Some (ord_id (last (pre @ ?items))))"
        using ne by simp
      show "length (drop limit suf) < fuel" using Suc.prems(3) limit False by simp
    qed
    moreover have "splitPage ord_id (take (Suc limit) suf) limit = Some (?items, Some (ord_id (last ?items)))"
      using False ne by (simp add: splitPage_def Let_def take_take min_def)
    ultimately show ?thesis by (simp add: page)
  qed
qed simp

text \<open>
  following the pages shows every order exactly once. With a page size of at least one row, the
  client that follows the cursors over a table that does not change reaches a last page, and the
  pages together are the whole log of the period, newest first, without gap or repetition, also
  where several orders share a timestamp.
\<close>

theorem pages_cover_the_log:
  assumes "distinct (map ord_id table)" and "0 < limit"
  shows "walk_pages (Suc (length table)) ven days t limit None table =
    Some (rev (orderBy log_key (filter (in_days ven days t) table)))"
proof (rule walk_pages_from[where pre = "[]"])
  show "length (rev (orderBy log_key (filter (in_days ven days t) table))) < Suc (length table)"
    by (simp add: le_imp_less_Suc)
qed (use assms in simp_all)

theorem pages_cover_the_log_witness:
  "walk_pages 3 ''v1'' 7 120000 1 None (orders sample) =
   Some (rev (orderBy log_key (filter (in_days ''v1'' 7 120000) (orders sample))))"
proof -
  have "distinct (map ord_id (orders sample))" "length (orders sample) = 2" by (simp_all add: sample_defs)
  then show ?thesis using pages_cover_the_log[of "orders sample" 1 "''v1''" 7 120000]
    by (simp add: numeral_3_eq_3 numeral_2_eq_2 del: walk_pages.simps)
qed

end
