(* ===== verification/Ticket.thy ===== *)
theory Ticket
  imports Qr
begin

section \<open>Money and the kitchen ticket\<close>

text \<open>
  \<open>src/lib/money.ts\<close>, \<open>src/lib/pos/types.ts\<close> and \<open>src/lib/pos/ticket.ts\<close>. The two locale
  functions whose tables are not under \<open>src\<close> are parameters (\<open>toUpperCase\<close> and the \<open>tr-TR\<close>
  clock); the \<open>tr-TR\<close> number format the code asks for is written out: groups of three separated
  by dots, a decimal comma. Bytes are natural numbers below 256.
\<close>

subsection \<open>Amounts\<close>

function group3 :: "jstr \<Rightarrow> jstr" where
  "group3 ds = (if length ds \<le> 3 then ds
     else group3 (take (length ds - 3) ds) @ 46 # drop (length ds - 3) ds)"
  by auto
termination by (relation "measure length") auto

declare group3.simps [simp del]

definition two_digits :: "nat \<Rightarrow> jstr" where
  "two_digits n = [48 + n div 10, 48 + n mod 10]"

definition formatKurus :: "int \<Rightarrow> string \<Rightarrow> jstr" where
  "formatKurus kurus currency =
     (let symbol = (if currency = ''TRY'' then [8378] else lit currency @ lit '' '');
          a = nat (abs kurus)
      in symbol @ (if kurus < 0 then [45] else []) @ group3 (show_nat (a div 100)) @
         (if kurus mod 100 = 0 then [] else 44 # two_digits (a mod 100)))"

subsection \<open>The ticket\<close>

record ticket_line =
  tl_qty :: int
  tl_name :: jstr
  tl_modifiers :: "jstr list"
  tl_note :: jstr
  tl_unitPriceKurus :: int

record amendment =
  am_changes :: "(jstr \<times> int \<times> int) list"
  am_byStaff :: jstr

record ticket =
  tk_venueName :: jstr
  tk_currency :: string
  tk_tableName :: jstr
  tk_orderNumber :: int
  tk_createdAt :: time
  tk_lines :: "ticket_line list"
  tk_totalKurus :: int
  tk_amendment :: "amendment option"

record locale_fns =
  lf_toUpperCase :: "jstr \<Rightarrow> jstr"
  lf_clock :: "time \<Rightarrow> jstr"

definition center :: "jstr \<Rightarrow> nat \<Rightarrow> jstr" where
  "center s w = (if length s \<ge> w then s else replicate ((w - length s) div 2) 32 @ s)"

definition padEnd :: "nat \<Rightarrow> jstr \<Rightarrow> jstr" where
  "padEnd n s = s @ replicate (n - length s) 32"

definition padStart :: "nat \<Rightarrow> jstr \<Rightarrow> jstr" where
  "padStart n s = replicate (n - length s) 32 @ s"

definition line_texts :: "ticket_line \<Rightarrow> jstr list" where
  "line_texts l = (show_int (tl_qty l) @ lit '' x '' @ tl_name l) #
     map (\<lambda>m. lit ''   + '' @ m) (tl_modifiers l) @
     (if tl_note l \<noteq> [] then [lit ''   ! '' @ tl_note l] else [])"

definition change_text :: "jstr \<times> int \<times> int \<Rightarrow> jstr" where
  "change_text c = (case c of (name, fromQty, toQty) \<Rightarrow>
     if toQty = 0 then lit ''  IPTAL/VOID  '' @ name
     else lit ''  '' @ show_int fromQty @ lit '' -> '' @ show_int toQty @ lit ''   '' @ name)"

definition ticket_rows :: "locale_fns \<Rightarrow> ticket \<Rightarrow> jstr list" where
  "ticket_rows lf t =
     (let W = 32; sep = replicate W 45; stars = replicate W 42 in
      (case tk_amendment t of None \<Rightarrow> []
        | Some a \<Rightarrow> [stars, center (lit ''DUZELTME / AMENDED'') W, stars]) @
      [center (lf_toUpperCase lf (tk_venueName t)) W,
       center (lit ''*** '' @ tk_tableName t @ lit '' ***'') W,
       padEnd (W - 5) (lit ''Siparis #'' @ show_int (tk_orderNumber t)) @ lf_clock lf (tk_createdAt t),
       sep] @
      concat (map line_texts (tk_lines t)) @
      (case tk_amendment t of None \<Rightarrow> []
        | Some a \<Rightarrow> [sep, lit ''DEGISIKLIK / CHANGES:''] @ map change_text (am_changes a) @
            [lit ''  ('' @ am_byStaff a @ lit '')'']) @
      [sep,
       padStart W (lit ''TOPLAM: '' @ formatKurus (tk_totalKurus t) (tk_currency t)),
       center (lit ''Odeme kasada / Pay at till'') W])"

definition renderTicketText :: "locale_fns \<Rightarrow> ticket \<Rightarrow> jstr" where
  "renderTicketText lf t = join_with [10] (ticket_rows lf t)"

subsection \<open>Code page 857\<close>

definition PC857 :: "(nat \<times> nat) list" where
  "PC857 = [(0xe7, 0x87), (0xc7, 0x80), (0xfc, 0x81), (0xdc, 0x9a), (0xf6, 0x94), (0xd6, 0x99),
     (0x131, 0x8d), (0x130, 0x98), (0x15f, 0x9f), (0x15e, 0x9e), (0x11f, 0xa7), (0x11e, 0xa6),
     (0xe2, 0x83), (0xc2, 0xb6), (0xee, 0x8c), (0xce, 0xd7), (0xfb, 0x96), (0xdb, 0xea)]"

definition ASCII_FALLBACK :: "(nat \<times> string) list" where
  "ASCII_FALLBACK = [(0x20ba, ''TL''), (0x2019, [CHR 0x27]), (0x2018, [CHR 0x27]), (0x201c, [CHR 0x22]),
     (0x201d, [CHR 0x22]), (0x2013, ''-''), (0x2014, ''-''), (0x2026, ''...'')]"

definition encode_char :: "nat \<Rightarrow> nat list" where
  "encode_char c = (case map_of ASCII_FALLBACK c of
      Some f \<Rightarrow> lit f
    | None \<Rightarrow> (case map_of PC857 c of
        Some b \<Rightarrow> [b]
      | None \<Rightarrow> [if 0x20 \<le> c \<and> c \<le> 0x7e then c else 0x3f]))"

text \<open>The loop runs over code points: a surrogate pair is one character, outside every table.\<close>

fun encodePc857 :: "jstr \<Rightarrow> nat list" where
  "encodePc857 [] = []"
| "encodePc857 (c # cs) =
     (case cs of
        d # ds \<Rightarrow> if is_high c \<and> is_low d then 0x3f # encodePc857 ds else encode_char c @ encodePc857 cs
      | [] \<Rightarrow> encode_char c)"

subsection \<open>The byte stream\<close>

definition escpos_bytes :: "locale_fns \<Rightarrow> ticket \<Rightarrow> nat list" where
  "escpos_bytes lf t =
     [0x1b, 0x40] @ [0x1b, 0x74, 0x0d] @ [0x1b, 0x61, 0x01] @ [0x1d, 0x21, 0x11] @
     encodePc857 (tk_tableName t @ [10]) @ [0x1d, 0x21, 0x00] @
     encodePc857 (tk_venueName t @ [10]) @ [0x1b, 0x61, 0x00] @
     encodePc857 (renderTicketText lf t @ [10, 10]) @ [0x1d, 0x56, 0x42, 0x03]"

definition b64_char :: "nat \<Rightarrow> nat" where
  "b64_char n = (if n < 26 then 65 + n else if n < 52 then 71 + n else if n < 62 then n - 4
     else if n = 62 then 43 else 47)"

fun base64 :: "nat list \<Rightarrow> jstr" where
  "base64 (a # b # c # bs) = b64_char (a div 4) # b64_char (a mod 4 * 16 + b div 16) #
     b64_char (b mod 16 * 4 + c div 64) # b64_char (c mod 64) # base64 bs"
| "base64 [a, b] = [b64_char (a div 4), b64_char (a mod 4 * 16 + b div 16), b64_char (b mod 16 * 4), 61]"
| "base64 [a] = [b64_char (a div 4), b64_char (a mod 4 * 16), 61, 61]"
| "base64 [] = []"

definition renderEscPos :: "locale_fns \<Rightarrow> ticket \<Rightarrow> jstr" where
  "renderEscPos lf t = base64 (escpos_bytes lf t)"

subsection \<open>What reaches the printer\<close>

definition printable :: "nat \<Rightarrow> bool" where
  "printable b \<longleftrightarrow> 0x20 \<le> b \<and> b < 256 \<and> b \<noteq> 0x7f"

lemma encode_char_printable: "\<forall>b \<in> set (encode_char c). printable b"
proof -
  have f: "\<forall>(k, s) \<in> set ASCII_FALLBACK. \<forall>b \<in> set (lit s). printable b"
    by (simp add: ASCII_FALLBACK_def printable_def lit_def)
  have p: "\<forall>(k, b) \<in> set PC857. printable b" by (simp add: PC857_def printable_def)
  show ?thesis
    using f p by (auto simp: encode_char_def printable_def split: option.split dest!: map_of_SomeD)
qed

lemma encodePc857_printable: "\<forall>b \<in> set (encodePc857 s). printable b"
proof (induction s rule: encodePc857.induct)
  case (2 c cs)
  then show ?case
    using encode_char_printable[of c] by (cases cs) (auto simp: printable_def)
qed simp

text \<open>
  nothing a customer types can command the printer. Of the bytes of a ticket only the fixed
  ESC/POS sequences are control codes: table name, venue name and the whole text, item notes
  included, are printable bytes.
\<close>

theorem ticket_text_cannot_command_printer:
  "\<exists>a b c. escpos_bytes lf t =
     [0x1b, 0x40, 0x1b, 0x74, 0x0d, 0x1b, 0x61, 0x01, 0x1d, 0x21, 0x11] @ a @ [0x1d, 0x21, 0x00] @ b @
     [0x1b, 0x61, 0x00] @ c @ [0x1d, 0x56, 0x42, 0x03] \<and>
     list_all printable (a @ b @ c)"
  by (intro exI[of _ "encodePc857 (tk_tableName t @ [10])"] exI[of _ "encodePc857 (tk_venueName t @ [10])"]
      exI[of _ "encodePc857 (renderTicketText lf t @ [10, 10])"])
    (use encodePc857_printable in \<open>auto simp: escpos_bytes_def list_all_iff\<close>)

text \<open>
  no line feed reaches the printer. The encoder turns the newline of every line into a
  question mark, so the byte stream of a ticket contains no line feed at all, although its text
  has one after every row.
\<close>

theorem ticket_has_no_line_feed:
  "10 \<notin> set (escpos_bytes lf t) \<and> encodePc857 [10] = [0x3f] \<and> 10 \<in> set (renderTicketText lf t)"
proof -
  have p: "10 \<notin> set (encodePc857 s)" for s
    using encodePc857_printable[of s] by (auto simp: printable_def)
  have "10 \<in> set (join_with [10] (x # y # ys))" for x y and ys :: "jstr list" by simp
  moreover have "\<exists>x y ys. ticket_rows lf t = x # y # ys"
    by (simp add: ticket_rows_def Let_def split: option.split)
  ultimately have "10 \<in> set (renderTicketText lf t)"
    unfolding renderTicketText_def by metis
  moreover have "encodePc857 [10] = [0x3f]"
    by (simp add: encode_char_def ASCII_FALLBACK_def PC857_def)
  ultimately show ?thesis using p by (simp add: escpos_bytes_def)
qed

subsection \<open>A printed amount is unambiguous\<close>

lemma group3_digits: "46 \<notin> set ds \<Longrightarrow> filter (\<lambda>c. c \<noteq> 46) (group3 ds) = ds"
proof (induction ds rule: group3.induct)
  case (1 ds)
  have id: "filter (\<lambda>c. c \<noteq> 46) xs = xs" if "set xs \<subseteq> set ds" for xs
    using that 1(2) by (auto simp: filter_id_conv)
  show ?case
  proof (cases "length ds \<le> 3")
    case True
    then show ?thesis by (subst group3.simps) (simp add: id)
  next
    case False
    have "46 \<notin> set (take (length ds - 3) ds)" using 1(2) in_set_takeD by fast
    then show ?thesis
      using False 1(1)[OF False] id[of "drop (length ds - 3) ds"]
      by (subst group3.simps) (simp add: set_drop_subset)
  qed
qed

definition amount_key :: "int \<Rightarrow> jstr" where
  "amount_key k = (if k < 0 then [45] else []) @ show_nat (nat (abs k) div 100) @
     (if k mod 100 = 0 then [] else 44 # two_digits (nat (abs k) mod 100))"

lemma show_nat_no: "c < 48 \<Longrightarrow> c \<notin> set (show_nat n)"
  using show_nat_digits[of n] by fastforce

lemma show_nat_ne: "show_nat n \<noteq> []"
  by (subst show_nat.simps) simp

lemma amount_key_of_print:
  "formatKurus k cur = formatKurus k' cur \<Longrightarrow> amount_key k = amount_key k'"
proof -
  assume eq: "formatKurus k cur = formatKurus k' cur"
  let ?body = "\<lambda>k. (if k < 0 then [45] else []) @ group3 (show_nat (nat (abs k) div 100)) @
     (if k mod 100 = 0 then [] else 44 # two_digits (nat (abs k) mod 100))"
  have "?body k = ?body k'" using eq by (simp add: formatKurus_def Let_def)
  then have "filter (\<lambda>c. c \<noteq> 46) (?body k) = filter (\<lambda>c. c \<noteq> 46) (?body k')" by (rule arg_cong)
  moreover have "filter (\<lambda>c. c \<noteq> 46) (?body k) = amount_key k" for k
    using show_nat_no[of 46] group3_digits[of "show_nat (nat (abs k) div 100)"]
    by (simp add: amount_key_def two_digits_def)
  ultimately show ?thesis by simp
qed

lemma two_digits_inj: "m < 100 \<Longrightarrow> n < 100 \<Longrightarrow> two_digits m = two_digits n \<longleftrightarrow> m = n"
  by (auto simp: two_digits_def) (metis div_mult_mod_eq)

lemma amount_key_inj: "amount_key k = amount_key k' \<Longrightarrow> k = k'"
proof -
  assume eq: "amount_key k = amount_key k'"
  let ?w = "\<lambda>k. show_nat (nat (abs k) div 100)"
  let ?f = "\<lambda>k. if k mod 100 = 0 then [] else 44 # two_digits (nat (abs k) mod 100)"
  have hd: "hd (?w k @ xs) \<noteq> 45" for k and xs :: jstr
    using show_nat_digits[of "nat (abs k) div 100"] show_nat_ne[of "nat (abs k) div 100"]
    by (cases "?w k") auto
  have pos: "amount_key k = ?w k @ ?f k \<and> hd (amount_key k) \<noteq> 45" if "\<not> k < 0" for k
    using that hd[of k "?f k"] unfolding amount_key_def by simp
  have neg: "amount_key k = 45 # ?w k @ ?f k" if "k < 0" for k
    using that unfolding amount_key_def by simp
  have sign: "k < 0 \<longleftrightarrow> k' < 0"
    using eq pos[of k] pos[of k'] neg[of k] neg[of k'] by (metis list.sel(1))
  have body: "?w k @ ?f k = ?w k' @ ?f k'"
    using eq pos[of k] pos[of k'] neg[of k] neg[of k'] sign by (metis list.sel(3))
  have no: "44 \<notin> set (?w k)" for k using show_nat_no[of 44] by simp
  have frac: "k mod 100 = 0 \<longleftrightarrow> k' mod 100 = 0"
    using arg_cong[OF body, of "\<lambda>xs. 44 \<in> set xs"] no by (auto split: if_splits)
  have "nat (abs k) div 100 = nat (abs k') div 100 \<and> nat (abs k) mod 100 = nat (abs k') mod 100"
  proof (cases "k mod 100 = 0")
    case True
    have "nat (abs m) mod 100 = 0" if "m mod 100 = 0" for m :: int
      using that by (auto simp: nat_abs_mult_distrib elim!: dvdE simp flip: dvd_eq_mod_eq_0)
    then have "nat (abs k) mod 100 = 0" "nat (abs k') mod 100 = 0" using frac True by simp_all
    then show ?thesis using body True frac by simp
  next
    case False
    then have "?w k @ 44 # two_digits (nat (abs k) mod 100) = ?w k' @ 44 # two_digits (nat (abs k') mod 100)"
      using body frac by simp
    from append_sep_inj[OF no no this] show ?thesis by (simp add: two_digits_inj)
  qed
  then have "nat (abs k) = nat (abs k')" by (metis div_mult_mod_eq)
  then show ?thesis using sign by linarith
qed

text \<open>
  an amount on a ticket can be read back. Two amounts print alike in the same currency only
  if they are the same number of kurus: grouping and the omitted decimals lose nothing.
\<close>

theorem printed_amount_determines_kurus:
  "formatKurus k cur = formatKurus k' cur \<longleftrightarrow> k = k'"
  using amount_key_of_print amount_key_inj by blast

end
