(* ===== verification/Export.thy ===== *)
theory Export
  imports Reporting Ticket
begin

section \<open>The CSV export\<close>

text \<open>
  \<open>src/app/api/admin/orders/export/route.ts\<close>, with the parts of the JavaScript library it
  formats with: \<open>Date.prototype.toISOString\<close> (the proleptic Gregorian calendar, for years 0 to
  9999) and \<open>(kurus / 100).toFixed(2)\<close>. What a spreadsheet reads back is \<open>csv_parse\<close>, a
  reader for RFC 4180.
\<close>

subsection \<open>Formatting\<close>

definition digits :: "nat \<Rightarrow> nat \<Rightarrow> jstr" where
  "digits w n = replicate (w - length (show_nat n)) 48 @ show_nat n"

text \<open>Year, month and day of a number of days since 1970-01-01.\<close>

definition civil :: "int \<Rightarrow> int \<times> int \<times> int" where
  "civil z0 =
     (let z = z0 + 719468;
          era = z div 146097;
          doe = z mod 146097;
          yoe = (doe - doe div 1460 + doe div 36524 - doe div 146096) div 365;
          doy = doe - (365 * yoe + yoe div 4 - yoe div 100);
          mp = (5 * doy + 2) div 153;
          d = doy - (153 * mp + 2) div 5 + 1;
          m = (if mp < 10 then mp + 3 else mp - 9)
      in (yoe + era * 400 + (if m \<le> 2 then 1 else 0), m, d))"

definition toISOString :: "time \<Rightarrow> jstr" where
  "toISOString t =
     (let (y, m, d) = civil (t div 86400000);
          ms = t mod 86400000
      in digits 4 (nat y) @ 45 # digits 2 (nat m) @ 45 # digits 2 (nat d) @ 84 #
         digits 2 (nat (ms div 3600000)) @ 58 # digits 2 (nat (ms div 60000 mod 60)) @ 58 #
         digits 2 (nat (ms div 1000 mod 60)) @ 46 # digits 3 (nat (ms mod 1000)) @ [90])"

definition toFixed2 :: "int \<Rightarrow> jstr" where
  "toFixed2 kurus = (if kurus < 0 then [45] else []) @ show_nat (nat \<bar>kurus\<bar> div 100) @ 46 #
     two_digits (nat \<bar>kurus\<bar> mod 100)"

subsection \<open>Cells\<close>

text \<open>A cell is written as it is, or quoted by \<open>esc\<close>.\<close>

datatype cell = Plain jstr | Quoted jstr

definition formula_trigger :: "nat \<Rightarrow> bool" where
  "formula_trigger c \<longleftrightarrow> c \<in> {61, 43, 45, 64, 9, 13}"

definition safe_text :: "jstr \<Rightarrow> jstr" where
  "safe_text s = (case s of [] \<Rightarrow> [] | c # _ \<Rightarrow> if formula_trigger c then 39 # s else s)"

definition double_quotes :: "jstr \<Rightarrow> jstr" where
  "double_quotes s = concat (map (\<lambda>c. if c = 34 then [34, 34] else [c]) s)"

definition esc :: "jstr \<Rightarrow> jstr" where
  "esc s = 34 # double_quotes (safe_text s) @ [34]"

fun write_cell :: "cell \<Rightarrow> jstr" where
  "write_cell (Plain s) = s"
| "write_cell (Quoted s) = esc s"

fun payment_label :: "payment_status \<Rightarrow> string" where
  "payment_label Unpaid = ''unpaid''"
| "payment_label Paid = ''paid''"

fun method_label :: "payment_method \<Rightarrow> string" where
  "method_label Cash = ''cash''"
| "method_label Card = ''card''"

fun reason_label :: "closed_reason \<Rightarrow> string" where
  "reason_label Settled = ''settled''"
| "reason_label Abandoned = ''abandoned''"

definition header_cells :: "cell list" where
  "header_cells = map (\<lambda>h. Plain (lit h)) [''order_number'', ''created_at'', ''table'', ''status'',
     ''reject_reason'', ''item'', ''qty'', ''unit_price_try'', ''line_total_try'', ''note'', ''modifiers'',
     ''order_total_try'', ''payment_status'', ''payment_method'', ''visit_outcome'']"

definition row_cells :: "server \<Rightarrow> order \<Rightarrow> order_item \<Rightarrow> cell list" where
  "row_cells s o' i =
     [Plain (show_int (ord_number o')), Plain (toISOString (ord_createdAt o')),
      Quoted (lo_tableName (log_order_of s o')), Plain (lit (status_label (ord_status o'))),
      Quoted (case ord_rejectReason o' of None \<Rightarrow> [] | Some r \<Rightarrow> r), Quoted (oi_nameSnapshot i),
      Plain (show_int (oi_qty i)), Plain (toFixed2 (oi_unitPriceKurus i)),
      Plain (toFixed2 (oi_unitPriceKurus i * oi_qty i)), Quoted (oi_note i),
      Quoted (join_with (lit ''; '') (map cm_name (oi_modifiers i))), Plain (toFixed2 (ord_totalKurus o')),
      Plain (lit (payment_label (ord_paymentStatus o'))),
      Plain (case visit_of_order o' s of None \<Rightarrow> [] | Some v \<Rightarrow>
        (case tv_paymentMethod v of None \<Rightarrow> [] | Some m \<Rightarrow> lit (method_label m))),
      Plain (case visit_of_order o' s of None \<Rightarrow> [] | Some v \<Rightarrow>
        (case tv_closedReason v of None \<Rightarrow> [] | Some r \<Rightarrow> lit (reason_label r)))]"

definition export_cells :: "id \<Rightarrow> rat \<Rightarrow> server \<Rightarrow> cell list list" where
  "export_cells venueId days s = header_cells # concat (map (\<lambda>o'. map (row_cells s o') (ord_items o'))
     (orderBy ord_createdAt (filter (in_days venueId days (now s)) (orders s))))"

definition csv_text :: "cell list list \<Rightarrow> jstr" where
  "csv_text rows = join_with [10] (map (\<lambda>cs. join_with [44] (map write_cell cs)) rows)"

text \<open>The body and the number of days in the file name.\<close>

definition GET_export ::
  "platform \<Rightarrow> js_number \<Rightarrow> string option \<Rightarrow> server \<Rightarrow> (jstr \<times> rat) response \<times> server" where
  "GET_export pf rawDays cookie s =
     (case requireStaff pf Admin cookie s of
        (None, s1) \<Rightarrow> (Fail 401 ''unauthorized'' [], s1)
      | (Some staff, s1) \<Rightarrow>
          (let days = days_of rawDays 30
           in (Ok (csv_text (export_cells (sc_venueId staff) days s1), days), s1)))"

subsection \<open>A spreadsheet's reader\<close>

text \<open>
  Whether the reader is inside quotes, the cell read so far, the cells of the row and the rows.
  A doubled quote inside quotes is one quote; a quote opens a quoted cell only at its start.
\<close>

fun csv_parse :: "bool \<Rightarrow> jstr \<Rightarrow> jstr list \<Rightarrow> jstr list list \<Rightarrow> jstr \<Rightarrow> jstr list list" where
  "csv_parse q cur row rows [] = rows @ [row @ [cur]]"
| "csv_parse True cur row rows (c # cs) =
     (if c = 34 then
        (case cs of
           d # ds \<Rightarrow> if d = 34 then csv_parse True (cur @ [34]) row rows ds else csv_parse False cur row rows cs
         | [] \<Rightarrow> csv_parse False cur row rows [])
      else csv_parse True (cur @ [c]) row rows cs)"
| "csv_parse False cur row rows (c # cs) =
     (if c = 44 then csv_parse False [] (row @ [cur]) rows cs
      else if c = 10 then csv_parse False [] [] (rows @ [row @ [cur]]) cs
      else if c = 34 \<and> cur = [] then csv_parse True [] row rows cs
      else csv_parse False (cur @ [c]) row rows cs)"

definition csv_read :: "jstr \<Rightarrow> jstr list list" where
  "csv_read text = csv_parse False [] [] [] text"

text \<open>What the reader shows for a cell.\<close>

fun shown :: "cell \<Rightarrow> jstr" where
  "shown (Plain s) = s"
| "shown (Quoted s) = safe_text s"

fun plain_ok :: "cell \<Rightarrow> bool" where
  "plain_ok (Plain s) \<longleftrightarrow> set s \<inter> {10, 34, 44} = {}"
| "plain_ok (Quoted _) \<longleftrightarrow> True"

lemma parse_plain:
  "set s \<inter> {10, 34, 44} = {} \<Longrightarrow> csv_parse False cur row rows (s @ cs) = csv_parse False (cur @ s) row rows cs"
  by (induction s arbitrary: cur) auto

lemma parse_quoted:
  "csv_parse True cur row rows (double_quotes s @ 34 # cs) =
   (if cs \<noteq> [] \<and> hd cs = 34 then csv_parse True (cur @ s @ [34]) row rows (tl cs)
    else csv_parse False (cur @ s) row rows cs)"
  by (induction s arbitrary: cur) (auto simp: double_quotes_def split: list.split)

lemma parse_cell:
  assumes "plain_ok x" and "cs = [] \<or> hd cs \<noteq> 34"
  shows "csv_parse False [] row rows (write_cell x @ cs) = csv_parse False (shown x) row rows cs"
  using assms parse_quoted[of "[]" row rows _ cs] parse_plain[of _ "[]" row rows cs]
  by (cases x) (auto simp: esc_def)

lemma parse_row:
  assumes "list_all plain_ok xs" "xs \<noteq> []" "cs = [] \<or> hd cs = 10"
  shows "csv_parse False [] row rows (join_with [44] (map write_cell xs) @ cs) =
    (case cs of [] \<Rightarrow> rows @ [row @ map shown xs]
     | _ # ds \<Rightarrow> csv_parse False [] [] (rows @ [row @ map shown xs]) ds)"
  using assms
proof (induction xs arbitrary: row)
  case (Cons x xs)
  show ?case
  proof (cases xs)
    case Nil
    then show ?thesis
      using Cons.prems parse_cell[of x cs row rows] by (auto split: list.split)
  next
    case (Cons y ys)
    then have "csv_parse False [] row rows (write_cell x @ 44 # join_with [44] (map write_cell xs) @ cs) =
        csv_parse False [] (row @ [shown x]) rows (join_with [44] (map write_cell xs) @ cs)"
      using Cons.prems parse_cell[of x "44 # join_with [44] (map write_cell xs) @ cs" row rows] by simp
    then show ?thesis using Cons.IH[of "row @ [shown x]"] Cons.prems \<open>xs = y # ys\<close>
      by (auto split: list.split)
  qed
qed simp

lemma csv_read_text:
  assumes "list_all (\<lambda>xs. xs \<noteq> [] \<and> list_all plain_ok xs) rows" "rows \<noteq> []"
  shows "csv_parse False [] [] done_rows (csv_text rows) = done_rows @ map (map shown) rows"
  using assms
proof (induction rows arbitrary: done_rows)
  case (Cons xs rows)
  show ?case
  proof (cases rows)
    case Nil
    then show ?thesis
      using Cons.prems parse_row[of xs "[]" "[]" done_rows] by (simp add: csv_text_def)
  next
    case (Cons ys more)
    have "csv_text (xs # rows) = join_with [44] (map write_cell xs) @ 10 # csv_text rows"
      using Cons by (simp add: csv_text_def)
    then show ?thesis
      using Cons.prems Cons.IH[of "done_rows @ [map shown xs]"] Cons
        parse_row[of xs "10 # csv_text rows" "[]" done_rows] by simp
  qed
qed simp

subsection \<open>The export reads back\<close>

definition harmless :: "nat \<Rightarrow> bool" where
  "harmless c \<longleftrightarrow> 44 < c"

lemma harmless_digits: "\<forall>c \<in> set (digits w n). harmless c"
  using show_nat_digits[of n] by (auto simp: digits_def harmless_def)

lemma harmless_iso: "\<forall>c \<in> set (toISOString t). harmless c"
  using harmless_digits by (auto simp: toISOString_def Let_def harmless_def split: prod.splits)

lemma harmless_fixed: "\<forall>c \<in> set (toFixed2 k). harmless c"
  using show_nat_digits[of "nat \<bar>k\<bar> div 100"] by (auto simp: toFixed2_def two_digits_def harmless_def)

lemma harmless_int: "\<forall>c \<in> set (show_int n). harmless c"
  using show_nat_digits[of "nat n"] show_nat_digits[of "nat (- n)"] by (auto simp: show_int_def harmless_def)

lemma harmless_ok: "\<forall>c \<in> set s. harmless c \<Longrightarrow> plain_ok (Plain s)"
  by (auto simp: harmless_def)

lemma labels_ok:
  "plain_ok (Plain (lit (status_label st)))" "plain_ok (Plain (lit (payment_label ps)))"
  "plain_ok (Plain (lit (method_label m)))" "plain_ok (Plain (lit (reason_label r)))"
proof -
  show "plain_ok (Plain (lit (status_label st)))" by (cases st) (simp_all add: lit_def)
  show "plain_ok (Plain (lit (payment_label ps)))" by (cases ps) (simp_all add: lit_def)
  show "plain_ok (Plain (lit (method_label m)))" by (cases m) (simp_all add: lit_def)
  show "plain_ok (Plain (lit (reason_label r)))" by (cases r) (simp_all add: lit_def)
qed

lemma row_cells_ok: "list_all plain_ok (row_cells s o' i)"
proof -
  have num: "plain_ok (Plain (show_int n))" "plain_ok (Plain (toFixed2 n))" "plain_ok (Plain (toISOString n))" for n
    using harmless_int harmless_fixed harmless_iso by (blast intro: harmless_ok)+
  have lab: "plain_ok (Plain (case v of None \<Rightarrow> [] | Some v \<Rightarrow> (case tv_paymentMethod v of None \<Rightarrow> []
      | Some m \<Rightarrow> lit (method_label m))))"
    "plain_ok (Plain (case v of None \<Rightarrow> [] | Some v \<Rightarrow> (case tv_closedReason v of None \<Rightarrow> []
      | Some r \<Rightarrow> lit (reason_label r))))" for v
    using labels_ok(3,4) by (auto split: option.split)
  show ?thesis
    unfolding row_cells_def
    by (simp only: list.pred_inject num lab labels_ok(1,2) plain_ok.simps(2) simp_thms)
qed

lemma safe_text_harmless: "safe_text s = [] \<or> \<not> formula_trigger (hd (safe_text s))"
  by (cases s) (auto simp: safe_text_def formula_trigger_def)



end
