(* ===== verification/Env.thy ===== *)
theory Env
  imports RateLimit Qr Ticket
begin

section \<open>The environment, the page policy and the origin check\<close>

text \<open>
  \<open>src/lib/env.ts\<close>, \<open>src/proxy.ts\<close> and \<open>src/lib/devOrigin.ts\<close>. \<open>process.env\<close> is a map from
  names to strings; the module variable \<open>cached\<close> is threaded through \<open>getEnv\<close>. The texts the
  schema gives its checks are kept; the two checks whose text is the library's own (a missing
  variable, a value outside the enumeration) are the constructor \<open>Builtin\<close>. The host name of a
  URL and the network interfaces are arguments.
\<close>

subsection \<open>Validation\<close>

type_synonym process_env = "string \<Rightarrow> jstr option"

datatype zod_message = Builtin | Own string

record env =
  ev_authSecret :: jstr
  ev_databaseUrl :: jstr
  ev_cronSecret :: jstr
  ev_baseUrl :: jstr
  ev_uploadDir :: jstr
  ev_trustProxy :: jstr

definition starts_with :: "jstr \<Rightarrow> jstr \<Rightarrow> bool" where
  "starts_with p s \<longleftrightarrow> take (length p) s = p"

definition is_http :: "jstr \<Rightarrow> bool" where
  "is_http s \<longleftrightarrow> starts_with (lit ''http://'') s \<or> starts_with (lit ''https://'') s"

definition DEFAULT_UPLOADS :: jstr where
  "DEFAULT_UPLOADS = lit ''/var/lib/masadan/uploads''"

text \<open>One field of the schema: the value after its default, and what is wrong with it.\<close>

definition check_field :: "jstr option \<Rightarrow> (jstr \<Rightarrow> bool) \<Rightarrow> zod_message \<Rightarrow> zod_message option" where
  "check_field v p msg =
     (case v of None \<Rightarrow> Some Builtin | Some s \<Rightarrow> if p s then None else Some msg)"

definition with_default :: "jstr \<Rightarrow> jstr option \<Rightarrow> jstr option" where
  "with_default d v = (case v of None \<Rightarrow> Some d | Some s \<Rightarrow> Some s)"

definition env_checks :: "process_env \<Rightarrow> (string \<times> zod_message option) list" where
  "env_checks p =
     [(''AUTH_SECRET'', check_field (p ''AUTH_SECRET'') (\<lambda>s. 32 \<le> length s)
        (Own ''must be at least 32 characters'')),
      (''DATABASE_URL'', check_field (p ''DATABASE_URL'') (starts_with (lit ''postgres''))
        (Own ''must be a Postgres connection string'')),
      (''CRON_SECRET'', check_field (p ''CRON_SECRET'') (\<lambda>s. 16 \<le> length s)
        (Own ''must be at least 16 characters'')),
      (''NEXT_PUBLIC_BASE_URL'', check_field (p ''NEXT_PUBLIC_BASE_URL'') is_http
        (Own ''must be an absolute http(s) origin'')),
      (''UPLOAD_DIR'', check_field (with_default DEFAULT_UPLOADS (p ''UPLOAD_DIR'')) (\<lambda>s. 1 \<le> length s)
        Builtin),
      (''TRUST_PROXY'', check_field (with_default (lit ''0'') (p ''TRUST_PROXY''))
        (\<lambda>s. s = lit ''0'' \<or> s = lit ''1'') Builtin)]"

definition env_issues :: "process_env \<Rightarrow> (string \<times> zod_message) list" where
  "env_issues p = concat (map (\<lambda>(n, m). case m of None \<Rightarrow> [] | Some i \<Rightarrow> [(n, i)]) (env_checks p))"

definition parsed_env :: "process_env \<Rightarrow> env" where
  "parsed_env p = \<lparr>ev_authSecret = the (p ''AUTH_SECRET''), ev_databaseUrl = the (p ''DATABASE_URL''),
     ev_cronSecret = the (p ''CRON_SECRET''), ev_baseUrl = the (p ''NEXT_PUBLIC_BASE_URL''),
     ev_uploadDir = the (with_default DEFAULT_UPLOADS (p ''UPLOAD_DIR'')),
     ev_trustProxy = the (with_default (lit ''0'') (p ''TRUST_PROXY''))\<rparr>"

definition getEnv ::
  "process_env \<Rightarrow> env option \<Rightarrow> ((string \<times> zod_message) list, env) outcome \<times> env option" where
  "getEnv p cached =
     (case cached of
        Some e \<Rightarrow> (Done e, cached)
      | None \<Rightarrow> (case env_issues p of
            [] \<Rightarrow> (Done (parsed_env p), Some (parsed_env p))
          | problems \<Rightarrow> (Refused problems, None)))"

definition resetEnvCache :: "env option \<Rightarrow> env option" where
  "resetEnvCache cached = None"

definition baseUrl :: "env \<Rightarrow> jstr" where
  "baseUrl e = ev_baseUrl e"

definition isSecureOrigin :: "env \<Rightarrow> bool" where
  "isSecureOrigin e = starts_with (lit ''https://'') (ev_baseUrl e)"

definition trust_proxy :: "env \<Rightarrow> bool" where
  "trust_proxy e \<longleftrightarrow> ev_trustProxy e = lit ''1''"

subsection \<open>What a validated environment satisfies\<close>

definition well_formed_env :: "env \<Rightarrow> bool" where
  "well_formed_env e \<longleftrightarrow> 32 \<le> length (ev_authSecret e) \<and> starts_with (lit ''postgres'') (ev_databaseUrl e) \<and>
     16 \<le> length (ev_cronSecret e) \<and> is_http (ev_baseUrl e) \<and> ev_uploadDir e \<noteq> [] \<and>
     (ev_trustProxy e = lit ''0'' \<or> ev_trustProxy e = lit ''1'')"

lemma check_field_None:
  "check_field v p msg = None \<longleftrightarrow> (\<exists>s. v = Some s \<and> p s)"
  by (auto simp: check_field_def split: option.splits)

lemma env_issues_Nil:
  "env_issues p = [] \<longleftrightarrow> (\<forall>(n, m) \<in> set (env_checks p). m = None)"
  by (fastforce simp: env_issues_def split: option.splits)

lemma parsed_env_well_formed: "env_issues p = [] \<Longrightarrow> well_formed_env (parsed_env p)"
  by (auto simp: env_issues_Nil env_checks_def check_field_None well_formed_env_def parsed_env_def)

text \<open>When a variable of the process environment is unacceptable, in the words of the schema.\<close>

fun rejects :: "string \<Rightarrow> jstr option \<Rightarrow> bool" where
  "rejects n None = (n \<in> {''AUTH_SECRET'', ''DATABASE_URL'', ''CRON_SECRET'', ''NEXT_PUBLIC_BASE_URL''})"
| "rejects n (Some s) =
     ((n = ''AUTH_SECRET'' \<and> length s < 32) \<or>
      (n = ''DATABASE_URL'' \<and> \<not> starts_with (lit ''postgres'') s) \<or>
      (n = ''CRON_SECRET'' \<and> length s < 16) \<or>
      (n = ''NEXT_PUBLIC_BASE_URL'' \<and> \<not> is_http s) \<or>
      (n = ''UPLOAD_DIR'' \<and> s = []) \<or>
      (n = ''TRUST_PROXY'' \<and> s \<noteq> lit ''0'' \<and> s \<noteq> lit ''1''))"

lemma lit_eq_Nil [simp]: "lit s = [] \<longleftrightarrow> s = []"
  by (simp add: lit_def)

definition ENV_NAMES :: "string list" where
  "ENV_NAMES = [''AUTH_SECRET'', ''DATABASE_URL'', ''CRON_SECRET'', ''NEXT_PUBLIC_BASE_URL'', ''UPLOAD_DIR'',
     ''TRUST_PROXY'']"

lemma rejects_names: "rejects n v \<Longrightarrow> n \<in> set ENV_NAMES"
  by (cases v) (auto simp: ENV_NAMES_def)

lemma issue_names:
  "map fst (concat (map (\<lambda>(n, m). case m of None \<Rightarrow> [] | Some i \<Rightarrow> [(n, i)]) cs)) =
   map fst (filter (\<lambda>(n, m). \<not> Option.is_none m) cs)"
  by (induction cs) (auto simp: Option.is_none_def split: option.splits)

lemma check_secrets:
  "Option.is_none (check_field v (\<lambda>s. 32 \<le> length s) msg) \<longleftrightarrow> \<not> rejects ''AUTH_SECRET'' v"
  "Option.is_none (check_field v (\<lambda>s. 16 \<le> length s) msg) \<longleftrightarrow> \<not> rejects ''CRON_SECRET'' v"
  by (cases v; simp add: check_field_def not_less)
    (cases v; simp add: check_field_def not_less)

lemma check_addresses:
  "Option.is_none (check_field v (starts_with (lit ''postgres'')) msg) \<longleftrightarrow> \<not> rejects ''DATABASE_URL'' v"
  "Option.is_none (check_field v is_http msg) \<longleftrightarrow> \<not> rejects ''NEXT_PUBLIC_BASE_URL'' v"
  by (cases v; simp add: check_field_def) (cases v; simp add: check_field_def)

lemma check_uploads:
  "Option.is_none (check_field (with_default DEFAULT_UPLOADS v) (\<lambda>s. 1 \<le> length s) msg) \<longleftrightarrow>
     \<not> rejects ''UPLOAD_DIR'' v"
  by (cases v) (simp_all add: check_field_def with_default_def DEFAULT_UPLOADS_def Suc_le_eq)

lemma check_proxy:
  "Option.is_none (check_field (with_default (lit ''0'') v) (\<lambda>s. s = lit ''0'' \<or> s = lit ''1'') msg) \<longleftrightarrow>
     \<not> rejects ''TRUST_PROXY'' v"
  by (cases v) (simp_all add: check_field_def with_default_def)

lemma env_issue_list: "map fst (env_issues p) = filter (\<lambda>n. rejects n (p n)) ENV_NAMES"
  unfolding env_issues_def issue_names
  by (simp only: env_checks_def check_secrets check_addresses check_uploads check_proxy ENV_NAMES_def
      filter.simps prod.case not_not list.map fst_conv if_distrib[of "map fst"])

lemma env_issues_names: "set (map fst (env_issues p)) = {n. rejects n (p n)}"
  using rejects_names unfolding env_issue_list by auto

text \<open>
  C24: The environment fails closed. Starting from no cached environment, \<open>getEnv\<close> returns only
  an environment in which the signing secret has 32 characters or more, the sweep secret 16, the
  database is a Postgres address, the origin is an http address, the upload directory is not
  empty and the proxy switch is 0 or 1, and later calls return that environment whatever became
  of the process environment; in every other case it throws, and the error names exactly the
  variables that are unacceptable, each once and all of them at once, and nothing is cached.
\<close>

theorem environment_fails_closed:
  "case getEnv p None of
     (Done e, c) \<Rightarrow> well_formed_env e \<and> {n. rejects n (p n)} = {} \<and> fst (getEnv q c) = Done e
   | (Refused problems, c) \<Rightarrow> c = None \<and> {n. rejects n (p n)} \<noteq> {} \<and> distinct (map fst problems) \<and>
       set (map fst problems) = {n. rejects n (p n)}
   | (Threw, c) \<Rightarrow> False"
proof (cases "env_issues p")
  case Nil
  then show ?thesis
    using parsed_env_well_formed[OF Nil] env_issues_names[of p] by (simp add: getEnv_def)
next
  case (Cons i rest)
  have "distinct (map fst (env_issues p))"
    unfolding env_issue_list by (simp add: ENV_NAMES_def)
  then have d: "distinct (map fst (i # rest))" unfolding Cons .
  have names: "set (map fst (i # rest)) = {n. rejects n (p n)}"
    using env_issues_names[of p] unfolding Cons .
  then have "{n. rejects n (p n)} \<noteq> {}" by (metis Nil_is_map_conv list.discI set_empty2)
  then show ?thesis
    using Cons d names by (simp only: getEnv_def option.case list.case prod.case outcome.case simp_thms)
qed

subsection \<open>The content security policy\<close>

definition quoted :: "jstr \<Rightarrow> jstr" where
  "quoted s = 39 # s @ [39]"

text \<open>\<open>buildCsp(nonce, { dev, https })\<close>.\<close>

definition buildCsp :: "jstr \<Rightarrow> bool \<Rightarrow> bool \<Rightarrow> jstr" where
  "buildCsp nonce dev https = join_with (lit ''; '')
     ([lit ''default-src '' @ quoted (lit ''self''),
       lit ''script-src '' @ quoted (lit ''self'') @ lit '' '' @ quoted (lit ''nonce-'' @ nonce) @ lit '' '' @
         quoted (lit ''strict-dynamic'') @ (if dev then lit '' '' @ quoted (lit ''unsafe-eval'') else []),
       lit ''style-src '' @ quoted (lit ''self'') @ lit '' '' @ quoted (lit ''unsafe-inline''),
       lit ''img-src '' @ quoted (lit ''self'') @ lit '' data: blob:'',
       lit ''font-src '' @ quoted (lit ''self'') @ lit '' data:'',
       lit ''connect-src '' @ quoted (lit ''self''),
       lit ''form-action '' @ quoted (lit ''self''),
       lit ''base-uri '' @ quoted (lit ''self''),
       lit ''object-src '' @ quoted (lit ''none''),
       lit ''frame-ancestors '' @ quoted (lit ''none'')] @
      (if https then [lit ''upgrade-insecure-requests''] else []))"

text \<open>
  \<open>proxy(request)\<close>: the nonce is the base64 text of a random UUID, an argument; the headers it
  sets on the request, and the header it sets on the response.
\<close>

type_synonym headers = "(string \<times> jstr) list"

definition proxy :: "env \<Rightarrow> bool \<Rightarrow> string \<Rightarrow> headers \<Rightarrow> headers \<times> headers" where
  "proxy e production uuid requestHeaders =
     (let nonce = base64 (utf8 (lit uuid));
          csp = buildCsp nonce (\<not> production) (isSecureOrigin e)
      in (AList.update ''content-security-policy'' csp (AList.update ''x-nonce'' nonce requestHeaders),
          [(''content-security-policy'', csp)]))"

text \<open>The matcher of the proxy: pages only, and no prefetches.\<close>

definition matcher :: "jstr \<Rightarrow> headers \<Rightarrow> bool" where
  "matcher rest_of_path hs \<longleftrightarrow>
     \<not> starts_with (lit ''api'') rest_of_path \<and> \<not> starts_with (lit ''_next/static'') rest_of_path \<and>
     \<not> starts_with (lit ''_next/image'') rest_of_path \<and>
     \<not> (starts_with (lit ''favicon'') rest_of_path \<and> drop 8 rest_of_path \<noteq> [] \<and>
        starts_with (lit ''ico'') (drop 8 rest_of_path)) \<and>
     map_of hs ''next-router-prefetch'' = None \<and> map_of hs ''purpose'' \<noteq> Some (lit ''prefetch'')"

subsection \<open>What a browser reads in the policy\<close>

text \<open>
  A policy is a list of directives separated by semicolons, each a name and its sources
  separated by blanks. A browser runs an inline script when the sources of \<open>script-src\<close> hold
  \<open>'unsafe-inline'\<close> without a nonce, or a nonce that the script carries.
\<close>

definition directive :: "jstr \<Rightarrow> jstr list" where
  "directive d = filter (\<lambda>w. w \<noteq> []) (split_on 32 d)"

definition policy :: "jstr \<Rightarrow> jstr list list" where
  "policy csp = map directive (split_on 59 csp)"

definition sources :: "string \<Rightarrow> jstr \<Rightarrow> jstr list option" where
  "sources name csp = map_option tl (find (\<lambda>d. d \<noteq> [] \<and> hd d = lit name) (policy csp))"

definition has_nonce :: "jstr list \<Rightarrow> bool" where
  "has_nonce ss \<longleftrightarrow> list_ex (starts_with (39 # lit ''nonce-'')) ss"

definition runs_inline :: "jstr \<Rightarrow> jstr option \<Rightarrow> bool" where
  "runs_inline csp carried =
     (case sources ''script-src'' csp of
        None \<Rightarrow> True
      | Some ss \<Rightarrow> (case carried of None \<Rightarrow> False | Some n \<Rightarrow> quoted (lit ''nonce-'' @ n) \<in> set ss) \<or>
          (quoted (lit ''unsafe-inline'') \<in> set ss \<and> \<not> has_nonce ss))"

subsection \<open>Only scripts with the nonce of the request run\<close>

lemma split_on_prefix:
  "d \<notin> set w \<Longrightarrow> split_on d (w @ x) = (w @ hd (split_on d x)) # tl (split_on d x)"
proof (induction w)
  case Nil
  then show ?case by (cases "split_on d x") auto
next
  case (Cons c w)
  then show ?case by simp
qed

lemma split_join_blank:
  assumes "\<forall>s \<in> set ss. 59 \<notin> set s" and "ss \<noteq> []"
  shows "split_on 59 (join_with [59, 32] ss) = hd ss # map ((#) 32) (tl ss)"
  using assms
proof (induction "[59, 32] :: nat list" ss rule: join_with.induct)
  case (2 s)
  then show ?case by (simp add: split_on_no_sep)
next
  case (3 s t ss)
  then show ?case by (simp add: split_on_prefix)
qed simp

lemma directive_blank [simp]: "directive (32 # s) = directive s"
  by (simp add: directive_def)

lemma policy_join:
  assumes "\<forall>s \<in> set ss. 59 \<notin> set s" and "ss \<noteq> []"
  shows "policy (join_with (lit ''; '') ss) = map directive ss"
  using split_join_blank[OF assms] assms(2)
  by (cases ss) (auto simp: policy_def lit_def)

lemma b64_char_plain: "b64_char n \<noteq> 32" "b64_char n \<noteq> 59" "b64_char n \<noteq> 39"
  by (auto simp: b64_char_def)

lemma base64_plain: "c \<in> {32, 39, 59} \<Longrightarrow> c \<notin> set (base64 bs)"
  by (induction bs rule: base64.induct) (auto simp: b64_char_plain dest: sym)

lemma directive_words:
  assumes "32 \<notin> set w" and "w \<noteq> []"
  shows "directive (w @ 32 # s) = w # directive s" and "directive w = [w]"
  using assms by (simp_all add: directive_def split_on_append split_on_no_sep)

lemma policy_csp:
  assumes "32 \<notin> set nonce" and "59 \<notin> set nonce"
  shows "policy (buildCsp nonce dev https) =
    [[lit ''default-src'', quoted (lit ''self'')],
     [lit ''script-src'', quoted (lit ''self''), quoted (lit ''nonce-'' @ nonce), quoted (lit ''strict-dynamic'')] @
       (if dev then [quoted (lit ''unsafe-eval'')] else []),
     [lit ''style-src'', quoted (lit ''self''), quoted (lit ''unsafe-inline'')],
     [lit ''img-src'', quoted (lit ''self''), lit ''data:'', lit ''blob:''],
     [lit ''font-src'', quoted (lit ''self''), lit ''data:''],
     [lit ''connect-src'', quoted (lit ''self'')],
     [lit ''form-action'', quoted (lit ''self'')],
     [lit ''base-uri'', quoted (lit ''self'')],
     [lit ''object-src'', quoted (lit ''none'')],
     [lit ''frame-ancestors'', quoted (lit ''none'')]] @
    (if https then [[lit ''upgrade-insecure-requests'']] else [])"
  unfolding buildCsp_def
  apply (subst policy_join)
    apply (use assms in \<open>auto simp: lit_def quoted_def\<close>)[2]
  using assms by (simp add: directive_def lit_def quoted_def split_on_prefix)

text \<open>
  C25: The page policy refuses injected scripts. Under the policy the proxy sends with a page, an
  inline script runs exactly when it carries the nonce the proxy put into the request headers,
  whatever the UUID drawn; \<open>eval\<close> is allowed outside production only, and the browser is told
  to upgrade its requests exactly when the configured origin is https.
\<close>

theorem only_nonced_scripts_run:
  "\<exists>csp nonce. snd (proxy e production uuid hs) = [(''content-security-policy'', csp)] \<and>
     map_of (fst (proxy e production uuid hs)) ''x-nonce'' = Some nonce \<and>
     map_of (fst (proxy e production uuid hs)) ''content-security-policy'' = Some csp \<and>
     (\<forall>carried. runs_inline csp carried \<longleftrightarrow> carried = Some nonce) \<and>
     (\<exists>ss. sources ''script-src'' csp = Some ss \<and> (quoted (lit ''unsafe-eval'') \<in> set ss \<longleftrightarrow> \<not> production)) \<and>
     ([lit ''upgrade-insecure-requests''] \<in> set (policy csp) \<longleftrightarrow> starts_with (lit ''https://'') (ev_baseUrl e))"
proof -
  define nonce where "nonce = base64 (utf8 (lit uuid))"
  define csp where "csp = buildCsp nonce (\<not> production) (isSecureOrigin e)"
  have p: "policy csp = policy (buildCsp nonce (\<not> production) (isSecureOrigin e))"
    by (simp add: csp_def)
  have plain: "32 \<notin> set nonce" "59 \<notin> set nonce" "39 \<notin> set nonce"
    using base64_plain by (auto simp: nonce_def)
  note pol = p[unfolded policy_csp[OF plain(1,2)]]
  have src: "sources ''script-src'' csp = Some ([quoted (lit ''self''), quoted (lit ''nonce-'' @ nonce),
      quoted (lit ''strict-dynamic'')] @ (if production then [] else [quoted (lit ''unsafe-eval'')]))"
    unfolding sources_def pol by simp
  have run: "runs_inline csp carried \<longleftrightarrow> carried = Some nonce" for carried
    by (cases carried) (auto simp: runs_inline_def src quoted_def lit_def)
  have up: "[lit ''upgrade-insecure-requests''] \<in> set (policy csp) \<longleftrightarrow> isSecureOrigin e"
    unfolding pol by auto
  have ev: "quoted (lit ''unsafe-eval'') \<notin> set [quoted (lit ''self''), quoted (lit ''nonce-'' @ nonce),
      quoted (lit ''strict-dynamic'')]"
    by (simp add: quoted_def lit_def)
  have pr: "proxy e production uuid hs =
      (AList.update ''content-security-policy'' csp (AList.update ''x-nonce'' nonce hs),
       [(''content-security-policy'', csp)])"
    unfolding proxy_def Let_def csp_def nonce_def ..
  have sent: "snd (proxy e production uuid hs) = [(''content-security-policy'', csp)]"
    "map_of (fst (proxy e production uuid hs)) ''x-nonce'' = Some nonce"
    "map_of (fst (proxy e production uuid hs)) ''content-security-policy'' = Some csp"
    unfolding pr by (simp_all add: update_conv)
  have "\<exists>ss. sources ''script-src'' csp = Some ss \<and> (quoted (lit ''unsafe-eval'') \<in> set ss \<longleftrightarrow> \<not> production)"
    by (rule exI[of _ "[quoted (lit ''self''), quoted (lit ''nonce-'' @ nonce), quoted (lit ''strict-dynamic'')] @
        (if production then [] else [quoted (lit ''unsafe-eval'')])"], cases production)
      (use ev in \<open>simp_all only: src append_Nil2 if_True if_False set_append simp_thms list.set_intros Un_iff\<close>)
  then show ?thesis
    using sent run up[unfolded isSecureOrigin_def] by blast
qed

subsection \<open>The origin check of a development server\<close>

text \<open>An interface address: the family, whether it is internal, the address.\<close>

type_synonym interface_address = "string \<times> bool \<times> jstr"

definition localAddresses :: "(jstr \<times> interface_address list option) list \<Rightarrow> jstr list" where
  "localAddresses interfaces = concat (map (\<lambda>(name, addrs).
     if list_ex (\<lambda>p. starts_with (lit p) name) [''utun'', ''bridge'', ''llw'', ''awdl''] then []
     else map (\<lambda>(fam, internal, a). a)
       (filter (\<lambda>(fam, internal, a). fam = ''IPv4'' \<and> \<not> internal) (case addrs of None \<Rightarrow> [] | Some xs \<Rightarrow> xs)))
     interfaces)"

definition is_ipv4 :: "jstr \<Rightarrow> bool" where
  "is_ipv4 host \<longleftrightarrow> length (split_on 46 host) = 4 \<and>
     list_all (\<lambda>p. p \<noteq> [] \<and> list_all (\<lambda>c. 48 \<le> c \<and> c \<le> 57) p) (split_on 46 host)"

text \<open>The warning: the configured host and the addresses of this machine, if it is printed.\<close>

definition warnIfOriginUnreachable ::
  "(jstr \<Rightarrow> jstr option) \<Rightarrow> env option \<Rightarrow> (jstr \<times> interface_address list option) list \<Rightarrow> (jstr \<times> jstr list) option" where
  "warnIfOriginUnreachable hostname environment interfaces =
     (case environment of
        None \<Rightarrow> None
      | Some e \<Rightarrow> (case hostname (ev_baseUrl e) of
            None \<Rightarrow> None
          | Some host \<Rightarrow>
              if \<not> is_ipv4 host \<or> host = lit ''127.0.0.1'' then None
              else if host \<in> set (localAddresses interfaces) then None
              else Some (host, localAddresses interfaces)))"

end
