(* ===== verification/Media.thy ===== *)
theory Media
  imports Env Staff Sample
begin

section \<open>Menu photos: upload, storage, delivery\<close>

text \<open>
  \<open>src/lib/storage/index.ts\<close>, \<open>src/lib/photos.ts\<close>, \<open>api/admin/upload\<close> and
  \<open>api/media/[...path]\<close>. The disk is a map from absolute paths to bytes; whether a write
  succeeds is an argument, as are the working directory, the random file name and the image
  library \<open>sharp\<close>. \<open>path.resolve\<close> and \<open>path.extname\<close> are those of a POSIX system. Symbolic
  links are not modelled.
\<close>

type_synonym bytes = "nat list"
type_synonym disk = "jstr \<Rightarrow> bytes option"

subsection \<open>Paths\<close>

text \<open>Segments between slashes, with empty and dot segments dropped and \<open>..\<close> undone.\<close>

fun collapse :: "jstr list \<Rightarrow> jstr list \<Rightarrow> jstr list" where
  "collapse acc [] = rev acc"
| "collapse acc (s # ss) =
     (if s = [] \<or> s = [46] then collapse acc ss
      else if s = [46, 46] then collapse (tl acc) ss
      else collapse (s # acc) ss)"

definition absolute :: "jstr \<Rightarrow> bool" where
  "absolute p \<longleftrightarrow> p \<noteq> [] \<and> hd p = 47"

text \<open>\<open>path.resolve(...args)\<close>: the arguments are taken from the last until one is absolute.\<close>

fun resolve_rev :: "jstr \<Rightarrow> jstr list \<Rightarrow> jstr \<Rightarrow> jstr" where
  "resolve_rev cwd [] acc = cwd @ 47 # acc"
| "resolve_rev cwd (p # ps) acc =
     (if p = [] then resolve_rev cwd ps acc
      else if absolute p then p @ 47 # acc
      else resolve_rev cwd ps (p @ 47 # acc))"

definition path_resolve :: "jstr \<Rightarrow> jstr list \<Rightarrow> jstr" where
  "path_resolve cwd args = 47 # join_with [47] (collapse [] (split_on 47 (resolve_rev cwd (rev args) [])))"

text \<open>\<open>path.basename\<close> and \<open>path.extname\<close>: trailing slashes do not count, a leading dot is no extension.\<close>

definition basename :: "jstr \<Rightarrow> jstr" where
  "basename p = (case filter (\<lambda>s. s \<noteq> []) (split_on 47 p) of [] \<Rightarrow> [] | ss \<Rightarrow> last ss)"

definition extname :: "jstr \<Rightarrow> jstr" where
  "extname p =
     (let b = basename p; after = takeWhile (\<lambda>c. c \<noteq> 46) (rev b); before = drop (length after) (rev b)
      in if length before \<le> 1 \<or> b = [46, 46] then [] else 46 # rev after)"

definition lower :: "jstr \<Rightarrow> jstr" where
  "lower s = map (\<lambda>c. if 65 \<le> c \<and> c \<le> 90 then c + 32 else c) s"

subsection \<open>Storage\<close>

definition resolveUploadPath :: "jstr \<Rightarrow> env \<Rightarrow> jstr \<Rightarrow> jstr option" where
  "resolveUploadPath cwd e key =
     (let root = path_resolve cwd [ev_uploadDir e]; target = path_resolve cwd [root, key]
      in if target \<noteq> root \<and> \<not> starts_with (root @ [47]) target then None else Some target)"

definition CONTENT_TYPES :: "(jstr \<times> string) list" where
  "CONTENT_TYPES = [(lit ''.jpg'', ''image/jpeg''), (lit ''.jpeg'', ''image/jpeg''),
     (lit ''.png'', ''image/png''), (lit ''.webp'', ''image/webp'')]"

definition readStored :: "jstr \<Rightarrow> env \<Rightarrow> disk \<Rightarrow> jstr \<Rightarrow> (bytes \<times> string) option" where
  "readStored cwd e d key =
     (case map_of CONTENT_TYPES (lower (extname key)) of
        None \<Rightarrow> None
      | Some contentType \<Rightarrow> (case resolveUploadPath cwd e key of
            None \<Rightarrow> None
          | Some target \<Rightarrow> (case d target of None \<Rightarrow> None | Some b \<Rightarrow> Some (b, contentType))))"

text \<open>\<open>put(key, bytes)\<close>; \<open>writable\<close> tells whether \<open>mkdir\<close> and \<open>writeFile\<close> succeed.\<close>

definition put_file :: "jstr \<Rightarrow> env \<Rightarrow> bool \<Rightarrow> jstr \<Rightarrow> bytes \<Rightarrow> disk \<Rightarrow> (jstr \<times> disk) option" where
  "put_file cwd e writable key b d =
     (case resolveUploadPath cwd e key of
        None \<Rightarrow> None
      | Some target \<Rightarrow>
          if writable then Some (lit ''/api/media/'' @ key, d(target \<mapsto> b)) else None)"

text \<open>The answer of \<open>GET /api/media/[...path]\<close>: the bytes and the headers it sets.\<close>

record media =
  md_body :: bytes
  md_contentType :: string
  md_cacheControl :: string
  md_nosniff :: bool

definition GET_media :: "jstr \<Rightarrow> env \<Rightarrow> disk \<Rightarrow> jstr list \<Rightarrow> media response" where
  "GET_media cwd e d segments =
     (case readStored cwd e d (join_with [47] segments) of
        None \<Rightarrow> Fail 404 ''not_found'' []
      | Some (b, t) \<Rightarrow> Ok \<lparr>md_body = b, md_contentType = t,
          md_cacheControl = ''public, max-age=31536000, immutable'', md_nosniff = True\<rparr>)"

subsection \<open>Upload\<close>

record sharp =
  sh_metadata :: "bytes \<Rightarrow> (nat \<times> nat) option"
  sh_webp :: "nat \<Rightarrow> nat \<Rightarrow> bytes \<Rightarrow> (bytes \<times> nat \<times> nat) option"

record photo =
  ph_bytes :: bytes
  ph_ext :: string
  ph_width :: nat
  ph_height :: nat

definition MAX_EDGE :: nat where "MAX_EDGE = 1200"
definition WEBP_QUALITY :: nat where "WEBP_QUALITY = 82"

definition processMenuPhoto :: "sharp \<Rightarrow> bytes \<Rightarrow> photo option" where
  "processMenuPhoto sh input =
     (case sh_metadata sh input of
        None \<Rightarrow> None
      | Some (w, h) \<Rightarrow> if w = 0 \<or> h = 0 then None
          else (case sh_webp sh MAX_EDGE WEBP_QUALITY input of
              None \<Rightarrow> None
            | Some (b, w', h') \<Rightarrow> Some \<lparr>ph_bytes = b, ph_ext = ''.webp'', ph_width = w', ph_height = h'\<rparr>))"

record upload =
  up_type :: string
  up_bytes :: bytes

definition MAX_UPLOAD_BYTES :: nat where "MAX_UPLOAD_BYTES = 12 * 1024 * 1024"
definition ACCEPTED_TYPES :: "string list" where
  "ACCEPTED_TYPES = [''image/jpeg'', ''image/png'', ''image/webp'']"

definition upload_key :: "id \<Rightarrow> string \<Rightarrow> string \<Rightarrow> jstr" where
  "upload_key venueId hex ext = lit ''menu/'' @ lit venueId @ lit ''/'' @ lit hex @ lit ext"

definition POST_upload ::
  "platform \<Rightarrow> sharp \<Rightarrow> jstr \<Rightarrow> env \<Rightarrow> bool \<Rightarrow> string \<Rightarrow> string option \<Rightarrow> upload option \<Rightarrow> server \<Rightarrow> disk \<Rightarrow>
   (jstr \<times> nat \<times> nat) response \<times> server \<times> disk" where
  "POST_upload pf sh cwd e writable hex cookie file s d =
     (case requireStaff pf Admin cookie s of
        (None, s1) \<Rightarrow> (Fail 401 ''unauthorized'' [], s1, d)
      | (Some staff, s1) \<Rightarrow>
          (case file of
             None \<Rightarrow> (Fail 400 ''no_file'' [], s1, d)
           | Some f \<Rightarrow>
               if MAX_UPLOAD_BYTES < length (up_bytes f) then (Fail 413 ''too_large'' [], s1, d)
               else if up_type f \<notin> set ACCEPTED_TYPES then (Fail 415 ''bad_type'' [], s1, d)
               else (case processMenuPhoto sh (up_bytes f) of
                   None \<Rightarrow> (Fail 415 ''bad_type'' [], s1, d)
                 | Some ph \<Rightarrow>
                     (case put_file cwd e writable (upload_key (sc_venueId staff) hex (ph_ext ph)) (ph_bytes ph) d of
                        None \<Rightarrow> (Fail 502 ''upload_failed'' [], s1, d)
                      | Some (url, d') \<Rightarrow> (Ok (url, ph_width ph, ph_height ph), s1, d')))))"

subsection \<open>Resolved paths\<close>

text \<open>A plain segment names one entry of a directory.\<close>

definition plain_segment :: "jstr \<Rightarrow> bool" where
  "plain_segment s \<longleftrightarrow> s \<noteq> [] \<and> s \<noteq> [46] \<and> s \<noteq> [46, 46] \<and> 47 \<notin> set s"

lemma split_on_no_sep_in: "w \<in> set (split_on d s) \<Longrightarrow> d \<notin> set w"
  by (induction s arbitrary: w) (auto split: if_splits list.splits)

lemma collapse_plain:
  "\<lbrakk>\<forall>s \<in> set acc. plain_segment s; \<forall>s \<in> set ss. 47 \<notin> set s\<rbrakk> \<Longrightarrow> \<forall>s \<in> set (collapse acc ss). plain_segment s"
proof (induction ss arbitrary: acc)
  case (Cons s ss)
  have up: "\<forall>x \<in> set (tl acc). plain_segment x" using Cons.prems(1) by (cases acc) auto
  have ss: "\<forall>x \<in> set ss. 47 \<notin> set x" using Cons.prems(2) by simp
  consider "s = [] \<or> s = [46]" | "s = [46, 46]" | "plain_segment s"
    using Cons.prems(2) by (auto simp: plain_segment_def)
  then show ?case
  proof cases
    case 1
    then show ?thesis using Cons.IH[OF Cons.prems(1) ss] by auto
  next
    case 2
    then show ?thesis using Cons.IH[OF up ss] by simp
  next
    case 3
    then have "\<forall>x \<in> set (s # acc). plain_segment x" using Cons.prems(1) by simp
    from Cons.IH[OF this ss] show ?thesis using 3 by (simp add: plain_segment_def)
  qed
qed simp

lemma collapse_id: "\<forall>s \<in> set ss. plain_segment s \<Longrightarrow> collapse acc (ss @ ts) = collapse (rev ss @ acc) ts"
  by (induction ss arbitrary: acc) (auto simp: plain_segment_def)

lemma collapse_snoc_empty: "collapse acc (ss @ [[]]) = collapse acc ss"
  by (induction acc ss rule: collapse.induct) auto

lemma split_join:
  "\<forall>s \<in> set ss. 47 \<notin> set s \<Longrightarrow> ss \<noteq> [] \<Longrightarrow> split_on 47 (join_with [47] ss) = ss"
  by (induction "[47] :: nat list" ss rule: join_with.induct) (auto simp: split_on_no_sep split_on_append)

lemma resolved_segments:
  obtains R where "path_resolve cwd args = 47 # join_with [47] R" and "\<forall>s \<in> set R. plain_segment s"
  using collapse_plain[of "[]" "split_on 47 (resolve_rev cwd (rev args) [])"] split_on_no_sep_in
  by (auto simp: path_resolve_def)

lemma plain_no_slash: "\<forall>s \<in> set R. plain_segment s \<Longrightarrow> \<forall>s \<in> set R. 47 \<notin> set s"
  by (auto simp: plain_segment_def)

lemma collapse_of_resolved:
  assumes "\<forall>s \<in> set R. plain_segment s"
  shows "collapse [] (split_on 47 (47 # join_with [47] R) @ ts) = collapse (rev R) ts"
proof (cases "R = []")
  case True
  then show ?thesis by simp
next
  case False
  then show ?thesis
    using assms split_join[OF plain_no_slash[OF assms]] collapse_id[OF assms, of "[]" ts] by simp
qed

text \<open>A relative key is resolved below the root: its segments extend those of the root.\<close>

lemma resolve_below_root:
  assumes "\<forall>s \<in> set R. plain_segment s" and "\<not> absolute key" and "key \<noteq> []"
  shows "path_resolve cwd [47 # join_with [47] R, key] = 47 # join_with [47] (collapse (rev R) (split_on 47 key))"
  using assms collapse_of_resolved[OF assms(1), of "split_on 47 key @ [[]]"]
    split_on_append[of 47 "47 # join_with [47] R" "key @ [47]"] split_on_append[of 47 key "[]"]
  by (simp add: path_resolve_def absolute_def collapse_snoc_empty del: split_on.simps(2))

lemma resolve_plain_key:
  assumes "\<forall>s \<in> set R. plain_segment s" and "\<forall>s \<in> set K. plain_segment s" and "K \<noteq> []"
  shows "path_resolve cwd [47 # join_with [47] R, join_with [47] K] = 47 # join_with [47] (R @ K)"
proof -
  obtain k ks where K: "K = k # ks" using assms(3) by (cases K) auto
  then have "join_with [47] K \<noteq> [] \<and> \<not> absolute (join_with [47] K)"
    using assms(2) by (cases ks; cases k) (auto simp: absolute_def plain_segment_def)
  then show ?thesis
    using resolve_below_root[OF assms(1)] split_join[OF plain_no_slash[OF assms(2)] assms(3)]
      collapse_id[OF assms(2), of "rev R" "[]"] by simp
qed

text \<open>What lies inside a directory, by its text, lies inside it by its segments.\<close>

lemma inside_segments:
  assumes "\<forall>s \<in> set R. plain_segment s" and "\<forall>s \<in> set T. plain_segment s"
    and "starts_with (47 # join_with [47] R @ [47]) (47 # join_with [47] T)"
  obtains rel where "T = R @ rel" and "rel \<noteq> []"
proof -
  let ?r = "join_with [47] R @ [47]"
  from assms(3) have "take (length ?r) (join_with [47] T) = ?r" by (simp add: starts_with_def)
  then obtain x where x: "join_with [47] T = join_with [47] R @ 47 # x"
    by (metis append_Cons append_Nil append_assoc append_take_drop_id)
  have "T \<noteq> []" using x by auto
  then have T: "T = split_on 47 (join_with [47] R) @ split_on 47 x"
    using split_join[OF plain_no_slash[OF assms(2)]] x split_on_append by metis
  have "R \<noteq> []"
  proof
    assume "R = []"
    then have "[] \<in> set T" using T by simp
    then show False using assms(2) by (auto simp: plain_segment_def)
  qed
  then show thesis
    using that[of "split_on 47 x"] T split_join[OF plain_no_slash[OF assms(1)]] by simp
qed

text \<open>The extension of a key is that of the file it is resolved to.\<close>

lemma collapse_empties: "filter (\<lambda>s. s \<noteq> []) ss = [] \<Longrightarrow> collapse acc ss = rev acc"
  by (induction ss) (auto split: if_splits)

lemma collapse_last:
  "\<lbrakk>filter (\<lambda>s. s \<noteq> []) ss \<noteq> []; last (filter (\<lambda>s. s \<noteq> []) ss) \<notin> {[46], [46, 46]}\<rbrakk> \<Longrightarrow>
   \<exists>X. collapse acc ss = X @ [last (filter (\<lambda>s. s \<noteq> []) ss)]"
proof (induction acc ss rule: collapse.induct)
  case (2 acc s ss)
  show ?case
  proof (cases "filter (\<lambda>s. s \<noteq> []) ss = []")
    case True
    then show ?thesis using 2 collapse_empties[OF True] by (auto split: if_splits)
  next
    case False
    then show ?thesis using 2 by (auto split: if_splits)
  qed
qed simp

lemma basename_resolved:
  assumes "\<forall>s \<in> set T. plain_segment s" and "T \<noteq> []"
  shows "basename (47 # join_with [47] T) = last T"
proof -
  have "filter (\<lambda>s. s \<noteq> []) T = T" using assms(1) by (simp add: filter_id_conv plain_segment_def)
  then show ?thesis
    using assms split_join[OF plain_no_slash[OF assms(1)] assms(2)]
    by (cases T) (auto simp: basename_def)
qed

lemma extname_basename: "basename p = basename q \<Longrightarrow> extname p = extname q"
  by (simp add: extname_def)

lemma extname_dots:
  assumes "extname p \<noteq> []"
  shows "filter (\<lambda>s. s \<noteq> []) (split_on 47 p) \<noteq> []"
    and "last (filter (\<lambda>s. s \<noteq> []) (split_on 47 p)) \<notin> {[46], [46, 46]}"
    and "basename p = last (filter (\<lambda>s. s \<noteq> []) (split_on 47 p))"
  using assms by (auto simp: extname_def basename_def split: list.splits if_splits)

lemma collapse_append: "\<exists>acc'. collapse acc (A @ B) = collapse acc' B"
  by (induction acc A rule: collapse.induct) auto

lemma resolve_ends_with_key:
  assumes "key \<noteq> []"
  obtains A where "split_on 47 (resolve_rev cwd [key, root] []) = A @ split_on 47 key @ [[]]"
proof -
  consider "resolve_rev cwd [key, root] [] = key @ [47]"
    | pre where "resolve_rev cwd [key, root] [] = pre @ 47 # key @ [47]"
    using assms by (cases "absolute key"; cases "root = []"; cases "absolute root") auto
  then show thesis
  proof cases
    case 1
    then show ?thesis using that[of "[]"] split_on_append[of 47 key "[]"] by simp
  next
    case (2 pre)
    then show ?thesis
      using that[of "split_on 47 pre"] split_on_append[of 47 pre "key @ [47]"] split_on_append[of 47 key "[]"]
      by simp
  qed
qed

lemma extname_resolved:
  assumes "extname key \<noteq> []"
  shows "extname (path_resolve cwd [root, key]) = extname key"
proof -
  note b = extname_dots[OF assms]
  have "key \<noteq> []" using assms by (auto simp: extname_def basename_def)
  then obtain A where A: "split_on 47 (resolve_rev cwd [key, root] []) = A @ split_on 47 key @ [[]]"
    by (rule resolve_ends_with_key)
  define C where "C = collapse [] (split_on 47 (resolve_rev cwd [key, root] []))"
  obtain acc where "C = collapse acc (split_on 47 key @ [[]])"
    using collapse_append[of "[]" A "split_on 47 key @ [[]]"] unfolding C_def A by blast
  then obtain X where "C = X @ [basename key]"
    using collapse_last[OF b(1,2), of acc] b(3) by (auto simp: collapse_snoc_empty)
  moreover have "\<forall>s \<in> set C. plain_segment s"
    unfolding C_def by (rule collapse_plain) (auto dest: split_on_no_sep_in)
  ultimately have "basename (47 # join_with [47] C) = basename key"
    using basename_resolved[of C] by simp
  moreover have "path_resolve cwd [root, key] = 47 # join_with [47] C"
    by (simp add: path_resolve_def C_def)
  ultimately show ?thesis using extname_basename by metis
qed

subsection \<open>What the media route can serve\<close>

lemma readStored_inside:
  assumes "readStored cwd e d key = Some (b, t)"
    and "path_resolve cwd [ev_uploadDir e] = 47 # join_with [47] R" and "\<forall>s \<in> set R. plain_segment s"
  shows "\<exists>rel. (\<forall>s \<in> set rel. plain_segment s) \<and> d (47 # join_with [47] (R @ rel)) = Some b \<and>
    map_of CONTENT_TYPES (lower (extname (47 # join_with [47] (R @ rel)))) = Some t"
proof -
  let ?root = "path_resolve cwd [ev_uploadDir e]" and ?target = "path_resolve cwd [path_resolve cwd [ev_uploadDir e], key]"
  obtain T where T: "?target = 47 # join_with [47] T" "\<forall>s \<in> set T. plain_segment s"
    by (rule resolved_segments)
  from assms(1) have r: "map_of CONTENT_TYPES (lower (extname key)) = Some t" "d ?target = Some b"
      "?target = ?root \<or> starts_with (?root @ [47]) ?target"
    by (auto simp: readStored_def resolveUploadPath_def Let_def split: option.splits if_splits)
  have ext: "extname ?target = extname key"
    using r(1) by (intro extname_resolved) (auto simp: CONTENT_TYPES_def lower_def lit_def)
  show ?thesis
  proof (cases "?target = ?root")
    case True
    then show ?thesis using r ext assms(2) by (intro exI[of _ "[]"]) simp
  next
    case False
    then have "starts_with (47 # join_with [47] R @ [47]) (47 # join_with [47] T)"
      using r(3) assms(2) T(1) by simp
    then obtain rel where "T = R @ rel" using inside_segments[OF assms(3) T(2)] by blast
    then show ?thesis using r ext T by auto
  qed
qed

text \<open>
  C26: The media route cannot be made to read outside the upload directory. Whatever segments a
  visitor puts into the URL (dots, encoded slashes, absolute paths), a file that is served lies
  at a path that extends the segments of \<open>UPLOAD_DIR\<close> by plain segments, and its type is the
  image type of that file's own extension, never one taken from the spelling of the URL.
\<close>

theorem media_stays_inside:
  assumes "GET_media cwd e d segments = Ok m"
    and "path_resolve cwd [ev_uploadDir e] = 47 # join_with [47] R" and "\<forall>s \<in> set R. plain_segment s"
  shows "\<exists>rel. (\<forall>s \<in> set rel. plain_segment s) \<and> d (47 # join_with [47] (R @ rel)) = Some (md_body m) \<and>
    map_of CONTENT_TYPES (lower (extname (47 # join_with [47] (R @ rel)))) = Some (md_contentType m) \<and>
    md_contentType m \<in> set ACCEPTED_TYPES"
proof -
  from assms(1) have "readStored cwd e d (join_with [47] segments) = Some (md_body m, md_contentType m)"
    by (auto simp: GET_media_def split: option.splits prod.splits)
  from readStored_inside[OF this assms(2,3)]
  obtain rel where rel: "\<forall>s \<in> set rel. plain_segment s" "d (47 # join_with [47] (R @ rel)) = Some (md_body m)"
    and t: "map_of CONTENT_TYPES (lower (extname (47 # join_with [47] (R @ rel)))) = Some (md_contentType m)"
    by blast
  have "md_contentType m \<in> set ACCEPTED_TYPES"
    using map_of_SomeD[OF t] by (auto simp: CONTENT_TYPES_def ACCEPTED_TYPES_def)
  then show ?thesis using rel t by blast
qed

subsection \<open>Uploads read back\<close>

lemma upload_done:
  assumes "POST_upload pf sh cwd e writable hex cookie file s d = (Ok (url, w, h), s', d')"
  obtains staff f ph target where "fst (requireStaff pf Admin cookie s) = Some staff" and "file = Some f"
    and "processMenuPhoto sh (up_bytes f) = Some ph" and "ph_ext ph = ''.webp''"
    and "resolveUploadPath cwd e (upload_key (sc_venueId staff) hex ''.webp'') = Some target"
    and "d' = d(target \<mapsto> ph_bytes ph)" and "url = lit ''/api/media/'' @ upload_key (sc_venueId staff) hex ''.webp''"
    and "length (up_bytes f) \<le> MAX_UPLOAD_BYTES"
  using assms
  by (auto simp: POST_upload_def put_file_def processMenuPhoto_def not_less
      split: option.splits prod.splits if_splits)

lemma upload_key_segments:
  "upload_key v hex ''.webp'' = join_with [47] [lit ''menu'', lit v, lit hex @ lit ''.webp'']"
  by (simp add: upload_key_def lit_def)

lemma extname_upload_key:
  assumes "hex \<noteq> []" and "47 \<notin> set (lit hex)" and "47 \<notin> set (lit v)"
  shows "extname (upload_key v hex ''.webp'') = lit ''.webp''"
proof -
  have "split_on 47 (upload_key v hex ''.webp'') = [lit ''menu'', lit v, lit hex @ lit ''.webp'']"
    unfolding upload_key_segments using assms by (subst split_join) (auto simp: lit_def)
  then have "basename (upload_key v hex ''.webp'') = lit hex @ lit ''.webp''"
    by (simp add: basename_def lit_def)
  moreover have "rev (lit hex) \<noteq> []" using assms(1) by simp
  ultimately show ?thesis
    by (cases "rev (lit hex)") (auto simp: extname_def lit_def)
qed


subsection \<open>A venue's disk\<close>

definition sample_env :: env where
  "sample_env = \<lparr>ev_authSecret = replicate 32 97, ev_databaseUrl = lit ''postgres://db'',
     ev_cronSecret = lit ''0123456789abcdef'', ev_baseUrl = lit ''http://10.0.0.5'',
     ev_uploadDir = lit ''/up'', ev_trustProxy = lit ''0''\<rparr>"

definition toy_sharp :: sharp where
  "toy_sharp = \<lparr>sh_metadata = (\<lambda>b. if b = [] then None else Some (4, 3)),
     sh_webp = (\<lambda>w q b. Some (rev b, 4, 3))\<rparr>"

definition sample_photo :: upload where
  "sample_photo = \<lparr>up_type = ''image/png'', up_bytes = [1, 2, 3]\<rparr>"

definition sample_key :: jstr where
  "sample_key = lit ''/up/menu/v1/beef.webp''"

lemma sample_root:
  "path_resolve (lit ''/srv'') [ev_uploadDir sample_env] = 47 # join_with [47] [lit ''up'']"
  "\<forall>x \<in> set [lit ''up'']. plain_segment x"
  by (simp_all add: path_resolve_def sample_env_def lit_def absolute_def plain_segment_def)

lemma sample_upload:
  "\<exists>s'. POST_upload toy_platform toy_sharp (lit ''/srv'') sample_env True ''beef'' (Some ''a1-0'') (Some sample_photo)
     sample (\<lambda>_. None) = (Ok (lit ''/api/media/menu/v1/beef.webp'', 4, 3), s', (\<lambda>_. None)(sample_key \<mapsto> [3, 2, 1]))"
proof -
  obtain c where r: "requireStaff toy_platform Admin (Some ''a1-0'') sample = (Some toy_admin, sample\<lparr>accountCache := c\<rparr>)"
    using toy_requires(1)[of sample] by (auto simp: sample_defs)
  have "resolveUploadPath (lit ''/srv'') sample_env (lit ''menu/v1/beef.webp'') = Some sample_key"
    by (simp add: resolveUploadPath_def Let_def path_resolve_def sample_env_def lit_def absolute_def
        starts_with_def sample_key_def)
  then show ?thesis
    unfolding POST_upload_def r
    by (simp add: sample_photo_def MAX_UPLOAD_BYTES_def ACCEPTED_TYPES_def processMenuPhoto_def toy_sharp_def
        put_file_def upload_key_def toy_admin_def toy_claims_def lit_def)
qed

text \<open>A request that walks through \<open>..\<close> inside the directory is served, one that leaves it is not.\<close>

theorem media_stays_inside_witness:
  "\<exists>m. GET_media (lit ''/srv'') sample_env ((\<lambda>_. None)(sample_key \<mapsto> [3, 2, 1]))
       [lit ''menu/v2/..'', lit ''v1'', lit ''beef.webp''] = Ok m \<and> md_body m = [3, 2, 1] \<and>
     md_contentType m \<in> set ACCEPTED_TYPES \<and>
     GET_media (lit ''/srv'') sample_env ((\<lambda>_. None)(lit ''/etc/x.png'' \<mapsto> [9]))
       [lit ''..'', lit ''etc'', lit ''x.png''] = Fail 404 ''not_found'' []"
proof -
  let ?d = "(\<lambda>_. None)(sample_key \<mapsto> [3, 2, 1]) :: disk"
  define segs where "segs = [lit ''menu/v2/..'', lit ''v1'', lit ''beef.webp'']"
  have "readStored (lit ''/srv'') sample_env ?d (join_with [47] segs) = Some ([3, 2, 1], ''image/webp'')"
    by (simp add: segs_def readStored_def resolveUploadPath_def Let_def path_resolve_def sample_env_def lit_def
        absolute_def starts_with_def sample_key_def extname_def basename_def CONTENT_TYPES_def lower_def)
  then obtain m where m: "GET_media (lit ''/srv'') sample_env ?d segs = Ok m" "md_body m = [3, 2, 1]"
    by (simp add: GET_media_def)
  from media_stays_inside[OF m(1) sample_root] have "md_contentType m \<in> set ACCEPTED_TYPES" by blast
  moreover have "GET_media (lit ''/srv'') sample_env ((\<lambda>_. None)(lit ''/etc/x.png'' \<mapsto> [9]))
       [lit ''..'', lit ''etc'', lit ''x.png''] = Fail 404 ''not_found'' []"
    by (simp add: GET_media_def readStored_def resolveUploadPath_def Let_def path_resolve_def sample_env_def
        lit_def absolute_def starts_with_def extname_def basename_def CONTENT_TYPES_def lower_def)
  ultimately show ?thesis using m unfolding segs_def by blast
qed


end
