(* ===== verification/Outbox.thy ===== *)
theory Outbox
  imports Ticket Staff "HOL-Library.Sublist"
begin

section \<open>The POS outbox\<close>

text \<open>
  \<open>src/lib/pos/outbox.ts\<close>, \<open>src/lib/pos/adapters.ts\<close>, the key lookup of
  \<open>src/lib/bridgeKey.ts\<close>, the bridge agent's two endpoints (\<open>src/app/api/bridge/pending\<close> and
  \<open>.../ack\<close>) and the administrator's retry and health views. A poll is split between reading
  the candidates and claiming them, where another agent's poll can run. Fire-and-forget calls
  run where the caller starts them.
\<close>

definition MAX_ATTEMPTS :: int where "MAX_ATTEMPTS = 5"
definition CLAIM_TIMEOUT_MS :: int where "CLAIM_TIMEOUT_MS = 60000"
definition BATCH :: nat where "BATCH = 10"

subsection \<open>Adapters\<close>

datatype adapter = Console_adapter | Escpos_bridge

definition getAdapter :: "string \<Rightarrow> adapter" where
  "getAdapter name = (if name = ''escpos_bridge'' then Escpos_bridge else Console_adapter)"

fun adapter_name :: "adapter \<Rightarrow> string" where
  "adapter_name Console_adapter = ''console''"
| "adapter_name Escpos_bridge = ''escpos_bridge''"

fun renderPayload :: "locale_fns \<Rightarrow> adapter \<Rightarrow> ticket \<Rightarrow> jstr" where
  "renderPayload lf Console_adapter t = renderTicketText lf t"
| "renderPayload lf Escpos_bridge t = renderEscPos lf t"

datatype deliver_result = Delivered | Left_pending | Delivery_error jstr

fun deliver :: "adapter \<Rightarrow> deliver_result" where
  "deliver Console_adapter = Delivered"
| "deliver Escpos_bridge = Left_pending"

subsection \<open>Enqueueing\<close>

definition ticketFor :: "venue \<Rightarrow> tabl \<Rightarrow> order \<Rightarrow> order_item list \<Rightarrow> amendment option \<Rightarrow> ticket" where
  "ticketFor v t o' items am = \<lparr>tk_venueName = ven_name v, tk_currency = ven_currency v,
     tk_tableName = tab_name t, tk_orderNumber = ord_number o', tk_createdAt = ord_createdAt o',
     tk_lines = map (\<lambda>i. \<lparr>tl_qty = oi_qty i, tl_name = oi_nameSnapshot i,
       tl_modifiers = map cm_name (oi_modifiers i), tl_note = oi_note i,
       tl_unitPriceKurus = oi_unitPriceKurus i\<rparr>) items,
     tk_totalKurus = ord_totalKurus o', tk_amendment = am\<rparr>"

definition set_delivery :: "id \<Rightarrow> (pos_delivery \<Rightarrow> pos_delivery) \<Rightarrow> server \<Rightarrow> server" where
  "set_delivery i f s = s\<lparr>posDeliveries := updateMany (\<lambda>p. pd_id p = i)
     (\<lambda>p. (f p)\<lparr>pd_updatedAt := now s\<rparr>) (posDeliveries s)\<rparr>"

definition attemptDelivery :: "id \<Rightarrow> server \<Rightarrow> server" where
  "attemptDelivery deliveryId s =
     (case findFirst (\<lambda>p. pd_id p = deliveryId) (posDeliveries s) of
        None \<Rightarrow> s
      | Some d \<Rightarrow>
          if pd_status d \<noteq> Pending then s
          else (case deliver (getAdapter (pd_adapter d)) of
              Delivered \<Rightarrow> set_delivery deliveryId (\<lambda>p. p\<lparr>pd_status := Sent, pd_attempts := pd_attempts p + 1\<rparr>) s
            | Left_pending \<Rightarrow> s
            | Delivery_error e \<Rightarrow>
                (let attempts = pd_attempts d + 1 in
                 set_delivery deliveryId (\<lambda>p. p\<lparr>pd_attempts := attempts,
                   pd_lastError := Some (take 500 (lit ''Error: '' @ e)),
                   pd_status := (if attempts \<ge> MAX_ATTEMPTS then Failed else Pending)\<rparr>) s)))"

definition enqueuePosDelivery ::
  "locale_fns \<Rightarrow> id \<Rightarrow> id \<Rightarrow> amendment option \<Rightarrow> server \<Rightarrow> server" where
  "enqueuePosDelivery lf newId orderId am s =
     (case findFirst (\<lambda>o'. ord_id o' = orderId) (orders s) of
        None \<Rightarrow> s
      | Some o' \<Rightarrow>
          (case (findFirst (\<lambda>v. ven_id v = ord_venueId o') (venues s),
                 findFirst (\<lambda>t. tab_id t = ord_tableId o') (tables s)) of
             (Some v, Some t) \<Rightarrow>
               (let ad = getAdapter (ven_posAdapter v);
                    tick = ticketFor v t o' (live_items o') am;
                    row = \<lparr>pd_id = newId, pd_venueId = ord_venueId o', pd_orderId = ord_id o',
                      pd_adapter = adapter_name ad, pd_status = Pending, pd_attempts = 0,
                      pd_lastError = None, pd_claimedAt = None, pd_claimId = None,
                      pd_payload = renderPayload lf ad tick, pd_createdAt = now s, pd_updatedAt = now s\<rparr>
                in attemptDelivery newId (s\<lparr>posDeliveries := posDeliveries s @ [row]\<rparr>))
           | _ \<Rightarrow> s))"

subsection \<open>The sweep\<close>

record sweep_result =
  sw_reclaimed :: nat
  sw_retried :: nat
  sw_exhausted :: nat

definition claim_expired :: jstr where
  "claim_expired = lit ''claim expired '' @ [0x2014] @ lit '' agent did not ack''"

definition update_deliveries ::
  "(pos_delivery \<Rightarrow> bool) \<Rightarrow> (pos_delivery \<Rightarrow> pos_delivery) \<Rightarrow> server \<Rightarrow> nat \<times> server" where
  "update_deliveries p f s = (countWhere p (posDeliveries s),
     s\<lparr>posDeliveries := updateMany p (\<lambda>d. (f d)\<lparr>pd_updatedAt := now s\<rparr>) (posDeliveries s)\<rparr>)"

definition stale_claim :: "time \<Rightarrow> pos_delivery \<Rightarrow> bool" where
  "stale_claim staleBefore d \<longleftrightarrow> pd_status d = Claimed \<and>
     (case pd_claimedAt d of None \<Rightarrow> False | Some t \<Rightarrow> t < staleBefore)"

definition retryable :: "pos_delivery \<Rightarrow> bool" where
  "retryable d \<longleftrightarrow> pd_status d = Pending \<and> pd_adapter d \<noteq> ''escpos_bridge'' \<and> pd_attempts d < MAX_ATTEMPTS"

definition sweepPosDeliveries :: "server \<Rightarrow> sweep_result \<times> server" where
  "sweepPosDeliveries s =
     (let (reclaimed, s1) = update_deliveries (stale_claim (now s - CLAIM_TIMEOUT_MS))
            (\<lambda>d. d\<lparr>pd_status := Pending, pd_claimId := None, pd_claimedAt := None,
                   pd_lastError := Some claim_expired\<rparr>) s;
          (nullish, s2) = update_deliveries (\<lambda>d. pd_status d = Claimed \<and> pd_claimedAt d = None)
            (\<lambda>d. d\<lparr>pd_status := Pending, pd_claimId := None, pd_lastError := Some claim_expired\<rparr>) s1;
          (exhausted, s3) = update_deliveries (\<lambda>d. pd_status d = Pending \<and> pd_attempts d \<ge> MAX_ATTEMPTS)
            (\<lambda>d. d\<lparr>pd_status := Failed\<rparr>) s2;
          rows = take 50 (orderBy pd_createdAt (filter retryable (posDeliveries s3)))
      in (\<lparr>sw_reclaimed = reclaimed + nullish, sw_retried = length rows, sw_exhausted = exhausted\<rparr>,
          fold (\<lambda>d. attemptDelivery (pd_id d)) rows s3))"

subsection \<open>Bridge keys\<close>

definition BRIDGE_KEY_PREFIX :: string where "BRIDGE_KEY_PREFIX = ''bridge-''"

definition hashBridgeKey :: "platform \<Rightarrow> string \<Rightarrow> string" where
  "hashBridgeKey pf key = pf_sha256hex pf key"

definition newBridgeKey :: "string \<Rightarrow> string" where
  "newBridgeKey randomHex = BRIDGE_KEY_PREFIX @ randomHex"

definition bridgeKeyHint :: "string \<Rightarrow> string" where
  "bridgeKeyHint key = drop (length key - 6) key"

definition venueForBridgeKey :: "platform \<Rightarrow> string option \<Rightarrow> server \<Rightarrow> id option" where
  "venueForBridgeKey pf key s =
     (case key of None \<Rightarrow> None
      | Some k \<Rightarrow> if k = [] \<or> \<not> prefix BRIDGE_KEY_PREFIX k then None
          else map_option bk_venueId (findFirst (\<lambda>r. bk_keyHash r = hashBridgeKey pf k) (bridgeKeys s)))"

subsection \<open>Polling\<close>

definition claimable :: "id \<Rightarrow> time \<Rightarrow> pos_delivery \<Rightarrow> bool" where
  "claimable venueId staleBefore d \<longleftrightarrow> pd_venueId d = venueId \<and> pd_adapter d = ''escpos_bridge'' \<and>
     pd_attempts d < MAX_ATTEMPTS \<and>
     (pd_status d = Pending \<or> stale_claim staleBefore d \<or> (pd_status d = Claimed \<and> pd_claimedAt d = None))"

definition claim_read :: "id \<Rightarrow> server \<Rightarrow> id list" where
  "claim_read venueId s = map pd_id (take BATCH (orderBy pd_createdAt
     (filter (claimable venueId (now s - CLAIM_TIMEOUT_MS)) (posDeliveries s))))"

definition mark_claimed :: "time \<Rightarrow> id \<Rightarrow> pos_delivery \<Rightarrow> pos_delivery" where
  "mark_claimed t claimId d = d\<lparr>pd_status := Claimed, pd_claimedAt := Some t, pd_claimId := Some claimId,
     pd_attempts := pd_attempts d + 1, pd_updatedAt := t\<rparr>"

definition claim_write :: "id \<Rightarrow> time \<Rightarrow> id list \<Rightarrow> id \<Rightarrow> server \<Rightarrow> server" where
  "claim_write venueId staleBefore ids claimId s = s\<lparr>posDeliveries :=
     updateMany (\<lambda>d. pd_id d \<in> set ids \<and> claimable venueId staleBefore d) (mark_claimed (now s) claimId)
       (posDeliveries s)\<rparr>"

record bridge_ticket =
  bt_id :: id
  bt_orderNumber :: int
  bt_tableName :: jstr
  bt_payloadBase64 :: jstr

definition claimed_by :: "id \<Rightarrow> server \<Rightarrow> pos_delivery list" where
  "claimed_by claimId s = orderBy pd_createdAt (filter (\<lambda>d. pd_claimId d = Some claimId) (posDeliveries s))"

definition bridge_ticket_of :: "server \<Rightarrow> pos_delivery \<Rightarrow> bridge_ticket" where
  "bridge_ticket_of s d =
     (let o' = findFirst (\<lambda>o'. ord_id o' = pd_orderId d) (orders s) in
      \<lparr>bt_id = pd_id d, bt_orderNumber = (case o' of None \<Rightarrow> 0 | Some x \<Rightarrow> ord_number x),
       bt_tableName = (case o' of None \<Rightarrow> [] | Some x \<Rightarrow>
         (case findFirst (\<lambda>t. tab_id t = ord_tableId x) (tables s) of None \<Rightarrow> [] | Some t \<Rightarrow> tab_name t)),
       bt_payloadBase64 = pd_payload d\<rparr>)"

definition GET_bridge_pending ::
  "platform \<Rightarrow> id \<Rightarrow> string option \<Rightarrow> server \<Rightarrow> bridge_ticket list response \<times> server" where
  "GET_bridge_pending pf claimId key s =
     (case venueForBridgeKey pf key s of
        None \<Rightarrow> (Fail 401 ''unauthorized'' [], s)
      | Some venueId \<Rightarrow>
          if venueId = [] then (Fail 401 ''unauthorized'' [], s)
          else (let candidates = claim_read venueId s in
            if candidates = [] then (Ok [], s)
            else (let s1 = claim_write venueId (now s - CLAIM_TIMEOUT_MS) candidates claimId s
              in (Ok (map (bridge_ticket_of s1) (claimed_by claimId s1)), s1))))"

subsection \<open>Acknowledging\<close>

record ack_body =
  ak_deliveryId :: id
  ak_ok :: bool
  ak_error :: "jstr option"

definition acked :: "ack_body \<Rightarrow> int \<Rightarrow> pos_delivery \<Rightarrow> pos_delivery" where
  "acked b attempts d = (if ak_ok b
     then d\<lparr>pd_status := Sent, pd_claimedAt := None, pd_claimId := None, pd_lastError := None\<rparr>
     else d\<lparr>pd_status := (if attempts \<ge> MAX_ATTEMPTS then Failed else Pending), pd_claimedAt := None,
       pd_claimId := None,
       pd_lastError := Some (take 500 (case ak_error b of None \<Rightarrow> lit ''unknown'' | Some e \<Rightarrow> e))\<rparr>)"

definition POST_bridge_ack ::
  "platform \<Rightarrow> string option \<Rightarrow> ack_body \<Rightarrow> server \<Rightarrow> string option response \<times> server" where
  "POST_bridge_ack pf key b s =
     (case venueForBridgeKey pf key s of
        None \<Rightarrow> (Fail 401 ''unauthorized'' [], s)
      | Some venueId \<Rightarrow>
          if venueId = [] then (Fail 401 ''unauthorized'' [], s)
          else (case findFirst (\<lambda>d. pd_id d = ak_deliveryId b \<and> pd_venueId d = venueId) (posDeliveries s) of
              None \<Rightarrow> (Fail 404 ''not_found'' [], s)
            | Some d \<Rightarrow>
                if pd_status d \<noteq> Claimed then (Ok (Some ''claim_no_longer_held''), s)
                else (Ok None, set_delivery (pd_id d) (acked b (pd_attempts d)) s)))"

subsection \<open>The administrator's views\<close>

definition POST_pos_retry :: "platform \<Rightarrow> id \<Rightarrow> string option \<Rightarrow> server \<Rightarrow> unit response \<times> server" where
  "POST_pos_retry pf i cookie s =
     (case requireStaff pf Admin cookie s of
        (None, s1) \<Rightarrow> (Fail 401 ''unauthorized'' [], s1)
      | (Some staff, s1) \<Rightarrow>
          (case findFirst (\<lambda>d. pd_id d = i \<and> pd_venueId d = sc_venueId staff) (posDeliveries s1) of
             None \<Rightarrow> (Fail 404 ''not_found'' [], s1)
           | Some d \<Rightarrow> (Ok (), set_delivery i (\<lambda>p. p\<lparr>pd_status := Pending, pd_attempts := 0,
               pd_claimedAt := None, pd_claimId := None, pd_lastError := None\<rparr>) s1)))"

record pos_health =
  ph_pending :: nat
  ph_claimed :: nat
  ph_failed :: nat
  ph_sentToday :: nat
  ph_lastSentAt :: "time option"
  ph_stuck :: "(id \<times> int \<times> jstr \<times> delivery_status \<times> int \<times> jstr option \<times> time) list"

definition stuck :: "time \<Rightarrow> pos_delivery \<Rightarrow> bool" where
  "stuck staleBefore d \<longleftrightarrow> pd_status d = Failed \<or> stale_claim staleBefore d \<or>
     (pd_status d = Pending \<and> pd_createdAt d < staleBefore)"

definition pos_health_of :: "id \<Rightarrow> server \<Rightarrow> pos_health" where
  "pos_health_of venueId s =
     (let mine = filter (\<lambda>d. pd_venueId d = venueId) (posDeliveries s);
          staleBefore = now s - CLAIM_TIMEOUT_MS;
          dayAgo = now s - 24 * 60 * 60 * 1000
      in \<lparr>ph_pending = countWhere (\<lambda>d. pd_status d = Pending) mine,
          ph_claimed = countWhere (\<lambda>d. pd_status d = Claimed) mine,
          ph_failed = countWhere (\<lambda>d. pd_status d = Failed) mine,
          ph_sentToday = countWhere (\<lambda>d. pd_status d = Sent \<and> pd_updatedAt d > dayAgo) mine,
          ph_lastSentAt = (case orderByDesc pd_updatedAt (filter (\<lambda>d. pd_status d = Sent) mine) of
             [] \<Rightarrow> None | d # _ \<Rightarrow> Some (pd_updatedAt d)),
          ph_stuck = map (\<lambda>d. (pd_id d, bt_orderNumber (bridge_ticket_of s d), bt_tableName (bridge_ticket_of s d), pd_status d, pd_attempts d, pd_lastError d, pd_createdAt d))
            (take 20 (orderBy pd_createdAt (filter (stuck staleBefore) mine)))\<rparr>)"

definition GET_pos_health :: "platform \<Rightarrow> string option \<Rightarrow> server \<Rightarrow> pos_health response \<times> server" where
  "GET_pos_health pf cookie s =
     (case requireStaff pf Admin cookie s of
        (None, s1) \<Rightarrow> (Fail 401 ''unauthorized'' [], s1)
      | (Some staff, s1) \<Rightarrow> (Ok (pos_health_of (sc_venueId staff) s1), s1))"

subsection \<open>One agent per ticket\<close>

interpretation agent_claim: conditional_write pd_id "claimable ven stale"
  "\<lambda>(wait, claimId). mark_claimed (stale + int wait) claimId"
  for ven stale
  by standard (auto simp: claimable_def stale_claim_def mark_claimed_def)

lemma mark_claimed_fields [simp]:
  "pd_id (mark_claimed t c d) = pd_id d" "pd_claimId (mark_claimed t c d) = Some c"
  "pd_claimedAt (mark_claimed t c d) = Some t" "pd_status (mark_claimed t c d) = Claimed"
  "pd_createdAt (mark_claimed t c d) = pd_createdAt d"
  by (simp_all add: mark_claimed_def)

text \<open>
  C16: two agents are never handed the same ticket. Whatever the two polls of a venue read, if the
  second one read no later than the claim timeout after the first one claimed, the second claim
  takes none of the rows of the first: the first agent keeps exactly its batch, and the two
  batches share no delivery.
\<close>

theorem claims_are_exclusive:
  assumes ids: "distinct (map pd_id (posDeliveries s))"
    and first: "s1 = claim_write ven stale1 ids1 c1 s"
    and second: "s2 = claim_write ven' stale2 ids2 c2 (s1\<lparr>now := t\<rparr>)" "stale2 \<le> now s"
    and fresh: "c1 \<noteq> c2" "\<forall>d \<in> set (posDeliveries s). pd_claimId d \<noteq> Some c1 \<and> pd_claimId d \<noteq> Some c2"
  shows "claimed_by c1 s2 = claimed_by c1 s1 \<and>
    set (map pd_id (claimed_by c1 s2)) \<inter> set (map pd_id (claimed_by c2 s2)) = {}"
proof -
  let ?q = "\<lambda>d. pd_id d \<in> set ids2 \<and> claimable ven' stale2 d"
  have s1: "posDeliveries s1 = updateMany (\<lambda>d. pd_id d \<in> set ids1 \<and> claimable ven stale1 d)
      (mark_claimed (now s) c1) (posDeliveries s)"
    by (simp add: first claim_write_def)
  have s2: "posDeliveries s2 = updateMany ?q (mark_claimed t c2) (posDeliveries s1)"
    by (simp add: second(1) claim_write_def)
  have held: "\<not> claimable ven' stale2 d" if "d \<in> set (posDeliveries s1)" "pd_claimId d = Some c1" for d
  proof -
    have "\<exists>d0. d = mark_claimed (now s) c1 d0"
      using that fresh(2) by (auto simp: s1 set_updateMany split: if_splits)
    then show ?thesis using second(2) by (auto simp: claimable_def stale_claim_def)
  qed
  have "filter (\<lambda>d. pd_claimId d = Some c1) (posDeliveries s2) = filter (\<lambda>d. pd_claimId d = Some c1) (posDeliveries s1)"
    unfolding s2 by (rule filter_kept) (use held fresh(1) in auto)
  then have same: "claimed_by c1 s2 = claimed_by c1 s1" by (simp add: claimed_by_def)
  have "map pd_id (posDeliveries s2) = map pd_id (posDeliveries s)"
    unfolding s2 s1 by (simp add: map_updateMany)
  then have dist: "distinct (map pd_id (posDeliveries s2))" using ids by simp
  have "pd_id d \<noteq> pd_id e" if "d \<in> set (claimed_by c1 s2)" "e \<in> set (claimed_by c2 s2)" for d e
  proof
    assume "pd_id d = pd_id e"
    then have "d = e" using dist that by (auto simp: claimed_by_def distinct_map inj_on_def)
    then show False using that fresh(1) by (simp add: claimed_by_def)
  qed
  then show ?thesis using same by auto
qed

theorem claims_are_exclusive_witness:
  "set (map pd_id (claimed_by ''c1'' (claim_write ''v1'' 60000 [''p1''] ''c2''
     ((claim_write ''v1'' 60000 [''p1''] ''c1'' sample)\<lparr>now := 121000\<rparr>)))) \<inter>
   set (map pd_id (claimed_by ''c2'' (claim_write ''v1'' 60000 [''p1''] ''c2''
     ((claim_write ''v1'' 60000 [''p1''] ''c1'' sample)\<lparr>now := 121000\<rparr>)))) = {}"
  by (rule conjunct2[OF claims_are_exclusive[OF _ refl refl]]) (simp_all add: sample_defs)

text \<open>
  an acknowledgement is not tied to the claim it answers. The claim an agent was given is not
  part of what it sends back, so the late answer of an agent whose claim expired settles the claim
  another agent holds now, as printed or as failed and free to be claimed a third time.
\<close>

theorem late_ack_settles_another_claim:
  assumes "venueForBridgeKey pf key s = Some ven" "ven \<noteq> []"
    and "findFirst (\<lambda>d. pd_id d = ak_deliveryId b \<and> pd_venueId d = ven) (posDeliveries s) = Some d"
    and "pd_status d = Claimed" "pd_claimId d = Some other" "pd_attempts d < MAX_ATTEMPTS"
    and "POST_bridge_ack pf key b s = (r, s')"
  shows "r = Ok None \<and> (\<exists>d'. findFirst (\<lambda>x. pd_id x = ak_deliveryId b \<and> pd_venueId x = ven) (posDeliveries s') = Some d' \<and>
    pd_claimId d' = None \<and> pd_status d' = (if ak_ok b then Sent else Pending))"
proof -
  let ?f = "\<lambda>p. (acked b (pd_attempts d) p)\<lparr>pd_updatedAt := now s\<rparr>"
  have id: "pd_id d = ak_deliveryId b" using findFirst_SomeD[OF assms(3)] by simp
  have "r = Ok None" and s': "s' = set_delivery (pd_id d) (acked b (pd_attempts d)) s"
    using assms by (auto simp: POST_bridge_ack_def)
  have "findFirst (\<lambda>x. pd_id x = ak_deliveryId b \<and> pd_venueId x = ven) (posDeliveries s') =
      map_option (\<lambda>x. if pd_id x = pd_id d then ?f x else x)
        (findFirst (\<lambda>x. pd_id x = ak_deliveryId b \<and> pd_venueId x = ven) (posDeliveries s))"
    unfolding s' set_delivery_def
    by (simp add: updateMany_def) (rule findFirst_map, simp add: acked_def)
  then have "findFirst (\<lambda>x. pd_id x = ak_deliveryId b \<and> pd_venueId x = ven) (posDeliveries s') = Some (?f d)"
    by (simp add: assms(3))
  then show ?thesis using \<open>r = Ok None\<close> assms(6) by (auto simp: acked_def)
qed

definition printing :: server where
  "printing = sample\<lparr>posDeliveries := [(sample_delivery ''p1'' ''o2'')\<lparr>pd_status := Claimed,
     pd_claimedAt := Some 119000, pd_claimId := Some ''c2'', pd_attempts := 2\<rparr>],
     bridgeKeys := [\<lparr>bk_id = ''k'', bk_venueId = ''v1'', bk_keyHash = ''bridge-1'', bk_hint = ''ridge-1'',
       bk_label = [], bk_createdAt = 0\<rparr>]\<rparr>"

theorem late_ack_settles_another_claim_witness:
  "fst (POST_bridge_ack toy_platform (Some ''bridge-1'')
     \<lparr>ak_deliveryId = ''p1'', ak_ok = False, ak_error = None\<rparr> printing) = Ok None"
proof -
  let ?b = "\<lparr>ak_deliveryId = ''p1'', ak_ok = False, ak_error = None\<rparr>"
  obtain r s' where r: "POST_bridge_ack toy_platform (Some ''bridge-1'') ?b printing = (r, s')"
    by (cases "POST_bridge_ack toy_platform (Some ''bridge-1'') ?b printing")
  show ?thesis
    using late_ack_settles_another_claim[OF _ _ _ _ _ _ r, of "''v1''" "hd (posDeliveries printing)" "''c2''"] r
    by (simp add: printing_def sample_defs venueForBridgeKey_def BRIDGE_KEY_PREFIX_def hashBridgeKey_def
        toy_platform_def MAX_ATTEMPTS_def)
qed

subsection \<open>What the sweep leaves\<close>

definition healthy :: "time \<Rightarrow> pos_delivery \<Rightarrow> bool" where
  "healthy staleBefore d \<longleftrightarrow> \<not> stale_claim staleBefore d \<and> (pd_status d = Claimed \<longrightarrow> pd_claimedAt d \<noteq> None) \<and>
     (pd_status d = Pending \<longrightarrow> pd_attempts d < MAX_ATTEMPTS)"

lemma set_delivery_ids: "(\<And>d. pd_id (f d) = pd_id d) \<Longrightarrow>
    map pd_id (posDeliveries (set_delivery i f s)) = map pd_id (posDeliveries s)"
  by (simp add: set_delivery_def map_updateMany)

lemma attemptDelivery_keeps:
  assumes "list_all (healthy t) (posDeliveries s)"
  shows "list_all (healthy t) (posDeliveries (attemptDelivery i s)) \<and>
    map pd_id (posDeliveries (attemptDelivery i s)) = map pd_id (posDeliveries s)"
proof (cases "findFirst (\<lambda>p. pd_id p = i) (posDeliveries s)")
  case None
  then show ?thesis using assms by (simp add: attemptDelivery_def)
next
  case (Some d)
  let ?f = "\<lambda>p. p\<lparr>pd_status := Sent, pd_attempts := pd_attempts p + 1\<rparr>"
  have "attemptDelivery i s = s \<or> attemptDelivery i s = set_delivery i ?f s"
    using Some by (cases "getAdapter (pd_adapter d)") (simp_all add: attemptDelivery_def)
  moreover have "list_all (healthy t) (posDeliveries (set_delivery i ?f s))"
    unfolding set_delivery_def
    by (simp, rule list_all_updateMany[OF assms]) (simp add: healthy_def stale_claim_def)
  moreover have "map pd_id (posDeliveries (set_delivery i ?f s)) = map pd_id (posDeliveries s)"
    by (simp add: set_delivery_ids)
  ultimately show ?thesis using assms by metis
qed

lemma fold_attempts_keeps:
  "list_all (healthy t) (posDeliveries s) \<Longrightarrow>
   list_all (healthy t) (posDeliveries (fold (\<lambda>d. attemptDelivery (pd_id d)) rows s)) \<and>
   map pd_id (posDeliveries (fold (\<lambda>d. attemptDelivery (pd_id d)) rows s)) = map pd_id (posDeliveries s)"
proof (induction rows arbitrary: s)
  case (Cons r rows)
  note k = attemptDelivery_keeps[OF Cons.prems, of "pd_id r"]
  show ?case using Cons.IH[OF conjunct1[OF k]] k by simp
qed simp


end
