(* ===== verification/Upkeep.thy ===== *)
theory Upkeep
  imports Env Outbox Visit Sample
begin

section \<open>Retention, the scheduler, the manual sweep and the health check\<close>

text \<open>
  \<open>src/lib/retention.ts\<close>, \<open>src/lib/scheduler.ts\<close>, \<open>src/lib/version.ts\<close>,
  \<open>api/cron/pos-sweep\<close> and \<open>api/health\<close>. Whether the database answers is an argument
  (\<open>up\<close>): a job that finds it down throws at its first statement. The state \<open>globalThis\<close>
  keeps for the scheduler is the record \<open>process\<close>; its timers are the jobs registered with
  \<open>setInterval\<close>, which the happenings below fire.
\<close>

subsection \<open>Retention\<close>

definition IP_RETENTION_DAYS :: int where "IP_RETENTION_DAYS = 30"
definition ROW_RETENTION_DAYS :: int where "ROW_RETENTION_DAYS = 180"
definition SESSION_RETENTION_DAYS :: int where "SESSION_RETENTION_DAYS = 90"

definition daysAgo :: "int \<Rightarrow> server \<Rightarrow> time" where
  "daysAgo d s = now s - d * 24 * 60 * 60 * 1000"

record retention_result =
  rr_anonymised :: nat
  rr_deletedAttempts :: nat
  rr_deletedSessions :: nat

definition identified_before :: "time \<Rightarrow> order_attempt \<Rightarrow> bool" where
  "identified_before t a \<longleftrightarrow> oa_createdAt a < t \<and> (oa_ip a \<noteq> [] \<or> oa_userAgent a \<noteq> [])"

definition unused_session :: "server \<Rightarrow> time \<Rightarrow> table_session \<Rightarrow> bool" where
  "unused_session s t x \<longleftrightarrow> ts_createdAt x < t \<and> \<not> (\<exists>o' \<in> set (orders s). ord_sessionId o' = ts_id x)"

definition pruneRetainedData :: "server \<Rightarrow> retention_result \<times> server" where
  "pruneRetainedData s =
     (let old = identified_before (daysAgo IP_RETENTION_DAYS s);
          s1 = s\<lparr>orderAttempts := updateMany old (\<lambda>a. a\<lparr>oa_ip := [], oa_userAgent := []\<rparr>) (orderAttempts s)\<rparr>;
          gone = (\<lambda>a. oa_createdAt a < daysAgo ROW_RETENTION_DAYS s1);
          s2 = s1\<lparr>orderAttempts := deleteMany gone (orderAttempts s1)\<rparr>;
          unused = unused_session s2 (daysAgo SESSION_RETENTION_DAYS s2);
          s3 = s2\<lparr>sessions := deleteMany unused (sessions s2)\<rparr>
      in (\<lparr>rr_anonymised = countWhere old (orderAttempts s), rr_deletedAttempts = countWhere gone (orderAttempts s1),
            rr_deletedSessions = countWhere unused (sessions s2)\<rparr>, s3))"

subsection \<open>The scheduler\<close>

definition SWEEP_INTERVAL_MS :: int where "SWEEP_INTERVAL_MS = 60000"
definition RETENTION_INTERVAL_MS :: int where "RETENTION_INTERVAL_MS = 60 * 60 * 1000"
definition VISIT_SWEEP_INTERVAL_MS :: int where "VISIT_SWEEP_INTERVAL_MS = 10 * 60 * 1000"

record scheduler_state =
  sd_startedAt :: time
  sd_lastSweepAt :: "time option"
  sd_lastSweepOk :: bool
  sd_lastRetentionAt :: "time option"

datatype job = Sweep_job | Visits_job | Retention_job

record process =
  pr_started :: bool
  pr_state :: "scheduler_state option"
  pr_timers :: "(job \<times> int) list"

definition fresh_process :: process where
  "fresh_process = \<lparr>pr_started = False, pr_state = None, pr_timers = []\<rparr>"

definition schedulerState :: "process \<Rightarrow> scheduler_state option" where
  "schedulerState p = pr_state p"

text \<open>\<open>state()\<close>: the state, made when it is missing.\<close>

definition the_state :: "time \<Rightarrow> process \<Rightarrow> scheduler_state" where
  "the_state t p = (case pr_state p of Some st \<Rightarrow> st
     | None \<Rightarrow> \<lparr>sd_startedAt = t, sd_lastSweepAt = None, sd_lastSweepOk = True, sd_lastRetentionAt = None\<rparr>)"

definition runSweep :: "bool \<Rightarrow> process \<times> server \<Rightarrow> process \<times> server" where
  "runSweep up ps =
     (let (p, s) = ps;
          s' = (if up then snd (sweepPosDeliveries s) else s)
      in (p\<lparr>pr_state := Some ((the_state (now s') p)\<lparr>sd_lastSweepAt := Some (now s'), sd_lastSweepOk := up\<rparr>)\<rparr>, s'))"

definition runAbandonedVisits :: "bool \<Rightarrow> process \<times> server \<Rightarrow> process \<times> server" where
  "runAbandonedVisits up ps = (let (p, s) = ps in (p, if up then snd (closeAbandonedVisits s) else s))"

definition runRetention :: "bool \<Rightarrow> process \<times> server \<Rightarrow> process \<times> server" where
  "runRetention up ps =
     (let (p, s) = ps in
      if up then (let s' = snd (pruneRetainedData s) in
        (p\<lparr>pr_state := Some ((the_state (now s') p)\<lparr>sd_lastRetentionAt := Some (now s')\<rparr>)\<rparr>, s'))
      else (p, s))"

definition startScheduler :: "bool \<Rightarrow> process \<times> server \<Rightarrow> process \<times> server" where
  "startScheduler up ps =
     (let (p, s) = ps in
      if pr_started p then (p, s)
      else runSweep up
        (p\<lparr>pr_started := True, pr_state := Some (the_state (now s) p),
           pr_timers := pr_timers p @ [(Sweep_job, SWEEP_INTERVAL_MS), (Visits_job, VISIT_SWEEP_INTERVAL_MS),
             (Retention_job, RETENTION_INTERVAL_MS)]\<rparr>, s))"

fun run_job :: "job \<Rightarrow> bool \<Rightarrow> process \<times> server \<Rightarrow> process \<times> server" where
  "run_job Sweep_job = runSweep"
| "run_job Visits_job = runAbandonedVisits"
| "run_job Retention_job = runRetention"

subsection \<open>The manual sweep\<close>

text \<open>\<open>Authorization: Bearer $CRON_SECRET\<close>, compared in constant time.\<close>

definition authorized :: "env \<Rightarrow> jstr option \<Rightarrow> bool" where
  "authorized e header =
     (let expected = utf8 (lit ''Bearer '' @ ev_cronSecret e);
          provided = utf8 (case header of None \<Rightarrow> [] | Some h \<Rightarrow> h)
      in length provided = length expected \<and> timingSafeEqual provided expected = Some True)"

definition utc_minutes :: "time \<Rightarrow> int" where
  "utc_minutes t = t div 60000 mod 60"

definition GET_pos_sweep ::
  "env \<Rightarrow> bool \<Rightarrow> jstr option \<Rightarrow> server \<Rightarrow> (sweep_result \<times> retention_result option) response \<times> server" where
  "GET_pos_sweep e up header s =
     (if \<not> authorized e header then (Fail 401 ''unauthorized'' [], s)
      else if \<not> up then (Fail 500 ''sweep_failed'' [], s)
      else (let (result, s1) = sweepPosDeliveries s in
        if utc_minutes (now s1) = 0
        then (let (retention, s2) = pruneRetainedData s1 in (Ok (result, Some retention), s2))
        else (Ok (result, None), s1)))"

subsection \<open>The build\<close>

datatype json_value = JText jstr | JBool bool | JOther

record build =
  bd_version :: jstr
  bd_commit :: "jstr option"
  bd_dirty :: bool
  bd_builtAt :: jstr

definition DEV :: build where
  "DEV = \<lparr>bd_version = lit ''dev'', bd_commit = None, bd_dirty = False, bd_builtAt = lit ''1970-01-01T00:00:00.000Z''\<rparr>"

text \<open>
  \<open>stamp\<close> is the object in \<open>version.json\<close>, by field; it is \<open>None\<close> when the file cannot be
  read or is not JSON.
\<close>

definition buildVersion :: "(string \<Rightarrow> json_value option) option \<Rightarrow> build option \<Rightarrow> build \<times> build option" where
  "buildVersion stamp cached =
     (case cached of
        Some b \<Rightarrow> (b, cached)
      | None \<Rightarrow>
          (let b = (case stamp of
               None \<Rightarrow> DEV
             | Some f \<Rightarrow> (case f ''version'' of
                   Some (JText v) \<Rightarrow> \<lparr>bd_version = v,
                     bd_commit = (case f ''commit'' of Some (JText c) \<Rightarrow> Some c | _ \<Rightarrow> None),
                     bd_dirty = (f ''dirty'' = Some (JBool True)),
                     bd_builtAt = (case f ''builtAt'' of Some (JText t) \<Rightarrow> t | _ \<Rightarrow> bd_builtAt DEV)\<rparr>
                 | _ \<Rightarrow> DEV\<lparr>bd_version := lit ''unknown''\<rparr>))
           in (b, Some b)))"

definition versionLabel :: "build \<Rightarrow> jstr" where
  "versionLabel b = bd_version b @ (case bd_commit b of None \<Rightarrow> [] | Some c \<Rightarrow> if c = [] then [] else lit ''+'' @ c) @
     (if bd_dirty b then lit ''-dirty'' else [])"

subsection \<open>Health\<close>

definition SWEEP_STALE_MS :: int where "SWEEP_STALE_MS = SWEEP_INTERVAL_MS * 3"

record health_check =
  hc_ok :: bool
  hc_detail :: jstr

text \<open>The header line of a Prisma error: \<open>/^Invalid `.*` invocation:?$/\<close>.\<close>

definition strip_colon :: "jstr \<Rightarrow> jstr" where
  "strip_colon l = (if l \<noteq> [] \<and> last l = 58 then butlast l else l)"

definition is_invocation :: "jstr \<Rightarrow> bool" where
  "is_invocation l \<longleftrightarrow>
     (let b = strip_colon l; p = lit ''Invalid `''; q = lit ''` invocation'';
          mid = take (length b - length p - length q) (drop (length p) b)
      in length p + length q \<le> length b \<and> starts_with p b \<and> drop (length b - length q) b = q \<and>
         set mid \<inter> {10, 13, 8232, 8233} = {})"

definition dbErrorDetail :: "jstr \<Rightarrow> jstr" where
  "dbErrorDetail message =
     (let ls = filter (\<lambda>l. 0 < length l \<and> \<not> is_invocation l) (map trim (split_on 10 message))
      in take 200 (case ls of [] \<Rightarrow> lit ''unreachable'' | l # _ \<Rightarrow> l))"

text \<open>What \<open>SELECT 1\<close> did: it took so many milliseconds, or threw with a message.\<close>

datatype db_answer = Answered nat | Broken jstr

definition database_check :: "db_answer \<Rightarrow> health_check" where
  "database_check a = (case a of
     Answered ms \<Rightarrow> \<lparr>hc_ok = True, hc_detail = show_nat ms @ lit ''ms''\<rparr>
   | Broken message \<Rightarrow> \<lparr>hc_ok = False, hc_detail = dbErrorDetail message\<rparr>)"

definition scheduler_check :: "time \<Rightarrow> scheduler_state option \<Rightarrow> health_check" where
  "scheduler_check t sched = (case sched of
     None \<Rightarrow> \<lparr>hc_ok = False, hc_detail = lit ''not started''\<rparr>
   | Some st \<Rightarrow> (case sd_lastSweepAt st of
       None \<Rightarrow> (let booting = t - sd_startedAt st < SWEEP_STALE_MS in
         \<lparr>hc_ok = booting, hc_detail = (if booting then lit ''starting'' else lit ''no sweep recorded'')\<rparr>)
     | Some sweptAt \<Rightarrow> (let age = t - sweptAt in
         \<lparr>hc_ok = age < SWEEP_STALE_MS,
          hc_detail = lit ''last sweep '' @ show_int (round_div age 1000) @ lit ''s ago'' @
            (if sd_lastSweepOk st then [] else lit '' (failing)'')\<rparr>)))"

record health_detail =
  hd_database :: health_check
  hd_scheduler :: health_check
  hd_build :: build
  hd_uptimeSeconds :: nat
  hd_startedAt :: "time option"

definition isTrusted :: "env \<Rightarrow> jstr option \<Rightarrow> bool" where
  "isTrusted e header =
     (let expected = utf8 (lit ''Bearer '' @ ev_cronSecret e);
          provided = utf8 (case header of None \<Rightarrow> [] | Some h \<Rightarrow> h)
      in length provided = length expected \<and> timingSafeEqual provided expected = Some True)"

text \<open>The status code, the word of the body, and the detail a trusted caller gets.\<close>

definition GET_health ::
  "env \<Rightarrow> db_answer \<Rightarrow> build \<Rightarrow> nat \<Rightarrow> jstr option \<Rightarrow> process \<Rightarrow> time \<Rightarrow> nat \<times> string \<times> health_detail option" where
  "GET_health e a b uptime header p t =
     (let database = database_check a; sched = schedulerState p; scheduler = scheduler_check t sched;
          ok = list_all hc_ok [database, scheduler];
          code = (if ok then 200 else 503); status = (if ok then ''ok'' else ''degraded'')
      in if \<not> isTrusted e header then (code, status, None)
         else (code, status, Some \<lparr>hd_database = database, hd_scheduler = scheduler, hd_build = b,
           hd_uptimeSeconds = uptime, hd_startedAt = map_option sd_startedAt sched\<rparr>))"

subsection \<open>Retention keeps its promises\<close>

lemma unused_session_attempts [simp]: "unused_session (s\<lparr>orderAttempts := x\<rparr>) = unused_session s"
  by (intro ext) (simp add: unused_session_def)

lemma prune_eq:
  "snd (pruneRetainedData s) = s\<lparr>
     orderAttempts := deleteMany (\<lambda>a. oa_createdAt a < daysAgo 180 s)
       (updateMany (identified_before (daysAgo 30 s)) (\<lambda>a. a\<lparr>oa_ip := [], oa_userAgent := []\<rparr>) (orderAttempts s)),
     sessions := deleteMany (unused_session s (daysAgo 90 s)) (sessions s)\<rparr>"
  by (simp add: pruneRetainedData_def Let_def daysAgo_def IP_RETENTION_DAYS_def ROW_RETENTION_DAYS_def
      SESSION_RETENTION_DAYS_def)

lemma set_deleteMany: "set (deleteMany p rows) = {r \<in> set rows. \<not> p r}"
  by (auto simp: deleteMany_def)

lemma deleteMany_none: "countWhere p rows = 0 \<Longrightarrow> deleteMany p rows = rows"
  by (simp add: countWhere_def deleteMany_def filter_empty_conv)

lemma prune_frame [simp]:
  "now (snd (pruneRetainedData s)) = now s" "orders (snd (pruneRetainedData s)) = orders s"
  by (simp_all add: prune_eq)

lemma orders_keep_sessions:
  assumes "\<forall>o' \<in> set (orders s). \<exists>x \<in> set (sessions s). ts_id x = ord_sessionId o'"
  shows "\<forall>o' \<in> set (orders s). \<exists>x \<in> set (sessions (snd (pruneRetainedData s))). ts_id x = ord_sessionId o'"
  using assms by (force simp: prune_eq set_deleteMany unused_session_def)

lemma prune_blanks:
  "\<forall>a \<in> set (orderAttempts (snd (pruneRetainedData s))). now s - 180 * 86400000 \<le> oa_createdAt a \<and>
     (oa_createdAt a < now s - 30 * 86400000 \<longrightarrow> oa_ip a = [] \<and> oa_userAgent a = [])"
  by (auto simp: prune_eq set_deleteMany set_updateMany identified_before_def daysAgo_def)

lemma prune_keeps_recent:
  "filter (\<lambda>a. now s - 30 * 86400000 \<le> oa_createdAt a) (orderAttempts (snd (pruneRetainedData s))) =
   filter (\<lambda>a. now s - 30 * 86400000 \<le> oa_createdAt a) (orderAttempts s)"
proof -
  let ?P = "\<lambda>a. now s - 30 * 86400000 \<le> oa_createdAt a"
  let ?rows = "updateMany (identified_before (daysAgo 30 s)) (\<lambda>a. a\<lparr>oa_ip := [], oa_userAgent := []\<rparr>) (orderAttempts s)"
  have "filter ?P (deleteMany (\<lambda>a. oa_createdAt a < daysAgo 180 s) ?rows) = filter ?P ?rows"
    by (rule filter_deleteMany_other) (simp add: daysAgo_def)
  also have "\<dots> = filter ?P (orderAttempts s)"
    by (rule filter_kept) (simp_all add: identified_before_def daysAgo_def)
  finally show ?thesis by (simp add: prune_eq)
qed

lemma prune_drops_unused:
  "filter (unused_session s (now s - 90 * 86400000)) (sessions (snd (pruneRetainedData s))) = [] \<and>
   filter (\<lambda>x. \<not> unused_session s (now s - 90 * 86400000) x) (sessions (snd (pruneRetainedData s))) =
   filter (\<lambda>x. \<not> unused_session s (now s - 90 * 86400000) x) (sessions s)"
  by (simp add: prune_eq daysAgo_def deleteMany_def)

lemma prune_again:
  "pruneRetainedData (snd (pruneRetainedData s)) =
   (\<lparr>rr_anonymised = 0, rr_deletedAttempts = 0, rr_deletedSessions = 0\<rparr>, snd (pruneRetainedData s))"
proof -
  let ?s = "snd (pruneRetainedData s)"
  have old: "countWhere (identified_before (daysAgo 30 ?s)) (orderAttempts ?s) = 0"
    using prune_blanks[of s] by (force simp: countWhere_0_iff identified_before_def daysAgo_def)
  have gone: "countWhere (\<lambda>a. oa_createdAt a < daysAgo 180 ?s) (orderAttempts ?s) = 0"
    using prune_blanks[of s] by (force simp: countWhere_0_iff daysAgo_def)
  have unused: "countWhere (unused_session ?s (daysAgo 90 ?s)) (sessions ?s) = 0"
    using prune_drops_unused[of s]
    by (auto simp: countWhere_0_iff filter_empty_conv daysAgo_def unused_session_def)
  have same: "updateMany (identified_before (daysAgo 30 ?s)) f (orderAttempts ?s) = orderAttempts ?s" for f
    using old by (intro updateMany_id) (auto simp: countWhere_0_iff)
  show ?thesis
    by (simp add: pruneRetainedData_def[of ?s] Let_def same[unfolded daysAgo_def] IP_RETENTION_DAYS_def
        ROW_RETENTION_DAYS_def SESSION_RETENTION_DAYS_def daysAgo_def old[unfolded daysAgo_def, simplified]
        gone[unfolded daysAgo_def, simplified] unused[unfolded daysAgo_def, simplified]
        deleteMany_none same[unfolded daysAgo_def, simplified])
qed



lemma attemptDelivery_now [simp]: "now (attemptDelivery i s) = now s"
  by (simp add: attemptDelivery_def set_delivery_def Let_def split: option.splits deliver_result.splits)

lemma sweep_now [simp]: "now (snd (sweepPosDeliveries s)) = now s"
proof -
  have "now (fold (\<lambda>d. attemptDelivery (pd_id d)) rows t) = now t" for rows :: "pos_delivery list" and t
    by (induction rows arbitrary: t) simp_all
  then show ?thesis by (simp add: sweepPosDeliveries_def update_deliveries_def Let_def)
qed

subsection \<open>The sweep secret\<close>

lemma authorized_iff:
  assumes "\<forall>c \<in> set (ev_cronSecret e). c < 128"
  shows "authorized e header \<longleftrightarrow> header = Some (lit ''Bearer '' @ ev_cronSecret e)"
proof -
  let ?x = "lit ''Bearer '' @ ev_cronSecret e"
  have a: "\<forall>c \<in> set ?x. c < 128" using assms by (auto simp: lit_def)
  have x: "utf8 ?x = ?x" by (rule utf8_ascii[OF a])
  show ?thesis
  proof (cases header)
    case None
    then show ?thesis by (simp add: authorized_def x Let_def lit_def)
  next
    case (Some h)
    have "utf8 h = ?x \<longleftrightarrow> h = ?x" using utf8_eq_ascii[OF a] x by blast
    then show ?thesis using Some by (auto simp: authorized_def x Let_def timingSafeEqual_def)
  qed
qed

text \<open>
  The manual sweep answers its secret only. With an ASCII secret, a request is refused with
  401 exactly when its authorization header is not the word Bearer, a blank and the secret (a
  prefix or an extension of it is refused), and a refused request changes nothing; personal data
  is pruned exactly by the served requests of the first minute of an hour that find the database up.
\<close>

theorem cron_answers_its_secret:
  assumes "\<forall>c \<in> set (ev_cronSecret e). c < 128"
  shows "(fst (GET_pos_sweep e up header s) = Fail 401 ''unauthorized'' [] \<longleftrightarrow>
      header \<noteq> Some (lit ''Bearer '' @ ev_cronSecret e)) \<and>
    (header \<noteq> Some (lit ''Bearer '' @ ev_cronSecret e) \<or> \<not> up \<longrightarrow> snd (GET_pos_sweep e up header s) = s) \<and>
    ((\<exists>r q. fst (GET_pos_sweep e up header s) = Ok (r, Some q)) \<longleftrightarrow>
      header = Some (lit ''Bearer '' @ ev_cronSecret e) \<and> up \<and> 0 \<le> now s mod 3600000 \<and> now s mod 3600000 < 60000)"
proof -
  have "utc_minutes t = 0 \<longleftrightarrow> t mod 3600000 < 60000" for t
  proof -
    have "t mod (60000 * 60) = 60000 * (t div 60000 mod 60) + t mod 60000"
      by (rule zmod_zmult2_eq) simp
    moreover have "0 \<le> t mod 60000" "t mod 60000 < 60000" "0 \<le> t div 60000 mod 60" by simp_all
    ultimately show ?thesis unfolding utc_minutes_def by simp linarith
  qed
  then show ?thesis
    by (auto simp: GET_pos_sweep_def authorized_iff[OF assms] Let_def split_beta)
qed

theorem cron_answers_its_secret_witness:
  "fst (GET_pos_sweep \<lparr>ev_authSecret = [], ev_databaseUrl = [], ev_cronSecret = [65, 66], ev_baseUrl = [],
     ev_uploadDir = [], ev_trustProxy = []\<rparr> True (Some (lit ''Bearer '' @ [65])) sample) = Fail 401 ''unauthorized'' []"
proof -
  let ?e = "\<lparr>ev_authSecret = [], ev_databaseUrl = [], ev_cronSecret = [65, 66], ev_baseUrl = [],
     ev_uploadDir = [], ev_trustProxy = []\<rparr> :: env"
  have "\<forall>c \<in> set (ev_cronSecret ?e). c < 128" by simp
  from cron_answers_its_secret[OF this, of True "Some (lit ''Bearer '' @ [65])" sample]
  show ?thesis by (simp add: lit_def)
qed

subsection \<open>The detail of a database failure\<close>

text \<open>
  A broken database is always reported with something to read: the detail is never empty,
  has at most 200 characters, and is not the generic header Prisma puts before the reason
  (unless it was cut from a longer line).
\<close>

theorem failure_detail_is_readable:
  "dbErrorDetail message \<noteq> [] \<and> length (dbErrorDetail message) \<le> 200 \<and>
   (length (dbErrorDetail message) < 200 \<longrightarrow> \<not> is_invocation (dbErrorDetail message))"
proof -
  let ?ls = "filter (\<lambda>l. 0 < length l \<and> \<not> is_invocation l) (map trim (split_on 10 message))"
  have u: "\<not> is_invocation (lit ''unreachable'')"
    by (simp add: is_invocation_def strip_colon_def starts_with_def lit_def Let_def)
  show ?thesis
  proof (cases ?ls)
    case Nil
    then show ?thesis using u by (simp add: dbErrorDetail_def)
  next
    case (Cons l ls)
    then have "l \<in> set ?ls" by (metis list.set_intros(1))
    then have "l \<noteq> []" "\<not> is_invocation l" by auto
    then show ?thesis using Cons by (auto simp: dbErrorDetail_def)
  qed
qed

subsection \<open>A stopped sweep is noticed\<close>

text \<open>
  What can happen to the server process: instrumentation runs (at boot, and again after a hot
  reload), a timer that was registered fires, and time passes. \<open>up\<close> tells whether the database
  answered the job.
\<close>

datatype happening = Instrument bool | Fires job bool | Passes nat

fun happen :: "happening \<Rightarrow> process \<times> server \<Rightarrow> process \<times> server" where
  "happen (Instrument up) ps = startScheduler up ps"
| "happen (Fires j up) ps = (if j \<in> fst ` set (pr_timers (fst ps)) then run_job j up ps else ps)"
| "happen (Passes ms) ps = (fst ps, (snd ps)\<lparr>now := now (snd ps) + int ms\<rparr>)"

text \<open>How long ago the last sweep was started, read from the history alone.\<close>

fun since_sweep :: "happening \<Rightarrow> nat option \<Rightarrow> nat option" where
  "since_sweep (Instrument up) ago = (case ago of None \<Rightarrow> Some 0 | Some m \<Rightarrow> Some m)"
| "since_sweep (Fires j up) ago = (if j = Sweep_job \<and> ago \<noteq> None then Some 0 else ago)"
| "since_sweep (Passes ms) ago = map_option (\<lambda>m. m + ms) ago"

definition ALL_TIMERS :: "(job \<times> int) list" where
  "ALL_TIMERS = [(Sweep_job, 60000), (Visits_job, 600000), (Retention_job, 3600000)]"

fun tracks :: "nat option \<Rightarrow> process \<times> server \<Rightarrow> bool" where
  "tracks None (p, s) = (p = fresh_process)"
| "tracks (Some m) (p, s) = (pr_started p \<and> pr_timers p = ALL_TIMERS \<and>
     (\<exists>st. pr_state p = Some st \<and> sd_lastSweepAt st = Some (now s - int m)))"

lemma abandon_now: "now (snd (abandon_all vs s)) = now s"
  by (induction vs s rule: abandon_all.induct)
    (auto simp: abandon_visit_def Let_def publish_def split: option.splits if_splits)

lemma abandoned_now [simp]: "now (snd (closeAbandonedVisits s)) = now s"
  using abandon_now[of "filter (stale_visit s) (visits s)" s]
  by (simp add: closeAbandonedVisits_def Let_def split_beta)

lemma tracks_step: "tracks ago ps \<Longrightarrow> tracks (since_sweep h ago) (happen h ps)"
  by (cases h; cases ago; cases ps)
    (auto simp: startScheduler_def fresh_process_def runSweep_def runAbandonedVisits_def runRetention_def
      ALL_TIMERS_def SWEEP_INTERVAL_MS_def VISIT_SWEEP_INTERVAL_MS_def RETENTION_INTERVAL_MS_def the_state_def Let_def)

lemma tracks_history: "tracks (fold since_sweep hs None) (fold happen hs (fresh_process, s))"
proof (induction hs rule: rev_induct)
  case Nil
  then show ?case by simp
next
  case (snoc h hs)
  then show ?case using tracks_step by simp
qed

text \<open>
  A stopped sweep is noticed, and a hot reload schedules nothing twice. After any history of
  boots, reloads, timer ticks (with the database up or down) and passing time, the health check
  answers 200 exactly when the database answers it and the last sweep was started, by boot or by
  its timer, less than three minutes before; a sweep that failed counts as one that ran. Every
  other case is 503, and the timers registered are none before the first boot and the three jobs,
  once each, ever after.
\<close>

theorem stopped_sweep_is_noticed:
  "case fold happen hs (fresh_process, s) of (p, s') \<Rightarrow>
     (fst (GET_health e a b uptime header p (now s')) = 200 \<longleftrightarrow>
        (\<exists>ms. a = Answered ms) \<and> (\<exists>m < 180000. fold since_sweep hs None = Some m)) \<and>
     fst (GET_health e a b uptime header p (now s')) \<in> {200, 503} \<and>
     pr_timers p = (if fold since_sweep hs None = None then [] else ALL_TIMERS)"
proof (cases "fold happen hs (fresh_process, s)")
  case (Pair p s')
  have t: "tracks (fold since_sweep hs None) (p, s')" using tracks_history[of hs s] Pair by simp
  show ?thesis
  proof (cases "fold since_sweep hs None")
    case None
    then show ?thesis using t Pair
      by (simp add: GET_health_def Let_def schedulerState_def scheduler_check_def fresh_process_def)
  next
    case (Some m)
    then obtain st where "pr_state p = Some st" "sd_lastSweepAt st = Some (now s' - int m)" "pr_timers p = ALL_TIMERS"
      using t by auto
    then show ?thesis using Pair Some
      by (cases a) (simp_all add: GET_health_def Let_def schedulerState_def scheduler_check_def database_check_def
          SWEEP_STALE_MS_def SWEEP_INTERVAL_MS_def)
  qed
qed

text \<open>A reload two minutes into a silence does not hide it.\<close>

lemma silence_after_reload:
  "fold since_sweep [Instrument True, Passes 60000, Fires Sweep_job False, Passes 120000, Instrument True,
     Passes 60000] None = Some 180000"
  by simp

end
