(* ===== verification/Orders.thy ===== *)
theory Orders
  imports TableSession "HOL-Library.Sublist"
begin

section \<open>A customer's orders\<close>

text \<open>
  \<open>src/app/api/orders/route.ts\<close> (\<open>POST\<close>, \<open>createOrderWithNextNumber\<close>, \<open>GET\<close>) and
  \<open>src/app/api/orders/[id]/cancel/route.ts\<close>. The parsed JSON body is an \<open>order_body\<close>
  (\<open>None\<close> when it is not JSON or a field has the wrong type); the numeric and length bounds of
  the schema are \<open>valid_order\<close>. Generated ids and the text of a schema error are arguments. The
  requests of other callers that run between two statements of a handler are an argument too: a
  function on the server state.
\<close>

subsection \<open>The submission\<close>

record order_line =
  ol_itemId :: id
  ol_qty :: int
  ol_note :: jstr
  ol_optionIds :: "id list"

record order_body =
  ob_items :: "order_line list"
  ob_idempotencyKey :: "string option"

definition valid_line :: "order_line \<Rightarrow> bool" where
  "valid_line l \<longleftrightarrow> 1 \<le> ol_qty l \<and> ol_qty l \<le> 20 \<and> length (ol_note l) \<le> 200 \<and>
     length (ol_optionIds l) \<le> 20"

definition valid_order :: "order_body \<Rightarrow> bool" where
  "valid_order b \<longleftrightarrow> list_all valid_line (ob_items b) \<and> 1 \<le> length (ob_items b) \<and>
     length (ob_items b) \<le> 30 \<and>
     (case ob_idempotencyKey b of None \<Rightarrow> True | Some k \<Rightarrow> 8 \<le> length k \<and> length k \<le> 64)"

definition MAX_ORDERS_PER_SESSION_WINDOW :: nat where "MAX_ORDERS_PER_SESSION_WINDOW = 5"
definition SESSION_WINDOW_MS :: int where "SESSION_WINDOW_MS = 10 * 60 * 1000"
definition MAX_OPEN_ORDERS_PER_TABLE :: nat where "MAX_OPEN_ORDERS_PER_TABLE = 10"
definition NO_SESSION_PER_IP :: "int \<times> int" where "NO_SESSION_PER_IP = (20, 10 * 60)"
definition NO_SESSION_GLOBAL :: "int \<times> int" where "NO_SESSION_GLOBAL = (200, 10 * 60)"
definition NUMBER_RETRIES :: nat where "NUMBER_RETRIES = 5"

subsection \<open>Pricing from the live menu\<close>

text \<open>A line before it is stored: an order item without its generated id.\<close>

record draft_item =
  di_itemId :: id
  di_nameSnapshot :: jstr
  di_unitPriceKurus :: int
  di_qty :: int
  di_note :: jstr
  di_modifiers :: "chosen_modifier list"

datatype price_error = Item_unavailable id | Unknown_option | Invalid_modifiers id

text \<open>\<open>new Map(entries)\<close>: a later entry replaces an earlier one with the same key.\<close>

definition all_options :: "menu_item \<Rightarrow> (id \<times> (modifier_option \<times> id)) list" where
  "all_options item = concat (map (\<lambda>g. map (\<lambda>o'. (mo_id o', (o', mg_id g))) (mg_options g))
     (mi_modifierGroups item))"

definition option_of :: "menu_item \<Rightarrow> id \<Rightarrow> (modifier_option \<times> id) option" where
  "option_of item i = map_of (rev (all_options item)) i"

definition chosen_options :: "menu_item \<Rightarrow> id list \<Rightarrow> (modifier_option \<times> id) list" where
  "chosen_options item ids = List.map_filter (option_of item) ids"

definition group_violation :: "(modifier_option \<times> id) list \<Rightarrow> modifier_group \<Rightarrow> bool" where
  "group_violation chosen g \<longleftrightarrow>
     (let n = int (length (filter (\<lambda>(o', gid). gid = mg_id g) chosen))
      in n < mg_minSelect g \<or> n > mg_maxSelect g)"

definition option_sum :: "(modifier_option \<times> id) list \<Rightarrow> int" where
  "option_sum chosen = sum_list (map (\<lambda>(o', gid). mo_priceDeltaKurus o') chosen)"

definition price_line :: "id \<Rightarrow> server \<Rightarrow> order_line \<Rightarrow> (price_error, draft_item) outcome" where
  "price_line venueId s l =
     (case findFirst (\<lambda>m. mi_id m = ol_itemId l \<and> mi_venueId m = venueId) (menuItems s) of
        None \<Rightarrow> Refused (Item_unavailable (ol_itemId l))
      | Some item \<Rightarrow>
          if \<not> mi_available item then Refused (Item_unavailable (ol_itemId l))
          else (let chosen = chosen_options item (ol_optionIds l) in
            if length chosen \<noteq> length (ol_optionIds l) then Refused Unknown_option
            else (case findFirst (group_violation chosen) (mi_modifierGroups item) of
                Some g \<Rightarrow> Refused (Invalid_modifiers (mg_id g))
              | None \<Rightarrow> Done \<lparr>di_itemId = mi_id item, di_nameSnapshot = mi_nameTr item,
                  di_unitPriceKurus = mi_priceKurus item + option_sum chosen,
                  di_qty = ol_qty l, di_note = ol_note l,
                  di_modifiers = map (\<lambda>(o', gid). \<lparr>cm_name = mo_nameTr o',
                    cm_priceDeltaKurus = mo_priceDeltaKurus o'\<rparr>) chosen\<rparr>)))"

fun price_lines ::
  "id \<Rightarrow> server \<Rightarrow> order_line list \<Rightarrow> int \<times> draft_item list \<Rightarrow> (price_error, int \<times> draft_item list) outcome"
where
  "price_lines venueId s [] acc = Done acc"
| "price_lines venueId s (l # ls) (amount, items) =
     (case price_line venueId s l of
        Refused e \<Rightarrow> Refused e
      | Threw \<Rightarrow> Threw
      | Done d \<Rightarrow> price_lines venueId s ls (amount + di_unitPriceKurus d * di_qty d, items @ [d]))"

subsection \<open>Ticket numbers and the insert\<close>

record order_input =
  in_venueId :: id
  in_tableId :: id
  in_sessionId :: id
  in_visitId :: "id option"
  in_totalKurus :: int
  in_idempotencyKey :: "string option"
  in_items :: "draft_item list"

datatype db_error = P2002 "string list" | Other_db_error

definition conflictFields :: "db_error \<Rightarrow> string list option" where
  "conflictFields err = (case err of P2002 target \<Rightarrow> Some target | Other_db_error \<Rightarrow> None)"

definition isIdempotencyConflict :: "db_error \<Rightarrow> bool" where
  "isIdempotencyConflict err = (case conflictFields err of
     None \<Rightarrow> False | Some cols \<Rightarrow> list_ex (sublist ''idempotencyKey'') cols)"

definition isTicketNumberConflict :: "db_error \<Rightarrow> bool" where
  "isTicketNumberConflict err = (case conflictFields err of
     None \<Rightarrow> False
   | Some cols \<Rightarrow> \<not> list_ex (sublist ''idempotencyKey'') cols \<and>
       list_ex (\<lambda>f. sublist ''number'' f \<or> sublist ''venueId'' f) cols)"

definition last_number :: "id \<Rightarrow> server \<Rightarrow> int" where
  "last_number venueId s =
     (case orderByDesc ord_number (filter (\<lambda>o'. ord_venueId o' = venueId) (orders s)) of
        [] \<Rightarrow> 0 | o' # _ \<Rightarrow> ord_number o')"

definition item_of_draft :: "id \<Rightarrow> draft_item \<Rightarrow> order_item" where
  "item_of_draft i d = \<lparr>oi_id = i, oi_itemId = Some (di_itemId d),
     oi_nameSnapshot = di_nameSnapshot d, oi_unitPriceKurus = di_unitPriceKurus d,
     oi_qty = di_qty d, oi_note = di_note d, oi_modifiers = di_modifiers d, oi_voidedAt = None\<rparr>"

definition order_of_input ::
  "id \<Rightarrow> (nat \<Rightarrow> id) \<Rightarrow> int \<Rightarrow> time \<Rightarrow> order_input \<Rightarrow> order" where
  "order_of_input oid lineId n t input = \<lparr>ord_id = oid, ord_venueId = in_venueId input,
     ord_tableId = in_tableId input, ord_sessionId = in_sessionId input,
     ord_visitId = in_visitId input, ord_number = n, ord_status = Received,
     ord_rejectReason = None, ord_totalKurus = in_totalKurus input, ord_paymentStatus = Unpaid,
     ord_paymentProvider = None, ord_idempotencyKey = in_idempotencyKey input, ord_createdAt = t,
     ord_items = map (\<lambda>(i, d). item_of_draft (lineId i) d) (enumerate 0 (in_items input))\<rparr>"

text \<open>
  The insert against the two unique indexes of the table, checked in the order they were created;
  the columns of the violated index are the \<open>target\<close> Prisma reports. Two null keys are
  distinct.
\<close>

definition insert_order :: "order \<Rightarrow> server \<Rightarrow> (db_error, server) outcome" where
  "insert_order o' s =
     (if \<not> (int4 (ord_number o') \<and> int4 (ord_totalKurus o') \<and>
         list_all (\<lambda>i. int4 (oi_unitPriceKurus i) \<and> int4 (oi_qty i)) (ord_items o'))
      then Refused Other_db_error
      else if list_ex (\<lambda>x. ord_venueId x = ord_venueId o' \<and> ord_number x = ord_number o') (orders s)
      then Refused (P2002 [''venueId'', ''number''])
      else if ord_idempotencyKey o' \<noteq> None \<and>
        list_ex (\<lambda>x. ord_sessionId x = ord_sessionId o' \<and> ord_idempotencyKey x = ord_idempotencyKey o')
          (orders s)
      then Refused (P2002 [''sessionId'', ''idempotencyKey''])
      else Done (s\<lparr>orders := orders s @ [o']\<rparr>))"

definition has_key :: "string option \<Rightarrow> bool" where
  "has_key k \<longleftrightarrow> (case k of None \<Rightarrow> False | Some x \<Rightarrow> x \<noteq> [])"

text \<open>
  \<open>n\<close> attempts are left. \<open>busy k\<close> is what the others do between the \<open>k\<close>-th read of the
  highest number and the insert that uses it, \<open>idle k\<close> what they do during the backoff.
\<close>

fun create_attempts ::
  "nat \<Rightarrow> (nat \<Rightarrow> server \<Rightarrow> server) \<Rightarrow> (nat \<Rightarrow> server \<Rightarrow> server) \<Rightarrow> id \<Rightarrow> (nat \<Rightarrow> id) \<Rightarrow> order_input \<Rightarrow> server
   \<Rightarrow> (unit, order option) outcome \<times> server" where
  "create_attempts 0 busy idle oid lineId input s = (Done None, s)"
| "create_attempts (Suc n) busy idle oid lineId input s =
     (let k = last_number (in_venueId input) s;
          s1 = busy n s;
          o' = order_of_input oid lineId (k + 1) (now s1) input
      in case insert_order o' s1 of
           Done s2 \<Rightarrow> (Done (Some o'), s2)
         | Threw \<Rightarrow> (Threw, s1)
         | Refused err \<Rightarrow>
             if isIdempotencyConflict err \<and> has_key (in_idempotencyKey input)
             then (case findFirst (\<lambda>x. ord_sessionId x = in_sessionId input \<and>
                    ord_idempotencyKey x = in_idempotencyKey input) (orders s1) of
                     Some x \<Rightarrow> (Done (Some x), s1) | None \<Rightarrow> (Threw, s1))
             else if \<not> isTicketNumberConflict err then (Threw, s1)
             else if n = 0 then (Done None, s1)
             else create_attempts n busy idle oid lineId input (idle n s1))"

definition createOrderWithNextNumber ::
  "(nat \<Rightarrow> server \<Rightarrow> server) \<Rightarrow> (nat \<Rightarrow> server \<Rightarrow> server) \<Rightarrow> id \<Rightarrow> (nat \<Rightarrow> id) \<Rightarrow> order_input \<Rightarrow> server
   \<Rightarrow> (unit, order option) outcome \<times> server" where
  "createOrderWithNextNumber = create_attempts NUMBER_RETRIES"

subsection \<open>Placing an order\<close>

record order_ok =
  ok_orderId :: id
  ok_number :: int
  ok_replayed :: bool

definition session_extra :: "active_session \<Rightarrow> attempt_extra" where
  "session_extra a = no_extra\<lparr>ax_venueId := Some (as_venueId a), ax_tableId := Some (as_tableId a),
     ax_sessionId := Some (as_id a)\<rparr>"

definition find_replay :: "id \<Rightarrow> string option \<Rightarrow> server \<Rightarrow> order option" where
  "find_replay sid key s = (if has_key key
     then findFirst (\<lambda>o'. ord_sessionId o' = sid \<and> ord_idempotencyKey o' = key) (orders s) else None)"

definition order_caps_hit :: "active_session \<Rightarrow> server \<Rightarrow> nat \<times> nat" where
  "order_caps_hit a s =
     (countWhere (\<lambda>o'. ord_sessionId o' = as_id a \<and> ord_createdAt o' > now s - SESSION_WINDOW_MS) (orders s),
      countWhere (\<lambda>o'. ord_tableId o' = as_tableId a \<and>
        ord_status o' \<in> {Received, Accepted, Preparing, Ready}) (orders s))"

text \<open>Everything between the session check and the insert: a final answer, or the order to insert.\<close>

definition order_checks ::
  "jstr \<Rightarrow> request \<Rightarrow> active_session \<Rightarrow> order_body option \<Rightarrow> server
   \<Rightarrow> (order_ok response \<times> server) + order_input" where
  "order_checks zodMessage req a body s =
     (let bad = (Fail 400 ''invalid_order'' [],
            logAttempt req ''validation_error'' ((session_extra a)\<lparr>ax_detail := take 300 zodMessage\<rparr>) s)
      in case body of
           None \<Rightarrow> Inl bad
         | Some b \<Rightarrow>
             if \<not> valid_order b then Inl bad else
             (case find_replay (as_id a) (ob_idempotencyKey b) s of
                Some o' \<Rightarrow> Inl (Ok \<lparr>ok_orderId = ord_id o', ok_number = ord_number o', ok_replayed = True\<rparr>, s)
              | None \<Rightarrow>
                  (let (recent, opened) = order_caps_hit a s in
                   if recent \<ge> MAX_ORDERS_PER_SESSION_WINDOW \<or> opened \<ge> MAX_OPEN_ORDERS_PER_TABLE
                   then Inl (Fail 429 ''rate_limited'' [],
                     logAttempt req ''rate_limited'' ((session_extra a)\<lparr>ax_detail :=
                       lit ''recent='' @ show_nat recent @ lit '' open='' @ show_nat opened\<rparr>) s)
                   else (case price_lines (as_venueId a) s (ob_items b) (0, []) of
                       Refused (Item_unavailable i) \<Rightarrow>
                         Inl (Fail 409 ''item_unavailable'' [(''itemId'', FStr i)],
                           logAttempt req ''validation_error'' ((session_extra a)\<lparr>ax_detail :=
                             lit ''unavailable item '' @ lit i\<rparr>) s)
                     | Refused Unknown_option \<Rightarrow>
                         Inl (Fail 400 ''invalid_order'' [],
                           logAttempt req ''validation_error'' ((session_extra a)\<lparr>ax_detail :=
                             lit ''unknown modifier option''\<rparr>) s)
                     | Refused (Invalid_modifiers g) \<Rightarrow>
                         Inl (Fail 400 ''invalid_modifiers'' [(''groupId'', FStr g)], s)
                     | Threw \<Rightarrow> Inl (Crash, s)
                     | Done (amount, items) \<Rightarrow>
                         Inr \<lparr>in_venueId = as_venueId a, in_tableId = as_tableId a,
                           in_sessionId = as_id a, in_visitId = as_visitId a, in_totalKurus = amount,
                           in_idempotencyKey = ob_idempotencyKey b, in_items = items\<rparr>))))"

definition order_finish ::
  "request \<Rightarrow> active_session \<Rightarrow> (unit, order option) outcome \<times> server \<Rightarrow> order_ok response \<times> server" where
  "order_finish req a res =
     (case res of
        (Done (Some o'), s) \<Rightarrow>
          (Ok \<lparr>ok_orderId = ord_id o', ok_number = ord_number o', ok_replayed = False\<rparr>,
           publish (OrderCreated (as_venueId a) (ord_id o') (as_id a) (as_tableId a))
             (logAttempt req ''ok'' ((session_extra a)\<lparr>ax_orderId := Some (ord_id o')\<rparr>) s))
      | (Done None, s) \<Rightarrow>
          (Fail 503 ''order_failed'' [],
           logAttempt req ''number_conflict'' ((session_extra a)\<lparr>ax_detail :=
             lit ''exhausted ticket-number retries''\<rparr>) s)
      | (_, s) \<Rightarrow> (Crash, s))"

definition POST_orders ::
  "(nat \<Rightarrow> server \<Rightarrow> server) \<Rightarrow> (nat \<Rightarrow> server \<Rightarrow> server) \<Rightarrow> jstr \<Rightarrow> id \<Rightarrow> (nat \<Rightarrow> id) \<Rightarrow> request
   \<Rightarrow> order_body option \<Rightarrow> server \<Rightarrow> order_ok response \<times> server" where
  "POST_orders busy idle zodMessage oid lineId req body s =
     (case getActiveSession (rq_tableSession req) None s of
        (None, s1) \<Rightarrow>
          (let (allowed, ws) = writeBudget (now s1) (lit ''order:nosession'') (clientIp (trustProxy s1) req)
                 NO_SESSION_PER_IP NO_SESSION_GLOBAL (windows s1);
               s2 = s1\<lparr>windows := ws\<rparr>
           in (Fail 401 ''no_session'' [],
               if allowed then logAttempt req ''expired_session'' no_extra s2 else s2))
      | (Some a, s1) \<Rightarrow>
          (case order_checks zodMessage req a body s1 of
             Inl r \<Rightarrow> r
           | Inr input \<Rightarrow>
               order_finish req a (createOrderWithNextNumber busy idle oid lineId input s1)))"

subsection \<open>Reading the party's orders\<close>

record customer_order =
  co_id :: id
  co_number :: int
  co_status :: order_status
  co_rejectReason :: "jstr option"
  co_totalKurus :: int
  co_createdAt :: time
  co_mine :: bool
  co_items :: "(jstr \<times> int \<times> jstr \<times> int \<times> chosen_modifier list) list"

definition customer_order_of :: "id \<Rightarrow> order \<Rightarrow> customer_order" where
  "customer_order_of sid o' = \<lparr>co_id = ord_id o', co_number = ord_number o',
     co_status = ord_status o', co_rejectReason = ord_rejectReason o',
     co_totalKurus = ord_totalKurus o', co_createdAt = ord_createdAt o',
     co_mine = (ord_sessionId o' = sid),
     co_items = map (\<lambda>i. (oi_nameSnapshot i, oi_qty i, oi_note i, oi_unitPriceKurus i, oi_modifiers i))
       (ord_items o')\<rparr>"

definition party_order :: "active_session \<Rightarrow> time \<Rightarrow> order \<Rightarrow> bool" where
  "party_order a t o' = (case as_visitId a of
     Some v \<Rightarrow> v \<noteq> [] \<and> ord_visitId o' = Some v \<or>
       v = [] \<and> ord_tableId o' = as_tableId a \<and> ord_createdAt o' > t - 4 * 60 * 60 * 1000
   | None \<Rightarrow> ord_tableId o' = as_tableId a \<and> ord_createdAt o' > t - 4 * 60 * 60 * 1000)"

definition GET_orders :: "request \<Rightarrow> server \<Rightarrow> customer_order list response \<times> server" where
  "GET_orders req s =
     (case getActiveSession (rq_tableSession req) None s of
        (None, s1) \<Rightarrow> (Fail 401 ''no_session'' [], s1)
      | (Some a, s1) \<Rightarrow>
          (Ok (map (customer_order_of (as_id a))
             (orderByDesc ord_createdAt (filter (party_order a (now s1)) (orders s1)))), s1))"

subsection \<open>Withdrawing an order\<close>

definition cancel_read :: "active_session \<Rightarrow> id \<Rightarrow> server \<Rightarrow> (unit response, order) outcome" where
  "cancel_read a oid s =
     (case findFirst (\<lambda>o'. ord_id o' = oid \<and> ord_sessionId o' = as_id a) (orders s) of
        None \<Rightarrow> Refused (Fail 404 ''not_found'' [])
      | Some o' \<Rightarrow>
          if ord_status o' \<noteq> CUSTOMER_CANCELLABLE
          then Refused (Fail 409 ''already_accepted'' [(''status'', FStr (status_label (ord_status o')))])
          else Done o')"

definition cancellable :: "id \<Rightarrow> order \<Rightarrow> bool" where
  "cancellable oid o' \<longleftrightarrow> ord_id o' = oid \<and> ord_status o' = CUSTOMER_CANCELLABLE"

definition mark_cancelled :: "order \<Rightarrow> order" where
  "mark_cancelled o' = o'\<lparr>ord_status := Cancelled\<rparr>"

definition cancel_write :: "request \<Rightarrow> active_session \<Rightarrow> id \<Rightarrow> server \<Rightarrow> unit response \<times> server" where
  "cancel_write req a oid s =
     (if countWhere (cancellable oid) (orders s) = 0 then (Fail 409 ''already_accepted'' [], s)
      else (Ok (), publish (OrderUpdated (as_venueId a) oid (as_id a) (as_tableId a))
        (logAttempt req ''customer_cancelled'' ((session_extra a)\<lparr>ax_orderId := Some oid\<rparr>)
          (s\<lparr>orders := updateMany (cancellable oid) mark_cancelled (orders s)\<rparr>))))"

definition POST_cancel :: "request \<Rightarrow> id \<Rightarrow> server \<Rightarrow> unit response \<times> server" where
  "POST_cancel req oid s =
     (case getActiveSession (rq_tableSession req) None s of
        (None, s1) \<Rightarrow> (Fail 401 ''no_session'' [], s1)
      | (Some a, s1) \<Rightarrow>
          (case cancel_read a oid s1 of
             Refused r \<Rightarrow> (r, s1)
           | Threw \<Rightarrow> (Crash, s1)
           | Done o' \<Rightarrow> cancel_write req a oid s1))"

subsection \<open>What the pricing loop computes\<close>

text \<open>The contract of a priced line: every amount comes from the menu row of the session's venue.\<close>

definition priced_by :: "id \<Rightarrow> server \<Rightarrow> order_line \<Rightarrow> draft_item \<Rightarrow> bool" where
  "priced_by venueId s l d \<longleftrightarrow>
     (\<exists>item opts. item \<in> set (menuItems s) \<and> mi_id item = ol_itemId l \<and> mi_venueId item = venueId \<and>
        mi_available item \<and>
        map (\<lambda>(o', gid). mo_id o') opts = ol_optionIds l \<and>
        (\<forall>(o', gid) \<in> set opts. \<exists>g \<in> set (mi_modifierGroups item). mg_id g = gid \<and> o' \<in> set (mg_options g)) \<and>
        (\<forall>g \<in> set (mi_modifierGroups item). \<not> group_violation opts g) \<and>
        di_itemId d = ol_itemId l \<and> di_qty d = ol_qty l \<and> di_note d = ol_note l \<and>
        di_nameSnapshot d = mi_nameTr item \<and>
        di_unitPriceKurus d = mi_priceKurus item + option_sum opts)"

lemma option_of_SomeD:
  assumes "option_of item i = Some (o', gid)"
  shows "mo_id o' = i \<and> (\<exists>g \<in> set (mi_modifierGroups item). mg_id g = gid \<and> o' \<in> set (mg_options g))"
proof -
  have "(i, (o', gid)) \<in> set (all_options item)"
    using map_of_SomeD[OF assms[unfolded option_of_def]] by simp
  then show ?thesis by (auto simp: all_options_def)
qed

lemma map_filter_all:
  "length (List.map_filter f xs) = length xs \<Longrightarrow> map Some (List.map_filter f xs) = map f xs"
proof (induction xs)
  case (Cons x xs)
  have "length (List.map_filter f xs) \<le> length xs"
    by (simp add: List.map_filter_def)
  with Cons show ?case by (cases "f x") (auto simp: map_filter_simps)
qed simp

lemma chosen_options_full:
  assumes "length (chosen_options item ids) = length ids"
  shows "map (\<lambda>(o', gid). mo_id o') (chosen_options item ids) = ids \<and>
    (\<forall>(o', gid) \<in> set (chosen_options item ids). \<exists>g \<in> set (mi_modifierGroups item).
       mg_id g = gid \<and> o' \<in> set (mg_options g))"
proof -
  let ?c = "chosen_options item ids"
  have eq: "map Some ?c = map (option_of item) ids"
    using map_filter_all assms by (simp add: chosen_options_def)
  have nth: "option_of item (ids ! i) = Some (?c ! i)" if "i < length ids" for i
    using arg_cong[OF eq, of "\<lambda>xs. xs ! i"] that assms by simp
  have "map (\<lambda>(o', gid). mo_id o') ?c = ids"
  proof (rule nth_equalityI)
    fix i assume "i < length (map (\<lambda>(o', gid). mo_id o') ?c)"
    then show "map (\<lambda>(o', gid). mo_id o') ?c ! i = ids ! i"
      using nth[of i] assms option_of_SomeD[of item "ids ! i"] by (cases "?c ! i") auto
  qed (simp add: assms)
  moreover have "\<forall>(o', gid) \<in> set ?c. \<exists>g \<in> set (mi_modifierGroups item). mg_id g = gid \<and> o' \<in> set (mg_options g)"
    using nth assms by (fastforce simp: in_set_conv_nth dest: option_of_SomeD)
  ultimately show ?thesis by blast
qed

lemma price_line_Done: "price_line venueId s l = Done d \<Longrightarrow> priced_by venueId s l d"
proof -
  assume fin: "price_line venueId s l = Done d"
  then obtain item where item: "findFirst (\<lambda>m. mi_id m = ol_itemId l \<and> mi_venueId m = venueId) (menuItems s) = Some item"
    by (auto simp: price_line_def split: option.splits)
  let ?c = "chosen_options item (ol_optionIds l)"
  have ok: "mi_available item" "length ?c = length (ol_optionIds l)"
    "findFirst (group_violation ?c) (mi_modifierGroups item) = None"
    using fin by (auto simp: price_line_def item Let_def split: if_splits option.splits)
  then have d: "d = \<lparr>di_itemId = mi_id item, di_nameSnapshot = mi_nameTr item,
      di_unitPriceKurus = mi_priceKurus item + option_sum ?c, di_qty = ol_qty l, di_note = ol_note l,
      di_modifiers = map (\<lambda>(o', gid). \<lparr>cm_name = mo_nameTr o', cm_priceDeltaKurus = mo_priceDeltaKurus o'\<rparr>) ?c\<rparr>"
    using fin by (auto simp: price_line_def item Let_def)
  show ?thesis
    unfolding priced_by_def
    using findFirst_SomeD[OF item] ok chosen_options_full[OF ok(2)]
    by (intro exI[of _ item] exI[of _ ?c]) (auto simp: d findFirst_None_iff)
qed

lemma price_lines_Done:
  "price_lines venueId s ls (amount, items) = Done (amount', items') \<Longrightarrow>
   \<exists>ds. items' = items @ ds \<and> list_all2 (priced_by venueId s) ls ds \<and>
     amount' = amount + sum_list (map (\<lambda>d. di_unitPriceKurus d * di_qty d) ds)"
proof (induction ls arbitrary: amount items)
  case (Cons l ls)
  then obtain d where d: "price_line venueId s l = Done d"
    and rest: "price_lines venueId s ls (amount + di_unitPriceKurus d * di_qty d, items @ [d]) = Done (amount', items')"
    by (auto split: outcome.splits)
  from Cons.IH[OF rest] obtain ds where ds: "items' = (items @ [d]) @ ds" "list_all2 (priced_by venueId s) ls ds"
    "amount' = amount + di_unitPriceKurus d * di_qty d + sum_list (map (\<lambda>d. di_unitPriceKurus d * di_qty d) ds)"
    by blast
  then show ?case using price_line_Done[OF d] by (intro exI[of _ "d # ds"]) simp
qed simp

lemma item_of_draft_fields [simp]:
  "oi_voidedAt (item_of_draft i d) = None" "line_total (item_of_draft i d) = di_unitPriceKurus d * di_qty d"
  by (simp_all add: item_of_draft_def line_total_def)

lemma map_enumerate_snd: "map (\<lambda>(i, d). f d) (enumerate k ds) = map f ds"
  by (induction ds arbitrary: k) auto

lemma worth_of_input:
  "order_worth (order_of_input oid lineId n t input) =
   sum_list (map (\<lambda>d. di_unitPriceKurus d * di_qty d) (in_items input))"
proof -
  have "live_items (order_of_input oid lineId n t input) = ord_items (order_of_input oid lineId n t input)"
    by (auto simp: live_items_def order_of_input_def filter_id_conv)
  then have "map line_total (live_items (order_of_input oid lineId n t input)) =
      map (\<lambda>(i, d). di_unitPriceKurus d * di_qty d) (enumerate 0 (in_items input))"
    by (simp add: order_of_input_def case_prod_unfold)
  then show ?thesis by (simp add: order_worth_def map_enumerate_snd)
qed

lemma order_checks_Inr:
  assumes "order_checks zm req a body s = Inr input"
  shows "\<exists>b. body = Some b \<and> valid_order b \<and> find_replay (as_id a) (ob_idempotencyKey b) s = None \<and>
    in_venueId input = as_venueId a \<and> in_tableId input = as_tableId a \<and> in_sessionId input = as_id a \<and>
    in_visitId input = as_visitId a \<and> in_idempotencyKey input = ob_idempotencyKey b \<and>
    list_all2 (priced_by (as_venueId a) s) (ob_items b) (in_items input) \<and>
    in_totalKurus input = sum_list (map (\<lambda>d. di_unitPriceKurus d * di_qty d) (in_items input))"
  using assms unfolding order_checks_def Let_def
  by (auto split: option.splits if_splits prod.splits outcome.splits price_error.splits
      dest!: price_lines_Done)

subsection \<open>What the retry loop produces\<close>

definition unique_numbers :: "order list \<Rightarrow> bool" where
  "unique_numbers os \<longleftrightarrow> distinct (map (\<lambda>o'. (ord_venueId o', ord_number o')) os)"

lemma insert_order_Done:
  "insert_order o' s = Done s' \<Longrightarrow> s' = s\<lparr>orders := orders s @ [o']\<rparr> \<and>
   (\<forall>x \<in> set (orders s). \<not> (ord_venueId x = ord_venueId o' \<and> ord_number x = ord_number o')) \<and>
   (ord_idempotencyKey o' \<noteq> None \<longrightarrow> (\<forall>x \<in> set (orders s).
      \<not> (ord_sessionId x = ord_sessionId o' \<and> ord_idempotencyKey x = ord_idempotencyKey o')))"
  by (auto simp: insert_order_def list_ex_iff split: if_splits)

lemma order_of_input_fields [simp]:
  "ord_id (order_of_input oid lineId n t input) = oid" "ord_venueId (order_of_input oid lineId n t input) = in_venueId input"
  "ord_number (order_of_input oid lineId n t input) = n"
  "ord_sessionId (order_of_input oid lineId n t input) = in_sessionId input"
  "ord_visitId (order_of_input oid lineId n t input) = in_visitId input"
  "ord_tableId (order_of_input oid lineId n t input) = in_tableId input"
  "ord_idempotencyKey (order_of_input oid lineId n t input) = in_idempotencyKey input"
  "ord_totalKurus (order_of_input oid lineId n t input) = in_totalKurus input"
  "ord_status (order_of_input oid lineId n t input) = Received"
  "ord_paymentStatus (order_of_input oid lineId n t input) = Unpaid"
  by (simp_all add: order_of_input_def)

text \<open>
  The ways the loop ends with an order: it inserted its own, under a number nobody in the venue
  has and as the only order of that session and key, or it read back the order another request
  inserted for the same key.
\<close>

definition own_insert ::
  "id \<Rightarrow> (nat \<Rightarrow> id) \<Rightarrow> order_input \<Rightarrow> order \<Rightarrow> server \<Rightarrow> bool" where
  "own_insert oid lineId input o' s' \<longleftrightarrow>
     (\<exists>n t s1. o' = order_of_input oid lineId n t input \<and> insert_order o' s1 = Done s')"

definition read_back :: "order_input \<Rightarrow> order \<Rightarrow> server \<Rightarrow> bool" where
  "read_back input o' s' \<longleftrightarrow> has_key (in_idempotencyKey input) \<and>
     findFirst (\<lambda>x. ord_sessionId x = in_sessionId input \<and>
       ord_idempotencyKey x = in_idempotencyKey input) (orders s') = Some o'"

lemma create_attempts_Some:
  "create_attempts n busy idle oid lineId input s = (Done (Some o'), s') \<Longrightarrow>
   own_insert oid lineId input o' s' \<or> read_back input o' s'"
proof (induction n arbitrary: s)
  case (Suc n)
  let ?s1 = "busy n s"
  let ?o = "order_of_input oid lineId (last_number (in_venueId input) s + 1) (now ?s1) input"
  show ?case
  proof (cases "insert_order ?o ?s1")
    case (Done s2)
    then show ?thesis using Suc.prems unfolding own_insert_def by auto
  next
    case (Refused err)
    then show ?thesis
      using Suc by (auto simp: Let_def read_back_def split: if_splits option.splits)
  next
    case Threw
    then show ?thesis using Suc.prems by simp
  qed
qed simp

lemma create_attempts_inv:
  assumes busy: "\<And>k x. P (orders x) \<Longrightarrow> P (orders (busy k x))" and idle: "\<And>k x. P (orders x) \<Longrightarrow> P (orders (idle k x))"
    and ins: "\<And>n t x x'. P (orders x) \<Longrightarrow> insert_order (order_of_input oid lineId n t input) x = Done x' \<Longrightarrow> P (orders x')"
  shows "P (orders s) \<Longrightarrow> P (orders (snd (create_attempts n busy idle oid lineId input s)))"
proof (induction n arbitrary: s)
  case (Suc n)
  let ?s1 = "busy n s"
  let ?o = "order_of_input oid lineId (last_number (in_venueId input) s + 1) (now ?s1) input"
  have s1: "P (orders ?s1)" by (rule busy[OF Suc.prems])
  show ?case
  proof (cases "insert_order ?o ?s1")
    case (Done s2)
    then show ?thesis using ins[OF s1 Done] by simp
  next
    case (Refused err)
    then show ?thesis using Suc.IH[OF idle[OF s1]] s1 by (auto simp: Let_def split: option.split)
  next
    case Threw
    then show ?thesis using s1 by simp
  qed
qed simp

lemma order_checks_Inl_orders:
  "order_checks zm req a body s = Inl (r, s') \<Longrightarrow> orders s' = orders s"
  unfolding order_checks_def Let_def
  by (auto split: option.splits if_splits prod.splits outcome.splits price_error.splits)

lemma order_finish_orders: "orders (snd (order_finish req a res)) = orders (snd res)"
  by (auto simp: order_finish_def split: prod.split outcome.split option.split)

text \<open>A property of the order table that the others and the insert keep is kept by the route.\<close>

lemma POST_orders_inv:
  assumes "\<And>k x. P (orders x) \<Longrightarrow> P (orders (busy k x))" "\<And>k x. P (orders x) \<Longrightarrow> P (orders (idle k x))"
    and "\<And>input n t x x' a b. body = Some b \<Longrightarrow> P (orders x) \<Longrightarrow>
      in_totalKurus input = sum_list (map (\<lambda>d. di_unitPriceKurus d * di_qty d) (in_items input)) \<Longrightarrow>
      insert_order (order_of_input oid lineId n t input) x = Done x' \<Longrightarrow> P (orders x')"
    and "P (orders s)"
  shows "P (orders (snd (POST_orders busy idle zm oid lineId req body s)))"
proof -
  obtain sa s1 where g: "getActiveSession (rq_tableSession req) None s = (sa, s1)"
    by (cases "getActiveSession (rq_tableSession req) None s")
  have s1: "P (orders s1)"
    using assms(4) getActiveSession_frame(4)[of "rq_tableSession req" None s] g by simp
  show ?thesis
  proof (cases sa)
    case None
    then show ?thesis using s1 by (simp add: POST_orders_def g case_prod_unfold Let_def)
  next
    case (Some a)
    show ?thesis
    proof (cases "order_checks zm req a body s1")
      case (Inl r)
      then show ?thesis
        using s1 order_checks_Inl_orders[of zm req a body s1 "fst r" "snd r"] by (simp add: POST_orders_def g Some)
    next
      case (Inr input)
      from order_checks_Inr[OF this] obtain b where "body = Some b"
        "in_totalKurus input = sum_list (map (\<lambda>d. di_unitPriceKurus d * di_qty d) (in_items input))" by blast
      note b = this
      have ins: "P (orders x')" if "P (orders x)" "insert_order (order_of_input oid lineId n t input) x = Done x'" for n t x x'
        using assms(3)[OF b(1) that(1) b(2) that(2)] .
      have "P (orders (snd (createOrderWithNextNumber busy idle oid lineId input s1)))"
        unfolding createOrderWithNextNumber_def
        using create_attempts_inv[where P = P and busy = busy and idle = idle, OF assms(1,2) ins s1] .
      then show ?thesis by (simp add: POST_orders_def g Some Inr order_finish_orders)
    qed
  qed
qed

lemma insert_unique_numbers:
  assumes "unique_numbers (orders x)" "insert_order o' x = Done x'"
  shows "unique_numbers (orders x')"
proof -
  have "x' = x\<lparr>orders := orders x @ [o']\<rparr>"
    "\<forall>y \<in> set (orders x). \<not> (ord_venueId y = ord_venueId o' \<and> ord_number y = ord_number o')"
    using insert_order_Done[OF assms(2)] by blast+
  then show ?thesis using assms(1) by (auto simp: unique_numbers_def)
qed

lemma insert_totals_current:
  "totals_current (orders x) \<Longrightarrow>
   in_totalKurus input = sum_list (map (\<lambda>d. di_unitPriceKurus d * di_qty d) (in_items input)) \<Longrightarrow>
   insert_order (order_of_input oid lineId n t input) x = Done x' \<Longrightarrow> totals_current (orders x')"
  by (auto simp: totals_current_def worth_of_input dest!: insert_order_Done)

subsection \<open>What a placed order is\<close>

lemma POST_orders_Ok:
  assumes "POST_orders busy idle zm oid lineId req body s = (Ok k, s')" and "\<not> ok_replayed k"
  shows "\<exists>a s1 input o' s2. getActiveSession (rq_tableSession req) None s = (Some a, s1) \<and>
    order_checks zm req a body s1 = Inr input \<and>
    createOrderWithNextNumber busy idle oid lineId input s1 = (Done (Some o'), s2) \<and>
    ok_orderId k = ord_id o' \<and> ok_number k = ord_number o' \<and> orders s' = orders s2"
proof -
  obtain sa s1 where g: "getActiveSession (rq_tableSession req) None s = (sa, s1)"
    by (cases "getActiveSession (rq_tableSession req) None s")
  with assms(1) obtain a where a: "sa = Some a"
    by (cases sa) (auto simp: POST_orders_def case_prod_unfold Let_def)
  have "\<not> (\<exists>s2. order_checks zm req a body s1 = Inl (Ok k, s2))"
    using assms(2) unfolding order_checks_def Let_def
    by (auto split: option.splits if_splits prod.splits outcome.splits price_error.splits)
  then obtain input where input: "order_checks zm req a body s1 = Inr input"
    using assms(1) by (cases "order_checks zm req a body s1") (auto simp: POST_orders_def g a)
  obtain r s2 where c: "createOrderWithNextNumber busy idle oid lineId input s1 = (r, s2)"
    by (cases "createOrderWithNextNumber busy idle oid lineId input s1")
  have fin: "order_finish req a (r, s2) = (Ok k, s')" using assms(1) by (simp add: POST_orders_def g a input c)
  then obtain o' where "r = Done (Some o')"
    by (auto simp: order_finish_def split: outcome.splits option.splits)
  then show ?thesis using fin g a input c by (auto simp: order_finish_def)
qed

lemma own_insert_in: "own_insert oid lineId input o' s' \<Longrightarrow> o' \<in> set (orders s')"
  by (auto simp: own_insert_def dest!: insert_order_Done)

lemma read_back_in: "read_back input o' s' \<Longrightarrow> o' \<in> set (orders s') \<and> ord_sessionId o' = in_sessionId input \<and>
    ord_idempotencyKey o' = in_idempotencyKey input \<and> in_idempotencyKey input \<noteq> None"
  by (auto simp: read_back_def has_key_def dest!: findFirst_SomeD split: option.splits)


definition phone1 :: request where
  "phone1 = bare_request\<lparr>rq_tableSession := Some ''tok1''\<rparr>"

definition sample_body :: order_body where
  "sample_body = \<lparr>ob_items = [\<lparr>ol_itemId = ''i1'', ol_qty = 2, ol_note = [], ol_optionIds = [''o1'']\<rparr>],
     ob_idempotencyKey = Some ''key-0001''\<rparr>"

abbreviation alone :: "nat \<Rightarrow> server \<Rightarrow> server" where
  "alone \<equiv> (\<lambda>_ x. x)"

definition sample_placed :: "order_ok response \<times> server" where
  "sample_placed = POST_orders alone alone [] ''o3'' (\<lambda>i. ''l9'') phone1 (Some sample_body) sample"

lemma sample_session_live:
  "getActiveSession (rq_tableSession phone1) None sample =
   (Some \<lparr>as_id = ''s1'', as_venueId = ''v1'', as_tableId = ''t1'', as_tableCode = ''T1'',
      as_tableName = lit ''Masa 1'', as_visitId = Some ''w1''\<rparr>, sample)"
  by (simp add: getActiveSession_def phone1_def bare_request_def sample_defs IDLE_MS_def TOUCH_INTERVAL_MS_def)

lemma sample_placed_ok:
  "fst sample_placed = Ok \<lparr>ok_orderId = ''o3'', ok_number = 3, ok_replayed = False\<rparr>"
  by (simp add: sample_placed_def POST_orders_def sample_session_live order_checks_def sample_body_def
      valid_order_def valid_line_def find_replay_def has_key_def order_caps_hit_def countWhere_def
      SESSION_WINDOW_MS_def MAX_ORDERS_PER_SESSION_WINDOW_def MAX_OPEN_ORDERS_PER_TABLE_def
      price_line_def chosen_options_def option_of_def all_options_def group_violation_def map_filter_simps
      option_sum_def createOrderWithNextNumber_def NUMBER_RETRIES_def numeral_eq_Suc
      last_number_def insert_order_def order_of_input_def order_finish_def orderByDesc_def sample_defs int4_def
      item_of_draft_def Let_def)

lemma sample_placed_run:
  "POST_orders alone alone [] ''o3'' (\<lambda>i. ''l9'') phone1 (Some sample_body) sample =
   (Ok \<lparr>ok_orderId = ''o3'', ok_number = 3, ok_replayed = False\<rparr>, snd sample_placed)"
  using sample_placed_ok by (simp add: sample_placed_def prod_eq_iff)


text \<open>
  C5: no two tickets of a venue share a number. Placing an order keeps ticket numbers unique per
  venue and every stored total equal to the worth of its lines, as long as the requests that
  interleave with it do, including when it loses the race for a number any number of times.
\<close>

theorem placing_keeps_order_table:
  assumes "\<And>k x. unique_numbers (orders x) \<and> totals_current (orders x) \<Longrightarrow>
      unique_numbers (orders (busy k x)) \<and> totals_current (orders (busy k x))"
    and "\<And>k x. unique_numbers (orders x) \<and> totals_current (orders x) \<Longrightarrow>
      unique_numbers (orders (idle k x)) \<and> totals_current (orders (idle k x))"
    and "unique_numbers (orders s)" "totals_current (orders s)"
  shows "unique_numbers (orders (snd (POST_orders busy idle zm oid lineId req body s))) \<and>
    totals_current (orders (snd (POST_orders busy idle zm oid lineId req body s)))"
proof (rule POST_orders_inv[where P = "\<lambda>os. unique_numbers os \<and> totals_current os"])
  fix input n t x x'
  assume "unique_numbers (orders x) \<and> totals_current (orders x)"
    "in_totalKurus input = sum_list (map (\<lambda>d. di_unitPriceKurus d * di_qty d) (in_items input))"
    "insert_order (order_of_input oid lineId n t input) x = Done x'"
  then show "unique_numbers (orders x') \<and> totals_current (orders x')"
    using insert_unique_numbers insert_totals_current by blast
qed (use assms in auto)

theorem placing_keeps_order_table_witness:
  "unique_numbers (orders (snd sample_placed)) \<and> totals_current (orders (snd sample_placed))"
  unfolding sample_placed_def
  by (rule placing_keeps_order_table)
    (simp_all add: sample_totals, simp add: unique_numbers_def sample_defs)

subsection \<open>When the loop gives up\<close>

lemma last_number_max:
  "o' \<in> set (orders s) \<Longrightarrow> ord_venueId o' = v \<Longrightarrow> ord_number o' \<le> last_number v s"
proof -
  assume o': "o' \<in> set (orders s)" "ord_venueId o' = v"
  let ?os = "orderByDesc ord_number (filter (\<lambda>o'. ord_venueId o' = v) (orders s))"
  have "o' \<in> set ?os" using o' by simp
  moreover have "sorted (map (\<lambda>o'. - ord_number o') ?os)" by (simp add: orderByDesc_def)
  ultimately show ?thesis by (cases ?os) (auto simp: last_number_def)
qed

definition fits :: "order_input \<Rightarrow> bool" where
  "fits input \<longleftrightarrow> int4 (in_totalKurus input) \<and>
     list_all (\<lambda>d. int4 (di_unitPriceKurus d) \<and> int4 (di_qty d)) (in_items input)"

lemma insert_own_cases:
  assumes "fits input" "int4 n"
  shows "(\<exists>s'. insert_order (order_of_input oid lineId n t input) s = Done s') \<or>
    insert_order (order_of_input oid lineId n t input) s = Refused (P2002 [''venueId'', ''number'']) \<and>
      (\<exists>x \<in> set (orders s). ord_venueId x = in_venueId input \<and> ord_number x = n) \<or>
    insert_order (order_of_input oid lineId n t input) s = Refused (P2002 [''sessionId'', ''idempotencyKey'']) \<and>
      in_idempotencyKey input \<noteq> None \<and>
      (\<exists>x \<in> set (orders s). ord_sessionId x = in_sessionId input \<and> ord_idempotencyKey x = in_idempotencyKey input)"
proof -
  have "list_all (\<lambda>i. int4 (oi_unitPriceKurus i) \<and> int4 (oi_qty i)) (ord_items (order_of_input oid lineId n t input))"
    using assms(1) by (auto simp: fits_def list_all_iff order_of_input_def item_of_draft_def in_set_enumerate_eq)
  then show ?thesis
    using assms by (auto simp: insert_order_def fits_def list_ex_iff)
qed

lemma conflict_kinds [simp]:
  "isTicketNumberConflict (P2002 [''venueId'', ''number''])"
  "\<not> isIdempotencyConflict (P2002 [''venueId'', ''number''])"
  "isIdempotencyConflict (P2002 [''sessionId'', ''idempotencyKey''])"
  by (code_simp)+

lemma create_attempts_succeeds:
  assumes quiet: "\<And>x. orders (busy j x) = orders x" and fit: "fits input"
    and key: "in_idempotencyKey input = None \<or> has_key (in_idempotencyKey input)"
    and keep: "\<And>k x. P x \<Longrightarrow> P (busy k x) \<and> P (idle k x)"
    and room: "\<And>x. P x \<Longrightarrow> int4 (last_number (in_venueId input) x + 1)"
  shows "j < n \<Longrightarrow> P s \<Longrightarrow> \<exists>o' s'. create_attempts n busy idle oid lineId input s = (Done (Some o'), s')"
proof (induction n arbitrary: s)
  case (Suc n)
  let ?n = "last_number (in_venueId input) s + 1"
  let ?s1 = "busy n s"
  let ?o = "order_of_input oid lineId ?n (now ?s1) input"
  from insert_own_cases[OF fit room[OF Suc.prems(2)], of oid lineId "now ?s1" ?s1] show ?case
  proof (elim disjE conjE exE)
    fix s' assume "insert_order ?o ?s1 = Done s'"
    then show ?thesis by simp
  next
    assume r: "insert_order ?o ?s1 = Refused (P2002 [''venueId'', ''number''])"
      "\<exists>x \<in> set (orders ?s1). ord_venueId x = in_venueId input \<and> ord_number x = ?n"
    have "n \<noteq> j"
      using r(2) last_number_max[of _ s "in_venueId input"] quiet by fastforce
    then have "j < n" using Suc.prems(1) by simp
    then show ?thesis
      using Suc.IH[OF \<open>j < n\<close>, of "idle n ?s1"] keep Suc.prems(2) r(1) by (auto simp: Let_def)
  next
    assume r: "insert_order ?o ?s1 = Refused (P2002 [''sessionId'', ''idempotencyKey''])"
      "in_idempotencyKey input \<noteq> None"
      "\<exists>x \<in> set (orders ?s1). ord_sessionId x = in_sessionId input \<and> ord_idempotencyKey x = in_idempotencyKey input"
    then obtain x where "findFirst (\<lambda>x. ord_sessionId x = in_sessionId input \<and>
        ord_idempotencyKey x = in_idempotencyKey input) (orders ?s1) = Some x"
      using findFirst_Some_ex[of _ "orders ?s1" "\<lambda>x. ord_sessionId x = in_sessionId input \<and>
        ord_idempotencyKey x = in_idempotencyKey input"] by blast
    then show ?thesis using r(1,2) key by (auto simp: Let_def)
  qed
qed simp


definition sample_input :: order_input where
  "sample_input = \<lparr>in_venueId = ''v1'', in_tableId = ''t1'', in_sessionId = ''s1'', in_visitId = Some ''w1'',
     in_totalKurus = 0, in_idempotencyKey = None, in_items = []\<rparr>"

text \<open>Another phone that takes the number of the first attempt.\<close>

definition rival_order :: order where
  "rival_order = sample_order ''r'' ''s2'' 3 Received 0 []"

definition rival :: "nat \<Rightarrow> server \<Rightarrow> server" where
  "rival k x = (if k = 4 \<and> length (orders x) = 2 then x\<lparr>orders := orders x @ [rival_order]\<rparr> else x)"


subsection \<open>Replays\<close>

definition same_key :: "id \<Rightarrow> string \<Rightarrow> order \<Rightarrow> bool" where
  "same_key sid key o' \<longleftrightarrow> ord_sessionId o' = sid \<and> ord_idempotencyKey o' = Some key"

lemma same_key_alt: "same_key sid key = (\<lambda>o'. ord_sessionId o' = sid \<and> ord_idempotencyKey o' = Some key)"
  by (auto simp: same_key_def)

lemma own_insert_found:
  assumes "own_insert oid lineId input o' s'" "in_idempotencyKey input = Some key"
  shows "findFirst (same_key (in_sessionId input) key) (orders s') = Some o'"
proof -
  from assms(1) obtain n t s1 where o': "o' = order_of_input oid lineId n t input" and ins: "insert_order o' s1 = Done s'"
    by (auto simp: own_insert_def)
  have "\<forall>x \<in> set (orders s1). \<not> same_key (in_sessionId input) key x"
    using insert_order_Done[OF ins] assms(2) by (auto simp: o' same_key_def)
  moreover have "orders s' = orders s1 @ [o']" using insert_order_Done[OF ins] by simp
  moreover have "findFirst p (xs @ [y]) = Some y" if "\<forall>x \<in> set xs. \<not> p x" "p y" for p xs and y :: order
    using that by (induction xs) auto
  moreover have "same_key (in_sessionId input) key o'" using assms(2) by (simp add: o' same_key_def)
  ultimately show ?thesis by metis
qed

lemma placed_found:
  assumes "POST_orders busy idle zm oid lineId req (Some b) s = (Ok k, s')" "ob_idempotencyKey b = Some key"
    and a: "fst (getActiveSession (rq_tableSession req) None s) = Some a"
  shows "\<exists>o'. findFirst (same_key (as_id a) key) (orders s') = Some o' \<and> ord_id o' = ok_orderId k \<and>
    ord_number o' = ok_number k"
proof (cases "ok_replayed k")
  case False
  from POST_orders_Ok[OF assms(1) False] a obtain s1 input o' s2 where
    checks: "order_checks zm req a (Some b) s1 = Inr input"
    and c: "create_attempts NUMBER_RETRIES busy idle oid lineId input s1 = (Done (Some o'), s2)"
    and k: "ok_orderId k = ord_id o'" "ok_number k = ord_number o'" "orders s' = orders s2"
    unfolding createOrderWithNextNumber_def by auto
  note input = order_checks_Inr[OF checks, simplified]
  have key: "in_idempotencyKey input = Some key" "in_sessionId input = as_id a" using input assms(2) by simp_all
  from create_attempts_Some[OF c] have "findFirst (same_key (as_id a) key) (orders s2) = Some o'"
    using own_insert_found[of oid lineId input o' s2 key] key by (auto simp: read_back_def same_key_alt)
  then show ?thesis using k by simp
next
  case True
  obtain s1 where g: "getActiveSession (rq_tableSession req) None s = (Some a, s1)"
    using a by (cases "getActiveSession (rq_tableSession req) None s") auto
  have "order_checks zm req a (Some b) s1 = Inl (Ok k, s')"
    using assms(1) True
    by (cases "order_checks zm req a (Some b) s1")
      (auto simp: POST_orders_def g order_finish_def split: prod.splits outcome.splits option.splits)
  then have "\<exists>o'. find_replay (as_id a) (ob_idempotencyKey b) s1 = Some o' \<and> s' = s1 \<and>
      k = \<lparr>ok_orderId = ord_id o', ok_number = ord_number o', ok_replayed = True\<rparr>"
    unfolding order_checks_def Let_def
    by (auto split: option.splits if_splits prod.splits outcome.splits price_error.splits)
  then show ?thesis
    using assms(2) by (auto simp: find_replay_def same_key_alt split: if_splits)
qed

lemma replay_answers:
  assumes first: "POST_orders busy idle zm oid lineId req (Some b) s = (Ok k, s')"
    and key: "ob_idempotencyKey b = Some key" "ob_idempotencyKey b' = Some key" "valid_order b'"
    and phone: "fst (getActiveSession (rq_tableSession req) None s) = Some a"
      "getActiveSession (rq_tableSession req') None s2 = (Some a', s3)" "as_id a' = as_id a"
    and kept: "map_option (\<lambda>o'. (ord_id o', ord_number o')) (findFirst (same_key (as_id a) key) (orders s2)) =
      map_option (\<lambda>o'. (ord_id o', ord_number o')) (findFirst (same_key (as_id a) key) (orders s'))"
  shows "POST_orders busy' idle' zm' oid' lineId' req' (Some b') s2 = (Ok (k\<lparr>ok_replayed := True\<rparr>), s3) \<and>
    orders s3 = orders s2"
proof -
  have o3: "orders s3 = orders s2"
    using getActiveSession_frame(4)[of "rq_tableSession req'" None s2] phone(2) by simp
  from placed_found[OF first key(1) phone(1)] kept obtain o2 where
    o2: "findFirst (same_key (as_id a) key) (orders s2) = Some o2" "ord_id o2 = ok_orderId k" "ord_number o2 = ok_number k"
    by auto
  have "has_key (Some key)" using key(2,3) by (auto simp: valid_order_def has_key_def)
  then have "find_replay (as_id a') (ob_idempotencyKey b') s3 = Some o2"
    using o2(1) by (simp add: find_replay_def key phone(3) o3 same_key_alt)
  then show ?thesis
    using o2(2,3) o3 key(3) by (simp add: POST_orders_def phone(2) order_checks_def)
qed

lemma sample_session_live':
  "getActiveSession (rq_tableSession phone1) None (sample\<lparr>orders := os\<rparr>) =
   (Some \<lparr>as_id = ''s1'', as_venueId = ''v1'', as_tableId = ''t1'', as_tableCode = ''T1'',
      as_tableName = lit ''Masa 1'', as_visitId = Some ''w1''\<rparr>, sample\<lparr>orders := os\<rparr>)"
  by (simp add: getActiveSession_def phone1_def bare_request_def sample_defs IDLE_MS_def TOUCH_INTERVAL_MS_def)

text \<open>
  C7: a retry never orders twice. Once a submission with a key has been answered with an order,
  every later valid submission of the same phone with that key, whatever its lines and however
  often, is answered with the same order and number, marked as a replay, and changes no order.
\<close>

theorem replay_returns_first_order:
  assumes first: "POST_orders busy idle zm oid lineId req (Some b) s = (Ok k, s')"
    and key: "ob_idempotencyKey b = Some key" "ob_idempotencyKey b' = Some key" "valid_order b'"
    and phone: "fst (getActiveSession (rq_tableSession req) None s) = Some a"
      "getActiveSession (rq_tableSession req') None s2 = (Some a', s3)" "as_id a' = as_id a"
    and kept: "map_option (\<lambda>o'. (ord_id o', ord_number o')) (findFirst (same_key (as_id a) key) (orders s2)) =
      map_option (\<lambda>o'. (ord_id o', ord_number o')) (findFirst (same_key (as_id a) key) (orders s'))"
  shows "POST_orders busy' idle' zm' oid' lineId' req' (Some b') s2 = (Ok (k\<lparr>ok_replayed := True\<rparr>), s3) \<and>
    orders s3 = orders s2"
  using assms by (rule replay_answers)

theorem replay_returns_first_order_witness:
  "fst (POST_orders alone alone [] ''o4'' (\<lambda>i. []) phone1 (Some sample_body)
     (sample\<lparr>orders := orders (snd sample_placed)\<rparr>)) =
   Ok \<lparr>ok_orderId = ''o3'', ok_number = 3, ok_replayed = True\<rparr>"
proof -
  have a: "fst (getActiveSession (rq_tableSession phone1) None sample) =
      Some \<lparr>as_id = ''s1'', as_venueId = ''v1'', as_tableId = ''t1'', as_tableCode = ''T1'',
        as_tableName = lit ''Masa 1'', as_visitId = Some ''w1''\<rparr>"
    by (simp add: sample_session_live)
  have key: "ob_idempotencyKey sample_body = Some ''key-0001''" "valid_order sample_body"
    by (simp_all add: sample_body_def valid_order_def valid_line_def)
  from replay_returns_first_order[OF sample_placed_run key(1) key(1,2) a sample_session_live' refl, of "orders (snd sample_placed)"]
  show ?thesis by simp
qed

end
