(* ===== verification/Venue.thy ===== *)
theory Venue
  imports TableSession Outbox
begin

section \<open>Venue settings, tables and credentials\<close>

text \<open>
  \<open>src/lib/venueSettings.ts\<close> and the administrator's routes under \<open>src/app/api/admin\<close>: venue,
  QR secret, bridge keys, tables, a table's QR image and sessions. Random bytes, generated ids,
  the public origin (\<open>baseUrl\<close>) and the PNG encoder are arguments. A field of a JSON body is
  \<open>None\<close> when it is absent, and otherwise the value after the conversion the code applies to it
  (\<open>String\<close>, \<open>Boolean\<close>).
\<close>

subsection \<open>Settings\<close>

definition POS_ADAPTERS :: "string list" where
  "POS_ADAPTERS = [''console'', ''escpos_bridge'']"

definition CURRENCIES :: "string list" where
  "CURRENCIES = [''TRY'', ''EUR'', ''USD'', ''GBP'']"

record venue_settings =
  vs_name :: "jstr option"
  vs_currency :: "string option"
  vs_defaultLocale :: "string option"
  vs_posAdapter :: "string option"

definition valid_venue_settings :: "venue_settings \<Rightarrow> bool" where
  "valid_venue_settings i \<longleftrightarrow>
     (case vs_name i of None \<Rightarrow> True | Some n \<Rightarrow> 1 \<le> length n \<and> length n \<le> 120) \<and>
     (case vs_currency i of None \<Rightarrow> True | Some c \<Rightarrow> c \<in> set CURRENCIES) \<and>
     (case vs_defaultLocale i of None \<Rightarrow> True | Some l \<Rightarrow> l \<in> {''tr'', ''en''}) \<and>
     (case vs_posAdapter i of None \<Rightarrow> True | Some a \<Rightarrow> a \<in> set POS_ADAPTERS)"

definition apply_settings :: "venue_settings \<Rightarrow> venue \<Rightarrow> venue" where
  "apply_settings i v = v\<lparr>
     ven_name := (case vs_name i of None \<Rightarrow> ven_name v | Some n \<Rightarrow> n),
     ven_currency := (case vs_currency i of None \<Rightarrow> ven_currency v | Some c \<Rightarrow> c),
     ven_defaultLocale := (case vs_defaultLocale i of None \<Rightarrow> ven_defaultLocale v | Some l \<Rightarrow> l),
     ven_posAdapter := (case vs_posAdapter i of None \<Rightarrow> ven_posAdapter v | Some a \<Rightarrow> a)\<rparr>"

definition updateVenueSettings :: "id \<Rightarrow> venue_settings \<Rightarrow> server \<Rightarrow> (string, unit) outcome \<times> server" where
  "updateVenueSettings venueId i s =
     (if vs_name i = None \<and> vs_currency i = None \<and> vs_defaultLocale i = None \<and> vs_posAdapter i = None
      then (Refused ''nothing_to_do'', s)
      else if countWhere (\<lambda>v. ven_id v = venueId) (venues s) = 0 then (Threw, s)
      else (Done (), publish (MenuChanged venueId)
        (s\<lparr>venues := updateMany (\<lambda>v. ven_id v = venueId) (apply_settings i) (venues s)\<rparr>)))"

subsection \<open>The signing secret\<close>

definition bump_version :: "tabl \<Rightarrow> tabl" where
  "bump_version t = t\<lparr>tab_qrVersion := tab_qrVersion t + 1\<rparr>"

text \<open>One transaction: a version that outgrows its column rolls it back.\<close>

definition rotateQrSecret :: "id \<Rightarrow> string \<Rightarrow> server \<Rightarrow> (unit, nat) outcome \<times> server" where
  "rotateQrSecret venueId secret s =
     (if countWhere (\<lambda>v. ven_id v = venueId) (venues s) = 0 \<or>
        list_ex (\<lambda>t. tab_venueId t = venueId \<and> \<not> int4 (tab_qrVersion t + 1)) (tables s)
      then (Threw, s)
      else (Done (countWhere (\<lambda>t. tab_venueId t = venueId) (tables s)),
        s\<lparr>venues := updateMany (\<lambda>v. ven_id v = venueId) (\<lambda>v. v\<lparr>ven_qrSecret := secret\<rparr>) (venues s),
          tables := updateMany (\<lambda>t. tab_venueId t = venueId) bump_version (tables s),
          sessions := updateMany (\<lambda>x. ts_venueId x = venueId \<and> ts_revokedAt x = None) (revoke (now s))
            (sessions s)\<rparr>))"

subsection \<open>Bridge keys\<close>

record bridge_key_view =
  bv_id :: id
  bv_label :: jstr
  bv_hint :: jstr
  bv_createdAt :: time

definition listBridgeKeys :: "id \<Rightarrow> server \<Rightarrow> bridge_key_view list" where
  "listBridgeKeys venueId s = map (\<lambda>k. \<lparr>bv_id = bk_id k, bv_label = bk_label k,
       bv_hint = 0x2026 # lit (bk_hint k), bv_createdAt = bk_createdAt k\<rparr>)
     (orderBy bk_createdAt (filter (\<lambda>k. bk_venueId k = venueId) (bridgeKeys s)))"

definition createBridgeKey ::
  "platform \<Rightarrow> id \<Rightarrow> string \<Rightarrow> id \<Rightarrow> jstr \<Rightarrow> server \<Rightarrow> (unit, id \<times> string) outcome \<times> server" where
  "createBridgeKey pf newId randomHex venueId label s =
     (let key = newBridgeKey randomHex;
          row = \<lparr>bk_id = newId, bk_venueId = venueId, bk_keyHash = hashBridgeKey pf key,
            bk_hint = bridgeKeyHint key,
            bk_label = (if trim label = [] then lit ''kitchen-bridge'' else trim label), bk_createdAt = now s\<rparr>
      in if list_ex (\<lambda>k. bk_keyHash k = hashBridgeKey pf key) (bridgeKeys s) then (Threw, s)
         else (Done (newId, key), s\<lparr>bridgeKeys := bridgeKeys s @ [row]\<rparr>))"

definition deleteBridgeKey :: "id \<Rightarrow> id \<Rightarrow> server \<Rightarrow> bool \<times> server" where
  "deleteBridgeKey venueId i s =
     (countWhere (\<lambda>k. bk_id k = i \<and> bk_venueId k = venueId) (bridgeKeys s) > 0,
      s\<lparr>bridgeKeys := deleteMany (\<lambda>k. bk_id k = i \<and> bk_venueId k = venueId) (bridgeKeys s)\<rparr>)"

definition POST_bridge_keys ::
  "platform \<Rightarrow> id \<Rightarrow> string \<Rightarrow> jstr option \<Rightarrow> string option \<Rightarrow> server \<Rightarrow> (id \<times> string) response \<times> server" where
  "POST_bridge_keys pf newId randomHex label cookie s =
     (case requireStaff pf Admin cookie s of
        (None, s1) \<Rightarrow> (Fail 401 ''unauthorized'' [], s1)
      | (Some staff, s1) \<Rightarrow>
          (case createBridgeKey pf newId randomHex (sc_venueId staff)
               (case label of None \<Rightarrow> [] | Some l \<Rightarrow> l) s1 of
             (Done k, s2) \<Rightarrow> (Ok k, s2)
           | (_, s2) \<Rightarrow> (Crash, s2)))"

definition DELETE_bridge_keys :: "platform \<Rightarrow> id option \<Rightarrow> string option \<Rightarrow> server \<Rightarrow> unit response \<times> server" where
  "DELETE_bridge_keys pf i cookie s =
     (case requireStaff pf Admin cookie s of
        (None, s1) \<Rightarrow> (Fail 401 ''unauthorized'' [], s1)
      | (Some staff, s1) \<Rightarrow>
          (case deleteBridgeKey (sc_venueId staff) (case i of None \<Rightarrow> [] | Some x \<Rightarrow> x) s1 of
             (True, s2) \<Rightarrow> (Ok (), s2)
           | (False, s2) \<Rightarrow> (Fail 404 ''not_found'' [], s2)))"

subsection \<open>The venue routes\<close>

record venue_page =
  vp_name :: jstr
  vp_slug :: jstr
  vp_currency :: string
  vp_defaultLocale :: string
  vp_posAdapter :: string
  vp_tableCount :: nat
  vp_bridgeKeys :: "bridge_key_view list"
  vp_currencies :: "string list"
  vp_posAdapters :: "string list"

definition GET_venue :: "platform \<Rightarrow> string option \<Rightarrow> server \<Rightarrow> venue_page response \<times> server" where
  "GET_venue pf cookie s =
     (case requireStaff pf Admin cookie s of
        (None, s1) \<Rightarrow> (Fail 401 ''unauthorized'' [], s1)
      | (Some staff, s1) \<Rightarrow>
          (case findFirst (\<lambda>v. ven_id v = sc_venueId staff) (venues s1) of
             None \<Rightarrow> (Crash, s1)
           | Some v \<Rightarrow>
               (Ok \<lparr>vp_name = ven_name v, vp_slug = ven_slug v, vp_currency = ven_currency v,
                  vp_defaultLocale = ven_defaultLocale v, vp_posAdapter = ven_posAdapter v,
                  vp_tableCount = countWhere (\<lambda>t. tab_venueId t = sc_venueId staff) (tables s1),
                  vp_bridgeKeys = listBridgeKeys (sc_venueId staff) s1,
                  vp_currencies = CURRENCIES, vp_posAdapters = POS_ADAPTERS\<rparr>, s1)))"

definition PATCH_venue ::
  "platform \<Rightarrow> venue_settings option \<Rightarrow> string option \<Rightarrow> server \<Rightarrow> unit response \<times> server" where
  "PATCH_venue pf body cookie s =
     (case requireStaff pf Admin cookie s of
        (None, s1) \<Rightarrow> (Fail 401 ''unauthorized'' [], s1)
      | (Some staff, s1) \<Rightarrow>
          (case body of
             None \<Rightarrow> (Fail 400 ''invalid'' [], s1)
           | Some i \<Rightarrow>
               if \<not> valid_venue_settings i then (Fail 400 ''invalid'' [], s1)
               else (case updateVenueSettings (sc_venueId staff) i s1 of
                   (Done _, s2) \<Rightarrow> (Ok (), s2)
                 | (Refused e, s2) \<Rightarrow> (Fail 400 e [], s2)
                 | (Threw, s2) \<Rightarrow> (Crash, s2))))"

definition POST_qr_secret ::
  "platform \<Rightarrow> string \<Rightarrow> jstr option \<Rightarrow> string option \<Rightarrow> server \<Rightarrow> nat response \<times> server" where
  "POST_qr_secret pf secret confirm cookie s =
     (case requireStaff pf Admin cookie s of
        (None, s1) \<Rightarrow> (Fail 401 ''unauthorized'' [], s1)
      | (Some staff, s1) \<Rightarrow>
          (case findFirst (\<lambda>v. ven_id v = sc_venueId staff) (venues s1) of
             None \<Rightarrow> (Crash, s1)
           | Some v \<Rightarrow>
               if confirm \<noteq> Some (ven_slug v)
               then (Fail 409 ''confirmation_required'' [(''expected'', FText (ven_slug v))], s1)
               else (case rotateQrSecret (sc_venueId staff) secret s1 of
                   (Done k, s2) \<Rightarrow> (Ok k, s2)
                 | (_, s2) \<Rightarrow> (Crash, s2))))"

subsection \<open>Tables\<close>

record table_row =
  tr_id :: id
  tr_code :: string
  tr_name :: jstr
  tr_active :: bool
  tr_qrVersion :: int
  tr_qrUrl :: jstr
  tr_activeSessions :: "(id \<times> time \<times> time) list"

definition listed_session :: "time \<Rightarrow> id \<Rightarrow> table_session \<Rightarrow> bool" where
  "listed_session t tableId x \<longleftrightarrow> ts_tableId x = tableId \<and> ts_revokedAt x = None \<and> ts_expiresAt x > t \<and>
     ts_lastSeenAt x > t - 30 * 60 * 1000"

definition table_row_of :: "mac \<Rightarrow> jstr \<Rightarrow> string \<Rightarrow> server \<Rightarrow> tabl \<Rightarrow> table_row" where
  "table_row_of hmac origin secret s t = \<lparr>tr_id = tab_id t, tr_code = tab_code t, tr_name = tab_name t,
     tr_active = tab_active t, tr_qrVersion = tab_qrVersion t,
     tr_qrUrl = tableQrUrl hmac origin secret (tab_code t) (tab_qrVersion t),
     tr_activeSessions = map (\<lambda>x. (ts_id x, ts_createdAt x, ts_lastSeenAt x))
       (filter (listed_session (now s) (tab_id t)) (sessions s))\<rparr>"

definition GET_tables ::
  "platform \<Rightarrow> mac \<Rightarrow> jstr \<Rightarrow> string option \<Rightarrow> server \<Rightarrow> table_row list response \<times> server" where
  "GET_tables pf hmac origin cookie s =
     (case requireStaff pf Admin cookie s of
        (None, s1) \<Rightarrow> (Fail 401 ''unauthorized'' [], s1)
      | (Some staff, s1) \<Rightarrow>
          (case findFirst (\<lambda>v. ven_id v = sc_venueId staff) (venues s1) of
             None \<Rightarrow> (Crash, s1)
           | Some v \<Rightarrow> (Ok (map (table_row_of hmac origin (ven_qrSecret v) s1)
               (orderBy tab_createdAt (filter (\<lambda>t. tab_venueId t = sc_venueId staff) (tables s1)))), s1)))"

definition POST_table ::
  "platform \<Rightarrow> id \<Rightarrow> string \<Rightarrow> jstr option \<Rightarrow> string option \<Rightarrow> server \<Rightarrow> id response \<times> server" where
  "POST_table pf newId code name cookie s =
     (case requireStaff pf Admin cookie s of
        (None, s1) \<Rightarrow> (Fail 401 ''unauthorized'' [], s1)
      | (Some staff, s1) \<Rightarrow>
          (case name of
             None \<Rightarrow> (Fail 400 ''name_required'' [], s1)
           | Some n \<Rightarrow>
               if n = [] then (Fail 400 ''name_required'' [], s1)
               else if list_ex (\<lambda>t. tab_code t = code) (tables s1) then (Crash, s1)
               else (Ok newId, s1\<lparr>tables := tables s1 @ [\<lparr>tab_id = newId, tab_venueId = sc_venueId staff,
                 tab_code = code, tab_name = n, tab_qrVersion = 1, tab_active = True,
                 tab_createdAt = now s1\<rparr>]\<rparr>)))"

record table_patch =
  tp_regenerateQr :: bool
  tp_name :: "jstr option"
  tp_active :: "bool option"

definition regenerate :: "id \<Rightarrow> server \<Rightarrow> server" where
  "regenerate tableId s = s\<lparr>
     tables := updateMany (\<lambda>t. tab_id t = tableId) bump_version (tables s),
     sessions := updateMany (\<lambda>x. ts_tableId x = tableId \<and> ts_revokedAt x = None) (revoke (now s)) (sessions s)\<rparr>"

definition PATCH_table ::
  "platform \<Rightarrow> id \<Rightarrow> table_patch \<Rightarrow> string option \<Rightarrow> server \<Rightarrow> unit response \<times> server" where
  "PATCH_table pf tableId b cookie s =
     (case requireStaff pf Admin cookie s of
        (None, s1) \<Rightarrow> (Fail 401 ''unauthorized'' [], s1)
      | (Some staff, s1) \<Rightarrow>
          (case findFirst (\<lambda>t. tab_id t = tableId \<and> tab_venueId t = sc_venueId staff) (tables s1) of
             None \<Rightarrow> (Fail 404 ''not_found'' [], s1)
           | Some t \<Rightarrow>
               if tp_regenerateQr b
               then (if \<not> int4 (tab_qrVersion t + 1) then (Crash, s1) else (Ok (), regenerate tableId s1))
               else (Ok (), s1\<lparr>tables := updateMany (\<lambda>t. tab_id t = tableId)
                 (\<lambda>t. t\<lparr>tab_name := (case tp_name b of None \<Rightarrow> tab_name t | Some n \<Rightarrow> n),
                        tab_active := (case tp_active b of None \<Rightarrow> tab_active t | Some a \<Rightarrow> a)\<rparr>) (tables s1)\<rparr>)))"

text \<open>The answer tells whether the table was only deactivated.\<close>

definition DELETE_table :: "platform \<Rightarrow> id \<Rightarrow> string option \<Rightarrow> server \<Rightarrow> bool response \<times> server" where
  "DELETE_table pf tableId cookie s =
     (case requireStaff pf Admin cookie s of
        (None, s1) \<Rightarrow> (Fail 401 ''unauthorized'' [], s1)
      | (Some staff, s1) \<Rightarrow>
          (case findFirst (\<lambda>t. tab_id t = tableId \<and> tab_venueId t = sc_venueId staff) (tables s1) of
             None \<Rightarrow> (Fail 404 ''not_found'' [], s1)
           | Some _ \<Rightarrow>
               if countWhere (\<lambda>o'. ord_tableId o' = tableId) (orders s1) > 0
               then (Ok True, s1\<lparr>tables := updateMany (\<lambda>t. tab_id t = tableId) (\<lambda>t. t\<lparr>tab_active := False\<rparr>)
                 (tables s1)\<rparr>)
               else (Ok False, s1\<lparr>sessions := deleteMany (\<lambda>x. ts_tableId x = tableId) (sessions s1),
                 visits := deleteMany (\<lambda>v. tv_tableId v = tableId) (visits s1),
                 tables := deleteMany (\<lambda>t. tab_id t = tableId) (tables s1)\<rparr>)))"

definition GET_table_qr ::
  "platform \<Rightarrow> mac \<Rightarrow> (jstr \<Rightarrow> 'png) \<Rightarrow> jstr \<Rightarrow> id \<Rightarrow> string option \<Rightarrow> server \<Rightarrow> 'png response \<times> server" where
  "GET_table_qr pf hmac toPng origin tableId cookie s =
     (case requireStaff pf Admin cookie s of
        (None, s1) \<Rightarrow> (Fail 401 ''unauthorized'' [], s1)
      | (Some staff, s1) \<Rightarrow>
          (case findFirst (\<lambda>t. tab_id t = tableId \<and> tab_venueId t = sc_venueId staff) (tables s1) of
             None \<Rightarrow> (Fail 404 ''not_found'' [], s1)
           | Some t \<Rightarrow>
               (case findFirst (\<lambda>v. ven_id v = tab_venueId t) (venues s1) of
                  None \<Rightarrow> (Crash, s1)
                | Some v \<Rightarrow>
                    (Ok (toPng (tableQrUrl hmac origin (ven_qrSecret v) (tab_code t) (tab_qrVersion t))), s1))))"

definition DELETE_session :: "platform \<Rightarrow> id \<Rightarrow> string option \<Rightarrow> server \<Rightarrow> unit response \<times> server" where
  "DELETE_session pf sid cookie s =
     (case requireStaff pf Admin cookie s of
        (None, s1) \<Rightarrow> (Fail 401 ''unauthorized'' [], s1)
      | (Some staff, s1) \<Rightarrow>
          (case findFirst (\<lambda>x. ts_id x = sid \<and> ts_venueId x = sc_venueId staff) (sessions s1) of
             None \<Rightarrow> (Fail 404 ''not_found'' [], s1)
           | Some _ \<Rightarrow> (Ok (), publish (SessionRevoked (sc_venueId staff) sid)
               (s1\<lparr>sessions := updateMany (\<lambda>x. ts_id x = sid) (revoke (now s1)) (sessions s1)\<rparr>))))"

subsection \<open>Rotating the secret\<close>

lemma POST_qr_secret_Ok:
  assumes "POST_qr_secret pf secret confirm cookie s = (Ok k, s')"
    and "fst (requireStaff pf Admin cookie s) = Some staff"
  shows "venues s' = updateMany (\<lambda>v. ven_id v = sc_venueId staff) (\<lambda>v. v\<lparr>ven_qrSecret := secret\<rparr>) (venues s)"
    and "tables s' = updateMany (\<lambda>t. tab_venueId t = sc_venueId staff) bump_version (tables s)"
    and "sessions s' = updateMany (\<lambda>x. ts_venueId x = sc_venueId staff \<and> ts_revokedAt x = None)
      (revoke (now s)) (sessions s)"
    and "orders s' = orders s"
proof -
  obtain c where r: "requireStaff pf Admin cookie s = (Some staff, s\<lparr>accountCache := c\<rparr>)"
    using assms(2) by (cases rule: requireStaff_cases[of pf Admin cookie s]) auto
  show "venues s' = updateMany (\<lambda>v. ven_id v = sc_venueId staff) (\<lambda>v. v\<lparr>ven_qrSecret := secret\<rparr>) (venues s)"
    "tables s' = updateMany (\<lambda>t. tab_venueId t = sc_venueId staff) bump_version (tables s)"
    "sessions s' = updateMany (\<lambda>x. ts_venueId x = sc_venueId staff \<and> ts_revokedAt x = None)
      (revoke (now s)) (sessions s)"
    "orders s' = orders s"
    using assms(1)
    by (auto simp: POST_qr_secret_def r rotateQrSecret_def split: option.splits if_splits)
qed

lemma revoked_session_refused:
  assumes "\<And>x. findFirst (\<lambda>x. ts_token x = token) (sessions s) = Some x \<Longrightarrow> ts_revokedAt x \<noteq> None"
  shows "getActiveSession (Some token) code s = (None, s)"
  using assms by (intro getActiveSession_dead) (auto simp: live_session_def)

text \<open>
  rotating the secret locks everyone out at once. After the rotation no phone of the venue has
  a session, the signature printed for any of its tables before no longer verifies (when the two
  digests differ), other venues' sessions and tables are as they were, and no order is lost.
\<close>

theorem rotation_locks_everyone_out:
  assumes "POST_qr_secret pf secret confirm cookie s = (Ok k, s')"
    and "fst (requireStaff pf Admin cookie s) = Some staff"
    and ascii: "\<And>key m. \<forall>c \<in> set (hmac key m). of_char c < (128::nat)"
    and no_collision: "\<And>t. t \<in> set (tables s) \<Longrightarrow> tab_venueId t = sc_venueId staff \<Longrightarrow>
      signTableQr hmac old (tab_code t) (tab_qrVersion t) \<noteq>
      signTableQr hmac secret (tab_code t) (tab_qrVersion t + 1)"
  shows "(\<forall>x \<in> set (sessions s'). ts_venueId x = sc_venueId staff \<longrightarrow> ts_revokedAt x \<noteq> None) \<and>
    (\<forall>t \<in> set (tables s). tab_venueId t = sc_venueId staff \<longrightarrow> bump_version t \<in> set (tables s') \<and>
       verifyTableQr hmac secret (tab_code (bump_version t)) (tab_qrVersion (bump_version t))
         (lit (signTableQr hmac old (tab_code t) (tab_qrVersion t))) = Some False) \<and>
    filter (\<lambda>x. ts_venueId x \<noteq> sc_venueId staff) (sessions s') =
      filter (\<lambda>x. ts_venueId x \<noteq> sc_venueId staff) (sessions s) \<and>
    filter (\<lambda>t. tab_venueId t \<noteq> sc_venueId staff) (tables s') =
      filter (\<lambda>t. tab_venueId t \<noteq> sc_venueId staff) (tables s) \<and>
    orders s' = orders s"
proof -
  note st = POST_qr_secret_Ok[OF assms(1,2)]
  have "\<forall>x \<in> set (sessions s'). ts_venueId x = sc_venueId staff \<longrightarrow> ts_revokedAt x \<noteq> None"
    by (auto simp: st(3) set_updateMany revoke_def)
  moreover have "bump_version t \<in> set (tables s') \<and>
      verifyTableQr hmac secret (tab_code (bump_version t)) (tab_qrVersion (bump_version t))
        (lit (signTableQr hmac old (tab_code t) (tab_qrVersion t))) = Some False"
    if "t \<in> set (tables s)" "tab_venueId t = sc_venueId staff" for t
  proof
    show "bump_version t \<in> set (tables s')" using that by (force simp: st(2) set_updateMany)
    show "verifyTableQr hmac secret (tab_code (bump_version t)) (tab_qrVersion (bump_version t))
        (lit (signTableQr hmac old (tab_code t) (tab_qrVersion t))) = Some False"
      using no_collision[OF that]
        verify_exact[where hmac = hmac and secret = secret and code = "tab_code t"
          and ver = "tab_qrVersion t + 1", OF ascii]
      by (simp add: bump_version_def)
  qed
  moreover have "filter (\<lambda>x. ts_venueId x \<noteq> sc_venueId staff) (sessions s') =
      filter (\<lambda>x. ts_venueId x \<noteq> sc_venueId staff) (sessions s)"
    unfolding st(3) by (rule filter_updateMany_other) (auto simp: revoke_def)
  moreover have "filter (\<lambda>t. tab_venueId t \<noteq> sc_venueId staff) (tables s') =
      filter (\<lambda>t. tab_venueId t \<noteq> sc_venueId staff) (tables s)"
    unfolding st(2) by (rule filter_updateMany_other) (auto simp: bump_version_def)
  ultimately show ?thesis using st(4) by simp
qed

lemma sample_rotation:
  "fst (requireStaff toy_platform Admin (Some ''a1-0'') sample) = Some toy_admin"
  "fst (POST_qr_secret toy_platform ''new'' (Some (lit ''heaven'')) (Some ''a1-0'') sample) = Ok 1"
proof -
  obtain c where c: "requireStaff toy_platform Admin (Some ''a1-0'') sample =
      (Some toy_admin, sample\<lparr>accountCache := c\<rparr>)"
    using toy_requires(1)[of sample] by (auto simp: sample_fields)
  then show "fst (requireStaff toy_platform Admin (Some ''a1-0'') sample) = Some toy_admin" by simp
  show "fst (POST_qr_secret toy_platform ''new'' (Some (lit ''heaven'')) (Some ''a1-0'') sample) = Ok 1"
    by (simp add: POST_qr_secret_def c toy_admin_def sample_fields rotateQrSecret_def countWhere_def int4_def)
qed

theorem rotation_locks_everyone_out_witness:
  "filter (\<lambda>x. ts_venueId x = ''v1'' \<and> ts_revokedAt x = None)
     (sessions (snd (POST_qr_secret toy_platform ''new'' (Some (lit ''heaven'')) (Some ''a1-0'') sample))) = []"
proof -
  let ?p = "POST_qr_secret toy_platform ''new'' (Some (lit ''heaven'')) (Some ''a1-0'') sample"
  have p: "?p = (Ok 1, snd ?p)" using sample_rotation(2) by (simp add: prod_eq_iff)
  have ascii: "\<forall>c \<in> set (toy_mac key m). of_char c < (128::nat)" for key m by (auto simp: toy_mac_def)
  have "signTableQr toy_mac ''sec'' ''T1'' 1 \<noteq> signTableQr toy_mac ''new'' ''T1'' 2" by code_simp
  then have no_collision: "signTableQr toy_mac ''sec'' (tab_code t) (tab_qrVersion t) \<noteq>
      signTableQr toy_mac ''new'' (tab_code t) (tab_qrVersion t + 1)" if "t \<in> set (tables sample)" for t
    using that by (simp add: sample_fields)
  have "\<forall>x \<in> set (sessions (snd ?p)). ts_venueId x = ''v1'' \<longrightarrow> ts_revokedAt x \<noteq> None"
    using rotation_locks_everyone_out[OF p sample_rotation(1) ascii no_collision] by (simp add: toy_admin_def)
  then show ?thesis by (auto simp: filter_empty_conv)
qed

subsection \<open>The life of a bridge key\<close>

text \<open>
  a bridge key opens its venue's queue from the moment it is shown until it is deleted, and
  not after. The key handed out is looked up by its hash alone; keys of other venues keep working.
\<close>

theorem bridge_key_life:
  assumes created: "createBridgeKey pf newId randomHex ven label s = (Done (i, key), s1)"
    and fresh_id: "\<forall>k \<in> set (bridgeKeys s). bk_id k \<noteq> newId"
  shows "venueForBridgeKey pf (Some key) s1 = Some ven \<and>
    (\<exists>s2. deleteBridgeKey ven i s1 = (True, s2) \<and> venueForBridgeKey pf (Some key) s2 = None \<and>
      bridgeKeys s2 = bridgeKeys s) \<and>
    length (bridgeKeyHint key) = 6"
proof -
  have hash: "\<forall>k \<in> set (bridgeKeys s). bk_keyHash k \<noteq> hashBridgeKey pf key"
    and key: "key = newBridgeKey randomHex" "i = newId"
    and s1: "\<exists>row. bridgeKeys s1 = bridgeKeys s @ [row] \<and> bk_keyHash row = hashBridgeKey pf key \<and>
      bk_id row = newId \<and> bk_venueId row = ven"
    using created by (auto simp: createBridgeKey_def Let_def list_ex_iff split: if_splits)
  have pre: "prefix BRIDGE_KEY_PREFIX key" "key \<noteq> []" "6 \<le> length key"
    by (auto simp: key newBridgeKey_def BRIDGE_KEY_PREFIX_def)
  have none: "findFirst (\<lambda>r. bk_keyHash r = hashBridgeKey pf key) (bridgeKeys s) = None"
    using hash by (simp add: findFirst_None_iff)
  obtain row where row: "bridgeKeys s1 = bridgeKeys s @ [row]" "bk_keyHash row = hashBridgeKey pf key"
      "bk_id row = newId" "bk_venueId row = ven"
    using s1 by blast
  have app: "findFirst P (xs @ ys) = (case findFirst P xs of None \<Rightarrow> findFirst P ys | Some x \<Rightarrow> Some x)" for P xs ys
    by (induction xs) auto
  have "filter (\<lambda>k. \<not> (bk_id k = i \<and> bk_venueId k = ven)) (bridgeKeys s) = bridgeKeys s"
    using fresh_id by (simp add: key)
  then have del: "deleteMany (\<lambda>k. bk_id k = i \<and> bk_venueId k = ven) (bridgeKeys s1) = bridgeKeys s"
    by (simp add: deleteMany_def row key)
  have "countWhere (\<lambda>k. bk_id k = i \<and> bk_venueId k = ven) (bridgeKeys s1) > 0"
    by (auto simp: countWhere_pos_iff row key)
  then show ?thesis
    using pre none row(2,4)
    by (simp add: venueForBridgeKey_def deleteBridgeKey_def del bridgeKeyHint_def)
      (simp add: row(1) app)
qed

theorem bridge_key_life_witness:
  "venueForBridgeKey toy_platform (Some ''bridge-ab'')
     (snd (createBridgeKey toy_platform ''k1'' ''ab'' ''v1'' [] sample)) = Some ''v1''"
proof -
  let ?p = "createBridgeKey toy_platform ''k1'' ''ab'' ''v1'' [] sample"
  have "?p = (Done (''k1'', ''bridge-ab''), snd ?p)"
    by (simp add: prod_eq_iff createBridgeKey_def Let_def sample_fields newBridgeKey_def BRIDGE_KEY_PREFIX_def)
  from bridge_key_life[OF this] show ?thesis by (simp add: sample_fields)
qed

subsection \<open>Removing a table\<close>

definition orders_have_tables :: "server \<Rightarrow> bool" where
  "orders_have_tables s \<longleftrightarrow> (\<forall>o' \<in> set (orders s). list_ex (\<lambda>t. tab_id t = ord_tableId o') (tables s))"

definition sessions_have_tables :: "server \<Rightarrow> bool" where
  "sessions_have_tables s \<longleftrightarrow> (\<forall>x \<in> set (sessions s). list_ex (\<lambda>t. tab_id t = ts_tableId x) (tables s)) \<and>
     (\<forall>v \<in> set (visits s). list_ex (\<lambda>t. tab_id t = tv_tableId v) (tables s))"

text \<open>
  removing a table never loses an order. A table that was ordered from is only switched off;
  one that was not goes with its sessions and visits. Either way no order changes, and every
  order, session and visit left still has its table.
\<close>

theorem table_removal_keeps_history:
  assumes "DELETE_table pf tableId cookie s = (Ok kept, s')"
    and "orders_have_tables s" and "sessions_have_tables s"
  shows "orders s' = orders s \<and> orders_have_tables s' \<and> sessions_have_tables s' \<and>
    (kept \<longleftrightarrow> (\<exists>o' \<in> set (orders s). ord_tableId o' = tableId)) \<and>
    (\<forall>t \<in> set (tables s'). tab_id t = tableId \<longrightarrow> \<not> tab_active t)"
proof -
  obtain staff c where r: "requireStaff pf Admin cookie s = (Some staff, s\<lparr>accountCache := c\<rparr>)"
    using assms(1) by (cases rule: requireStaff_cases[of pf Admin cookie s]) (auto simp: DELETE_table_def)
  have off: "list_ex (\<lambda>t. tab_id t = i) (updateMany (\<lambda>t. tab_id t = tableId) (\<lambda>t. t\<lparr>tab_active := False\<rparr>) ts) =
      list_ex (\<lambda>t. tab_id t = i) ts" for i ts
    by (induction ts) auto
  have gone: "list_ex (\<lambda>t. tab_id t = i) (deleteMany (\<lambda>t. tab_id t = tableId) ts) =
      (i \<noteq> tableId \<and> list_ex (\<lambda>t. tab_id t = i) ts)" for i ts
    by (auto simp: list_ex_iff)
  have none: "(countWhere (\<lambda>o'. ord_tableId o' = tableId) (orders s) > 0) =
      (\<exists>o' \<in> set (orders s). ord_tableId o' = tableId)"
    by (simp add: countWhere_pos_iff)
  show ?thesis
  proof (cases "\<exists>o' \<in> set (orders s). ord_tableId o' = tableId")
    case True
    then have "kept \<and> s' = s\<lparr>accountCache := c,
        tables := updateMany (\<lambda>t. tab_id t = tableId) (\<lambda>t. t\<lparr>tab_active := False\<rparr>) (tables s)\<rparr>"
      using assms(1) none by (auto simp: DELETE_table_def r split: option.splits)
    then show ?thesis
      using True assms(2,3) by (auto simp: orders_have_tables_def sessions_have_tables_def off set_updateMany)
  next
    case False
    then have "\<not> kept \<and> s' = s\<lparr>accountCache := c, sessions := deleteMany (\<lambda>x. ts_tableId x = tableId) (sessions s),
        visits := deleteMany (\<lambda>v. tv_tableId v = tableId) (visits s),
        tables := deleteMany (\<lambda>t. tab_id t = tableId) (tables s)\<rparr>"
      using assms(1) none by (auto simp: DELETE_table_def r split: option.splits)
    then show ?thesis
      using False assms(2,3) by (auto simp: orders_have_tables_def sessions_have_tables_def gone)
  qed
qed

theorem table_removal_keeps_history_witness:
  "orders_have_tables (snd (DELETE_table toy_platform ''t1'' (Some ''a1-0'') sample))"
proof -
  let ?p = "DELETE_table toy_platform ''t1'' (Some ''a1-0'') sample"
  obtain c where "requireStaff toy_platform Admin (Some ''a1-0'') sample =
      (Some toy_admin, sample\<lparr>accountCache := c\<rparr>)"
    using toy_requires(1)[of sample] by (auto simp: sample_fields)
  then have "fst ?p = Ok True" by (simp add: DELETE_table_def toy_admin_def sample_defs countWhere_def)
  then have p: "?p = (Ok True, snd ?p)" by (simp add: prod_eq_iff)
  have "orders_have_tables sample" "sessions_have_tables sample"
    by (simp_all add: orders_have_tables_def sessions_have_tables_def sample_defs)
  from table_removal_keeps_history[OF p this] show ?thesis by blast
qed

end
