(* ===== verification/Menu.thy ===== *)
theory Menu
  imports Orders Venue
begin

section \<open>The menu\<close>

text \<open>
  \<open>src/lib/menu.ts\<close> (the payload every phone reads and its per-venue cache),
  \<open>src/lib/validation.ts\<close>, \<open>src/app/api/menu/[code]/route.ts\<close> and the administrator's menu
  editor under \<open>src/app/api/admin/categories\<close> and \<open>.../items\<close>. Modifier groups and options
  are held inside their item, in row order. The cache holds the loaded payload: a load and the
  entry it makes are one step. A body holds the values after the conversions and defaults the
  code applies; generated ids are arguments.
\<close>

subsection \<open>Loading\<close>

definition option_view_of :: "modifier_option \<Rightarrow> option_view" where
  "option_view_of o' = \<lparr>ov_id = mo_id o', ov_nameTr = mo_nameTr o', ov_nameEn = mo_nameEn o',
     ov_priceDeltaKurus = mo_priceDeltaKurus o'\<rparr>"

definition group_view_of :: "modifier_group \<Rightarrow> group_view" where
  "group_view_of g = \<lparr>gv_id = mg_id g, gv_nameTr = mg_nameTr g, gv_nameEn = mg_nameEn g,
     gv_minSelect = mg_minSelect g, gv_maxSelect = mg_maxSelect g,
     gv_options = map option_view_of (orderBy mo_sortOrder (mg_options g))\<rparr>"

definition tags_of :: "jstr \<Rightarrow> jstr list" where
  "tags_of t = (if t = [] then [] else filter (\<lambda>w. w \<noteq> []) (split_on 44 t))"

definition item_view_of :: "menu_item \<Rightarrow> item_view" where
  "item_view_of i = \<lparr>iv_id = mi_id i, iv_nameTr = mi_nameTr i, iv_nameEn = mi_nameEn i,
     iv_descTr = mi_descTr i, iv_descEn = mi_descEn i, iv_priceKurus = mi_priceKurus i,
     iv_photoUrl = mi_photoUrl i, iv_tags = tags_of (mi_tags i), iv_available = mi_available i,
     iv_modifierGroups = map group_view_of (orderBy mg_sortOrder (mi_modifierGroups i))\<rparr>"

definition category_items :: "id \<Rightarrow> server \<Rightarrow> menu_item list" where
  "category_items cid s = orderBy mi_sortOrder (filter (\<lambda>i. mi_categoryId i = cid) (menuItems s))"

definition category_view_of :: "server \<Rightarrow> category \<Rightarrow> category_view" where
  "category_view_of s c = \<lparr>cv_id = cat_id c, cv_nameTr = cat_nameTr c, cv_nameEn = cat_nameEn c,
     cv_items = map item_view_of (category_items (cat_id c) s)\<rparr>"

definition listed_categories :: "id \<Rightarrow> server \<Rightarrow> category list" where
  "listed_categories venueId s =
     orderBy cat_sortOrder (filter (\<lambda>c. cat_venueId c = venueId \<and> cat_active c) (categories s))"

text \<open>\<open>None\<close> when the venue does not exist and the load throws.\<close>

definition loadVenueMenu :: "id \<Rightarrow> server \<Rightarrow> venue_menu option" where
  "loadVenueMenu venueId s =
     map_option (\<lambda>v. \<lparr>vm_name = ven_name v, vm_currency = ven_currency v,
       vm_defaultLocale = ven_defaultLocale v,
       vm_categories = map (category_view_of s) (listed_categories venueId s)\<rparr>)
       (findFirst (\<lambda>v. ven_id v = venueId) (venues s))"

definition venueMenu :: "id \<Rightarrow> server \<Rightarrow> (unit, venue_menu) outcome \<times> server" where
  "venueMenu venueId s =
     (case map_of (menuCache s) venueId of
        Some m \<Rightarrow> (Done m, s)
      | None \<Rightarrow>
          (case loadVenueMenu venueId s of
             None \<Rightarrow> (Threw, s)
           | Some m \<Rightarrow> (Done m, s\<lparr>menuCache := AList.update venueId m (menuCache s)\<rparr>)))"

record customer_menu =
  cm_menu :: venue_menu
  cm_tableName :: jstr
  cm_tableCode :: string

definition menuForSession :: "active_session \<Rightarrow> server \<Rightarrow> (unit, customer_menu) outcome \<times> server" where
  "menuForSession a s =
     (case venueMenu (as_venueId a) s of
        (Done m, s1) \<Rightarrow> (Done \<lparr>cm_menu = m, cm_tableName = as_tableName a, cm_tableCode = as_tableCode a\<rparr>, s1)
      | (_, s1) \<Rightarrow> (Threw, s1))"

definition resetMenuCache :: "server \<Rightarrow> server" where
  "resetMenuCache s = s\<lparr>menuCache := []\<rparr>"

definition GET_menu :: "string \<Rightarrow> request \<Rightarrow> server \<Rightarrow> customer_menu response \<times> server" where
  "GET_menu code req s =
     (case getActiveSession (rq_tableSession req) (Some code) s of
        (None, s1) \<Rightarrow> (Fail 401 ''no_session'' [], s1)
      | (Some a, s1) \<Rightarrow>
          (case menuForSession a s1 of
             (Done m, s2) \<Rightarrow> (Ok m, s2)
           | (_, s2) \<Rightarrow> (Crash, s2)))"

subsection \<open>Categories\<close>

definition menu_changed :: "id \<Rightarrow> server \<Rightarrow> server" where
  "menu_changed venueId s = publish (MenuChanged venueId) s"

record category_row =
  cr_category :: category
  cr_items :: "menu_item list"

definition sorted_item :: "menu_item \<Rightarrow> menu_item" where
  "sorted_item i = i\<lparr>mi_modifierGroups :=
     map (\<lambda>g. g\<lparr>mg_options := orderBy mo_sortOrder (mg_options g)\<rparr>)
       (orderBy mg_sortOrder (mi_modifierGroups i))\<rparr>"

definition GET_categories :: "platform \<Rightarrow> string option \<Rightarrow> server \<Rightarrow> category_row list response \<times> server" where
  "GET_categories pf cookie s =
     (case requireStaff pf Admin cookie s of
        (None, s1) \<Rightarrow> (Fail 401 ''unauthorized'' [], s1)
      | (Some staff, s1) \<Rightarrow>
          (Ok (map (\<lambda>c. \<lparr>cr_category = c, cr_items = map sorted_item (category_items (cat_id c) s1)\<rparr>)
             (orderBy cat_sortOrder (filter (\<lambda>c. cat_venueId c = sc_venueId staff) (categories s1)))), s1))"

record category_input =
  ci_nameTr :: "jstr option"
  ci_nameEn :: "jstr option"
  ci_sortOrder :: "int option"

definition or_name :: "jstr option \<Rightarrow> jstr \<Rightarrow> jstr" where
  "or_name n other = (case n of None \<Rightarrow> other | Some x \<Rightarrow> if x = [] then other else x)"

definition POST_category ::
  "platform \<Rightarrow> id \<Rightarrow> category_input \<Rightarrow> string option \<Rightarrow> server \<Rightarrow> id response \<times> server" where
  "POST_category pf newId b cookie s =
     (case requireStaff pf Admin cookie s of
        (None, s1) \<Rightarrow> (Fail 401 ''unauthorized'' [], s1)
      | (Some staff, s1) \<Rightarrow>
          (let nameTr = or_name (ci_nameTr b) [];
               order' = (case ci_sortOrder b of None \<Rightarrow> 0 | Some n \<Rightarrow> n)
           in if nameTr = [] then (Fail 400 ''name_required'' [], s1)
              else if \<not> int4 order' then (Crash, s1)
              else (Ok newId, menu_changed (sc_venueId staff)
                (s1\<lparr>categories := categories s1 @ [\<lparr>cat_id = newId, cat_venueId = sc_venueId staff,
                  cat_nameTr = nameTr, cat_nameEn = or_name (ci_nameEn b) nameTr,
                  cat_sortOrder = order', cat_active = True\<rparr>]\<rparr>))))"

record category_patch =
  cp_nameTr :: "jstr option"
  cp_nameEn :: "jstr option"
  cp_sortOrder :: "int option"
  cp_active :: "bool option"

definition apply_category :: "category_patch \<Rightarrow> category \<Rightarrow> category" where
  "apply_category b c = c\<lparr>
     cat_nameTr := (case cp_nameTr b of None \<Rightarrow> cat_nameTr c | Some n \<Rightarrow> n),
     cat_nameEn := (case cp_nameEn b of None \<Rightarrow> cat_nameEn c | Some n \<Rightarrow> n),
     cat_sortOrder := (case cp_sortOrder b of None \<Rightarrow> cat_sortOrder c | Some n \<Rightarrow> n),
     cat_active := (case cp_active b of None \<Rightarrow> cat_active c | Some a \<Rightarrow> a)\<rparr>"

definition PATCH_category ::
  "platform \<Rightarrow> id \<Rightarrow> category_patch \<Rightarrow> string option \<Rightarrow> server \<Rightarrow> unit response \<times> server" where
  "PATCH_category pf cid b cookie s =
     (case requireStaff pf Admin cookie s of
        (None, s1) \<Rightarrow> (Fail 401 ''unauthorized'' [], s1)
      | (Some staff, s1) \<Rightarrow>
          (case findFirst (\<lambda>c. cat_id c = cid \<and> cat_venueId c = sc_venueId staff) (categories s1) of
             None \<Rightarrow> (Fail 404 ''not_found'' [], s1)
           | Some _ \<Rightarrow>
               if \<not> int4 (case cp_sortOrder b of None \<Rightarrow> 0 | Some n \<Rightarrow> n) then (Crash, s1)
               else (Ok (), menu_changed (sc_venueId staff)
                 (s1\<lparr>categories := updateMany (\<lambda>c. cat_id c = cid) (apply_category b) (categories s1)\<rparr>))))"

definition DELETE_category :: "platform \<Rightarrow> id \<Rightarrow> string option \<Rightarrow> server \<Rightarrow> unit response \<times> server" where
  "DELETE_category pf cid cookie s =
     (case requireStaff pf Admin cookie s of
        (None, s1) \<Rightarrow> (Fail 401 ''unauthorized'' [], s1)
      | (Some staff, s1) \<Rightarrow>
          (case findFirst (\<lambda>c. cat_id c = cid \<and> cat_venueId c = sc_venueId staff) (categories s1) of
             None \<Rightarrow> (Fail 404 ''not_found'' [], s1)
           | Some _ \<Rightarrow>
               if category_items cid s1 \<noteq> [] then (Fail 409 ''category_not_empty'' [], s1)
               else (Ok (), menu_changed (sc_venueId staff)
                 (s1\<lparr>categories := deleteMany (\<lambda>c. cat_id c = cid) (categories s1)\<rparr>))))"

subsection \<open>Items\<close>

record option_input =
  on_nameTr :: jstr
  on_nameEn :: jstr
  on_priceDeltaKurus :: int

record group_input =
  gn_nameTr :: jstr
  gn_nameEn :: jstr
  gn_minSelect :: int
  gn_maxSelect :: int
  gn_options :: "option_input list"

record item_input =
  it_categoryId :: id
  it_nameTr :: jstr
  it_nameEn :: jstr
  it_descTr :: jstr
  it_descEn :: jstr
  it_priceKurus :: int
  it_photoUrl :: "jstr option"
  it_tags :: jstr
  it_available :: bool
  it_sortOrder :: int
  it_modifierGroups :: "group_input list"

definition valid_item :: "item_input \<Rightarrow> bool" where
  "valid_item d \<longleftrightarrow> 1 \<le> length (it_nameTr d) \<and> 0 \<le> it_priceKurus d \<and>
     list_all (\<lambda>g. 1 \<le> length (gn_nameTr g) \<and> 0 \<le> gn_minSelect g \<and> 1 \<le> gn_maxSelect g \<and>
       list_all (\<lambda>o'. 1 \<le> length (on_nameTr o')) (gn_options g)) (it_modifierGroups d)"

text \<open>Every number fits its column; otherwise the statement throws.\<close>

definition item_fits :: "item_input \<Rightarrow> bool" where
  "item_fits d \<longleftrightarrow> int4 (it_priceKurus d) \<and> int4 (it_sortOrder d) \<and>
     list_all (\<lambda>g. int4 (gn_minSelect g) \<and> int4 (gn_maxSelect g) \<and>
       list_all (\<lambda>o'. int4 (on_priceDeltaKurus o')) (gn_options g)) (it_modifierGroups d)"

definition english :: "jstr \<Rightarrow> jstr \<Rightarrow> jstr" where
  "english en tr = (if en = [] then tr else en)"

definition options_created :: "(nat \<Rightarrow> id) \<Rightarrow> option_input list \<Rightarrow> modifier_option list" where
  "options_created oid os = map (\<lambda>(k, o'). \<lparr>mo_id = oid k, mo_nameTr = on_nameTr o',
     mo_nameEn = english (on_nameEn o') (on_nameTr o'), mo_priceDeltaKurus = on_priceDeltaKurus o',
     mo_sortOrder = int k\<rparr>) (enumerate 0 os)"

definition groups_created ::
  "(nat \<Rightarrow> id) \<Rightarrow> (nat \<Rightarrow> nat \<Rightarrow> id) \<Rightarrow> group_input list \<Rightarrow> modifier_group list" where
  "groups_created gid oid gs = map (\<lambda>(k, g). \<lparr>mg_id = gid k, mg_nameTr = gn_nameTr g,
     mg_nameEn = english (gn_nameEn g) (gn_nameTr g), mg_minSelect = gn_minSelect g,
     mg_maxSelect = gn_maxSelect g, mg_sortOrder = int k,
     mg_options = options_created (oid k) (gn_options g)\<rparr>) (enumerate 0 gs)"

definition item_of_input ::
  "id \<Rightarrow> id \<Rightarrow> (nat \<Rightarrow> id) \<Rightarrow> (nat \<Rightarrow> nat \<Rightarrow> id) \<Rightarrow> item_input \<Rightarrow> menu_item" where
  "item_of_input i venueId gid oid d = \<lparr>mi_id = i, mi_venueId = venueId, mi_categoryId = it_categoryId d,
     mi_nameTr = it_nameTr d, mi_nameEn = english (it_nameEn d) (it_nameTr d), mi_descTr = it_descTr d,
     mi_descEn = it_descEn d, mi_priceKurus = it_priceKurus d, mi_photoUrl = it_photoUrl d,
     mi_tags = it_tags d, mi_available = it_available d, mi_sortOrder = it_sortOrder d,
     mi_modifierGroups = groups_created gid oid (it_modifierGroups d)\<rparr>"

definition POST_item ::
  "platform \<Rightarrow> id \<Rightarrow> (nat \<Rightarrow> id) \<Rightarrow> (nat \<Rightarrow> nat \<Rightarrow> id) \<Rightarrow> item_input option \<Rightarrow> string option \<Rightarrow> server
   \<Rightarrow> id response \<times> server" where
  "POST_item pf newId gid oid body cookie s =
     (case requireStaff pf Admin cookie s of
        (None, s1) \<Rightarrow> (Fail 401 ''unauthorized'' [], s1)
      | (Some staff, s1) \<Rightarrow>
          (case body of
             None \<Rightarrow> (Fail 400 ''invalid'' [], s1)
           | Some d \<Rightarrow>
               if \<not> valid_item d then (Fail 400 ''invalid'' [], s1)
               else if findFirst (\<lambda>c. cat_id c = it_categoryId d \<and> cat_venueId c = sc_venueId staff)
                 (categories s1) = None then (Fail 400 ''bad_category'' [], s1)
               else if \<not> item_fits d then (Crash, s1)
               else (Ok newId, menu_changed (sc_venueId staff)
                 (s1\<lparr>menuItems := menuItems s1 @ [item_of_input newId (sc_venueId staff) gid oid d]\<rparr>))))"

text \<open>
  The two shapes of a change: the availability switch alone, or the whole item, \<open>None\<close> when
  it does not parse.
\<close>

datatype item_patch = Availability bool | Whole_item "item_input option"

definition PATCH_item ::
  "platform \<Rightarrow> id \<Rightarrow> (nat \<Rightarrow> id) \<Rightarrow> (nat \<Rightarrow> nat \<Rightarrow> id) \<Rightarrow> item_patch \<Rightarrow> string option \<Rightarrow> server
   \<Rightarrow> unit response \<times> server" where
  "PATCH_item pf i gid oid b cookie s =
     (case requireStaff pf Admin cookie s of
        (None, s1) \<Rightarrow> (Fail 401 ''unauthorized'' [], s1)
      | (Some staff, s1) \<Rightarrow>
          (case findFirst (\<lambda>x. mi_id x = i \<and> mi_venueId x = sc_venueId staff) (menuItems s1) of
             None \<Rightarrow> (Fail 404 ''not_found'' [], s1)
           | Some x \<Rightarrow>
               (case b of
                  Availability a \<Rightarrow> (Ok (), menu_changed (sc_venueId staff)
                    (s1\<lparr>menuItems := updateMany (\<lambda>x. mi_id x = i) (\<lambda>x. x\<lparr>mi_available := a\<rparr>) (menuItems s1)\<rparr>))
                | Whole_item None \<Rightarrow> (Fail 400 ''invalid'' [], s1)
                | Whole_item (Some d) \<Rightarrow>
                    if \<not> valid_item d then (Fail 400 ''invalid'' [], s1)
                    else if \<not> item_fits d \<or> \<not> list_ex (\<lambda>c. cat_id c = it_categoryId d) (categories s1)
                    then (Crash, s1)
                    else (Ok (), menu_changed (sc_venueId staff)
                      (s1\<lparr>menuItems := updateMany (\<lambda>x. mi_id x = i)
                        (\<lambda>x. item_of_input i (mi_venueId x) gid oid d) (menuItems s1)\<rparr>)))))"

definition referenced :: "id \<Rightarrow> server \<Rightarrow> nat" where
  "referenced i s = countWhere (\<lambda>l. oi_itemId l = Some i) (concat (map ord_items (orders s)))"

text \<open>The answer tells whether the item was only hidden.\<close>

definition DELETE_item :: "platform \<Rightarrow> id \<Rightarrow> string option \<Rightarrow> server \<Rightarrow> bool response \<times> server" where
  "DELETE_item pf i cookie s =
     (case requireStaff pf Admin cookie s of
        (None, s1) \<Rightarrow> (Fail 401 ''unauthorized'' [], s1)
      | (Some staff, s1) \<Rightarrow>
          (case findFirst (\<lambda>x. mi_id x = i \<and> mi_venueId x = sc_venueId staff) (menuItems s1) of
             None \<Rightarrow> (Fail 404 ''not_found'' [], s1)
           | Some _ \<Rightarrow>
               (Ok (referenced i s1 > 0), menu_changed (sc_venueId staff)
                 (s1\<lparr>menuItems := (if referenced i s1 > 0
                   then updateMany (\<lambda>x. mi_id x = i) (\<lambda>x. x\<lparr>mi_available := False\<rparr>) (menuItems s1)
                   else deleteMany (\<lambda>x. mi_id x = i) (menuItems s1))\<rparr>))))"

subsection \<open>The cache never shows an old menu\<close>

text \<open>What a venue's payload depends on.\<close>

lemma load_cong:
  assumes "listed_categories ven t = listed_categories ven s"
    and "\<And>c. c \<in> set (categories s) \<Longrightarrow> cat_venueId c = ven \<Longrightarrow>
      category_items (cat_id c) t = category_items (cat_id c) s"
    and "findFirst (\<lambda>v. ven_id v = ven) (venues t) = findFirst (\<lambda>v. ven_id v = ven) (venues s)"
  shows "loadVenueMenu ven t = loadVenueMenu ven s"
proof -
  have views: "map (category_view_of t) (listed_categories ven s) = map (category_view_of s) (listed_categories ven s)"
    using assms(2) by (auto simp: listed_categories_def category_view_of_def)
  show ?thesis unfolding loadVenueMenu_def assms(1,3) views by (rule refl)
qed

definition menu_rows_ok :: "server \<Rightarrow> bool" where
  "menu_rows_ok s \<longleftrightarrow> distinct (map cat_id (categories s)) \<and> distinct (map mi_id (menuItems s)) \<and>
     (\<forall>i \<in> set (menuItems s). list_ex (\<lambda>c. cat_id c = mi_categoryId i \<and> cat_venueId c = mi_venueId i)
        (categories s))"

definition cache_current :: "server \<Rightarrow> bool" where
  "cache_current s \<longleftrightarrow> (\<forall>ven m. map_of (menuCache s) ven = Some m \<longrightarrow> loadVenueMenu ven s = Some m)"

lemma menu_rows_item:
  assumes "menu_rows_ok s" "x \<in> set (menuItems s)" "c \<in> set (categories s)" "cat_id c = mi_categoryId x"
  shows "cat_venueId c = mi_venueId x"
proof -
  obtain c' where c': "c' \<in> set (categories s)" "cat_id c' = mi_categoryId x" "cat_venueId c' = mi_venueId x"
    using assms(1,2) unfolding menu_rows_ok_def list_ex_iff by blast
  have "inj_on cat_id (set (categories s))" using assms(1) by (simp add: menu_rows_ok_def distinct_map)
  from inj_onD[OF this, of c c'] have "c = c'" using assms(3,4) c'(1,2) by simp
  then show ?thesis using c'(3) by simp
qed

text \<open>
  A step that touches the menu of one venue only and announces it keeps every other venue's
  cached payload right, and the announcement drops its own.
\<close>

lemma menu_changed_current:
  assumes "cache_current s" and "menuCache t = menuCache s"
    and "\<And>v. v \<noteq> ven \<Longrightarrow> loadVenueMenu v t = loadVenueMenu v s"
  shows "cache_current (menu_changed ven t)"
proof -
  have "loadVenueMenu v (menu_changed ven t) = loadVenueMenu v t" for v
    by (rule load_cong) (simp_all add: menu_changed_def listed_categories_def category_items_def)
  moreover have "menuCache (menu_changed ven t) = AList.delete ven (menuCache s)"
    by (simp add: menu_changed_def publish_def assms(2))
  ultimately show ?thesis
    using assms(1,3) by (auto simp: cache_current_def delete_conv' split: if_splits)
qed

lemma cache_current_cong:
  "cache_current s \<Longrightarrow> menuCache t = menuCache s \<Longrightarrow> categories t = categories s \<Longrightarrow>
   menuItems t = menuItems s \<Longrightarrow> venues t = venues s \<Longrightarrow> cache_current t"
  by (simp add: cache_current_def loadVenueMenu_def listed_categories_def category_view_of_def category_items_def
      cong: map_cong)

text \<open>Every way the menu, its cache or the server around them changes.\<close>

inductive menu_step :: "server \<Rightarrow> server \<Rightarrow> bool" where
  m_read: "menu_step s (snd (venueMenu ven s))"
| m_new_category: "newId \<notin> cat_id ` set (categories s) \<Longrightarrow> menu_step s (snd (POST_category pf newId b cookie s))"
| m_category: "menu_step s (snd (PATCH_category pf cid cb cookie s))"
| m_drop_category: "menu_step s (snd (DELETE_category pf cid cookie s))"
| m_new_item: "newId \<notin> mi_id ` set (menuItems s) \<Longrightarrow>
    menu_step s (snd (POST_item pf newId gid oid body cookie s))"
| m_available: "menu_step s (snd (PATCH_item pf i gid oid (Availability a) cookie s))"
| m_item: "(\<And>x c. x \<in> set (menuItems s) \<Longrightarrow> mi_id x = i \<Longrightarrow> c \<in> set (categories s) \<Longrightarrow>
      cat_id c = it_categoryId d \<Longrightarrow> cat_venueId c = mi_venueId x) \<Longrightarrow>
    menu_step s (snd (PATCH_item pf i gid oid (Whole_item (Some d)) cookie s))"
| m_drop_item: "menu_step s (snd (DELETE_item pf i cookie s))"
| m_settings: "menu_step s (snd (PATCH_venue pf vb cookie s))"
| m_other: "categories t = categories s \<Longrightarrow> menuItems t = menuItems s \<Longrightarrow> venues t = venues s \<Longrightarrow>
    menuCache t = menuCache s \<Longrightarrow> menu_step s t"

definition menu_start :: "server \<Rightarrow> bool" where
  "menu_start s \<longleftrightarrow> menu_rows_ok s \<and> menuCache s = []"

definition menu_inv :: "server \<Rightarrow> bool" where
  "menu_inv s \<longleftrightarrow> menu_rows_ok s \<and> cache_current s"

lemma menu_inv_cong:
  "menu_inv s \<Longrightarrow> menuCache t = menuCache s \<Longrightarrow> categories t = categories s \<Longrightarrow>
   menuItems t = menuItems s \<Longrightarrow> venues t = venues s \<Longrightarrow> menu_inv t"
  using cache_current_cong[of s t] by (simp add: menu_inv_def menu_rows_ok_def)

lemma menu_inv_cache [simp]: "menu_inv (s\<lparr>accountCache := c\<rparr>) = menu_inv s"
  by (auto intro: menu_inv_cong[of "s\<lparr>accountCache := c\<rparr>" s] menu_inv_cong[of s "s\<lparr>accountCache := c\<rparr>"])

lemma menu_rows_changed [simp]: "menu_rows_ok (menu_changed ven s) = menu_rows_ok s"
  by (simp add: menu_rows_ok_def menu_changed_def)

text \<open>A change of a venue's categories, and of its items, leaves other venues' payloads alone.\<close>

lemma load_categories_other:
  assumes "ven \<noteq> w" and "\<And>P. (\<And>c. P c \<Longrightarrow> cat_venueId c \<noteq> w) \<Longrightarrow> filter P cs = filter P (categories s)"
  shows "loadVenueMenu ven (s\<lparr>categories := cs\<rparr>) = loadVenueMenu ven s"
proof -
  have "filter (\<lambda>c. cat_venueId c = ven \<and> cat_active c) cs =
      filter (\<lambda>c. cat_venueId c = ven \<and> cat_active c) (categories s)"
    by (rule assms(2)) (use assms(1) in auto)
  then show ?thesis by (intro load_cong) (simp_all add: listed_categories_def category_items_def)
qed

lemma load_items_other:
  assumes "menu_rows_ok s" "ven \<noteq> w"
    and "\<And>c. c \<in> set (categories s) \<Longrightarrow> cat_venueId c \<noteq> w \<Longrightarrow>
      filter (\<lambda>i. mi_categoryId i = cat_id c) ys = filter (\<lambda>i. mi_categoryId i = cat_id c) (menuItems s)"
  shows "loadVenueMenu ven (s\<lparr>menuItems := ys\<rparr>) = loadVenueMenu ven s"
  using assms(2,3) by (intro load_cong) (simp_all add: listed_categories_def category_items_def)

text \<open>The invariant after a write to the categories, or to the items, of one venue.\<close>

lemma menu_inv_categories:
  assumes "menu_inv s"
    and "menu_rows_ok (s\<lparr>categories := cs\<rparr>)"
    and "\<And>P. (\<And>c. P c \<Longrightarrow> cat_venueId c \<noteq> w) \<Longrightarrow> filter P cs = filter P (categories s)"
  shows "menu_inv (menu_changed w (s\<lparr>categories := cs\<rparr>))"
  using assms(1,2) menu_changed_current[of s "s\<lparr>categories := cs\<rparr>" w] load_categories_other[OF _ assms(3)]
  by (simp add: menu_inv_def)

lemma menu_inv_items:
  assumes "menu_inv s"
    and "menu_rows_ok (s\<lparr>menuItems := ys\<rparr>)"
    and "\<And>c. c \<in> set (categories s) \<Longrightarrow> cat_venueId c \<noteq> w \<Longrightarrow>
      filter (\<lambda>i. mi_categoryId i = cat_id c) ys = filter (\<lambda>i. mi_categoryId i = cat_id c) (menuItems s)"
  shows "menu_inv (menu_changed w (s\<lparr>menuItems := ys\<rparr>))"
  using assms(1,2) menu_changed_current[of s "s\<lparr>menuItems := ys\<rparr>" w] load_items_other[OF _ _ assms(3)]
  by (simp add: menu_inv_def)

lemma unique_row:
  "distinct (map k xs) \<Longrightarrow> x \<in> set xs \<Longrightarrow> y \<in> set xs \<Longrightarrow> k x = k y \<Longrightarrow> x = y"
  by (auto simp: distinct_map dest: inj_onD)

lemma step_new_category:
  assumes "menu_inv s" "newId \<notin> cat_id ` set (categories s)"
  shows "menu_inv (snd (POST_category pf newId b cookie s))"
proof (cases rule: requireStaff_cases[of pf Admin cookie s])
  case (refused c)
  then show ?thesis using assms(1) by (simp add: POST_category_def)
next
  case (staff st c)
  let ?s = "s\<lparr>accountCache := c\<rparr>"
  have "menu_inv (menu_changed (sc_venueId st) (?s\<lparr>categories := categories ?s @ [r]\<rparr>))"
    if "cat_id r = newId" "cat_venueId r = sc_venueId st" for r
  proof (rule menu_inv_categories)
    show "menu_inv ?s" using assms(1) by simp
    show "menu_rows_ok (?s\<lparr>categories := categories ?s @ [r]\<rparr>)"
      using assms that by (auto simp: menu_inv_def menu_rows_ok_def list_ex_iff)
    show "filter P (categories ?s @ [r]) = filter P (categories ?s)"
      if "\<And>c. P c \<Longrightarrow> cat_venueId c \<noteq> sc_venueId st" for P
      using that[of r] \<open>cat_venueId r = sc_venueId st\<close> by auto
  qed
  then show ?thesis using assms(1) by (simp add: POST_category_def staff Let_def)
qed

lemma step_category:
  assumes "menu_inv s"
  shows "menu_inv (snd (PATCH_category pf cid b cookie s))"
proof (cases rule: requireStaff_cases[of pf Admin cookie s])
  case (refused c)
  then show ?thesis using assms(1) by (simp add: PATCH_category_def)
next
  case (staff st c)
  let ?s = "s\<lparr>accountCache := c\<rparr>"
  have "menu_inv (menu_changed (sc_venueId st)
      (?s\<lparr>categories := updateMany (\<lambda>c. cat_id c = cid) (apply_category b) (categories ?s)\<rparr>))"
    if r: "findFirst (\<lambda>c. cat_id c = cid \<and> cat_venueId c = sc_venueId st) (categories s) = Some r" for r
  proof (rule menu_inv_categories)
    have mine: "cat_venueId x = sc_venueId st" if "x \<in> set (categories s)" "cat_id x = cid" for x
      using findFirst_SomeD[OF r] assms that unique_row[of cat_id "categories s" x r]
      by (auto simp: menu_inv_def menu_rows_ok_def)
    have keep: "cat_id (apply_category b x) = cat_id x" "cat_venueId (apply_category b x) = cat_venueId x" for x
      by (simp_all add: apply_category_def)
    show "menu_inv ?s" using assms by simp
    have "list_ex (\<lambda>c. cat_id c = i \<and> cat_venueId c = w) (updateMany p (apply_category b) cs) =
        list_ex (\<lambda>c. cat_id c = i \<and> cat_venueId c = w) cs" for i w p cs
      by (induction cs) (auto simp: keep)
    then show "menu_rows_ok (?s\<lparr>categories := updateMany (\<lambda>c. cat_id c = cid) (apply_category b) (categories ?s)\<rparr>)"
      using assms by (simp add: menu_inv_def menu_rows_ok_def map_updateMany keep)
    show "filter P (updateMany (\<lambda>c. cat_id c = cid) (apply_category b) (categories ?s)) = filter P (categories ?s)"
      if "\<And>c. P c \<Longrightarrow> cat_venueId c \<noteq> sc_venueId st" for P
      using that[of "apply_category b _"] by (intro filter_kept) (auto simp: keep mine dest: that)
  qed
  then show ?thesis using assms(1) by (simp add: PATCH_category_def staff split: option.split)
qed

lemma step_drop_category:
  assumes "menu_inv s"
  shows "menu_inv (snd (DELETE_category pf cid cookie s))"
proof (cases rule: requireStaff_cases[of pf Admin cookie s])
  case (refused c)
  then show ?thesis using assms(1) by (simp add: DELETE_category_def)
next
  case (staff st c)
  let ?s = "s\<lparr>accountCache := c\<rparr>"
  have "menu_inv (menu_changed (sc_venueId st)
      (?s\<lparr>categories := deleteMany (\<lambda>c. cat_id c = cid) (categories ?s)\<rparr>))"
    if r: "findFirst (\<lambda>c. cat_id c = cid \<and> cat_venueId c = sc_venueId st) (categories s) = Some r"
      and empty: "category_items cid s = []" for r
  proof (rule menu_inv_categories)
    have mine: "cat_venueId x = sc_venueId st" if "x \<in> set (categories s)" "cat_id x = cid" for x
      using findFirst_SomeD[OF r] assms that unique_row[of cat_id "categories s" x r]
      by (auto simp: menu_inv_def menu_rows_ok_def)
    have "set (category_items cid s) = {i \<in> set (menuItems s). mi_categoryId i = cid}"
      by (auto simp: category_items_def)
    then have other: "mi_categoryId i \<noteq> cid" if "i \<in> set (menuItems s)" for i
      using empty that by auto
    have gone: "list_ex (\<lambda>c. cat_id c = j \<and> cat_venueId c = w) (deleteMany (\<lambda>c. cat_id c = cid) cs) =
        (j \<noteq> cid \<and> list_ex (\<lambda>c. cat_id c = j \<and> cat_venueId c = w) cs)" for j w cs
      by (auto simp: list_ex_iff)
    show "menu_inv ?s" using assms by simp
    show "menu_rows_ok (?s\<lparr>categories := deleteMany (\<lambda>c. cat_id c = cid) (categories ?s)\<rparr>)"
      using assms other by (simp add: menu_inv_def menu_rows_ok_def gone) (simp add: deleteMany_def distinct_map_filter)
    show "filter P (deleteMany (\<lambda>c. cat_id c = cid) (categories ?s)) = filter P (categories ?s)"
      if "\<And>c. P c \<Longrightarrow> cat_venueId c \<noteq> sc_venueId st" for P
      by (rule filter_deleteMany_other) (use that mine in auto)
  qed
  moreover have "category_items cid ?s = category_items cid s" by (simp add: category_items_def)
  ultimately show ?thesis using assms(1) by (auto simp: DELETE_category_def staff split: option.split)
qed

text \<open>An item rewritten in place, its category staying within its venue, or removed.\<close>

lemma menu_inv_item_update:
  assumes inv: "menu_inv s"
    and found: "findFirst (\<lambda>x. mi_id x = i \<and> mi_venueId x = w) (menuItems s) = Some r"
    and keep: "\<And>x. mi_id x = i \<Longrightarrow> mi_id (f x) = i" "\<And>x. mi_venueId (f x) = mi_venueId x"
    and own: "list_ex (\<lambda>c. cat_id c = mi_categoryId (f r) \<and> cat_venueId c = w) (categories s)"
  shows "menu_inv (menu_changed w (s\<lparr>menuItems := updateMany (\<lambda>x. mi_id x = i) f (menuItems s)\<rparr>))"
proof (rule menu_inv_items)
  have rows: "menu_rows_ok s" using inv by (simp add: menu_inv_def)
  have r: "r \<in> set (menuItems s)" "mi_id r = i" "mi_venueId r = w" using findFirst_SomeD[OF found] by auto
  have only: "x = r" if "x \<in> set (menuItems s)" "mi_id x = i" for x
    using unique_row[of mi_id "menuItems s" x r] rows that r by (simp add: menu_rows_ok_def)
  show "menu_inv s" by (rule inv)
  have "map mi_id (updateMany (\<lambda>x. mi_id x = i) f (menuItems s)) = map mi_id (menuItems s)"
    by (rule map_updateMany) (use keep in auto)
  moreover have "list_ex (\<lambda>c. cat_id c = mi_categoryId y \<and> cat_venueId c = mi_venueId y) (categories s)"
    if y: "y \<in> set (updateMany (\<lambda>x. mi_id x = i) f (menuItems s))" for y
  proof -
    obtain x where x: "x \<in> set (menuItems s)" "y = (if mi_id x = i then f x else x)"
      using y by (auto simp: set_updateMany)
    show ?thesis
    proof (cases "mi_id x = i")
      case True
      then show ?thesis using x only own keep(2)[of r] r(3) by auto
    next
      case False
      then show ?thesis using x rows by (simp add: menu_rows_ok_def)
    qed
  qed
  ultimately show "menu_rows_ok (s\<lparr>menuItems := updateMany (\<lambda>x. mi_id x = i) f (menuItems s)\<rparr>)"
    using rows by (simp add: menu_rows_ok_def)
  show "filter (\<lambda>x. mi_categoryId x = cat_id c) (updateMany (\<lambda>x. mi_id x = i) f (menuItems s)) =
      filter (\<lambda>x. mi_categoryId x = cat_id c) (menuItems s)"
    if c: "c \<in> set (categories s)" "cat_venueId c \<noteq> w" for c
  proof (rule filter_kept)
    show "mi_id x \<noteq> i" if "x \<in> set (menuItems s)" "mi_categoryId x = cat_id c" for x
      using menu_rows_item[OF rows that(1) c(1)] that only r(3) c(2) by auto
    have "mi_categoryId (f r) \<noteq> cat_id c"
    proof
      assume same: "mi_categoryId (f r) = cat_id c"
      obtain c' where "c' \<in> set (categories s)" "cat_id c' = cat_id c" "cat_venueId c' = w"
        using own unfolding same list_ex_iff by blast
      moreover from this have "c' = c" using unique_row[of cat_id "categories s" c' c] rows c(1)
        by (simp add: menu_rows_ok_def)
      ultimately show False using c(2) by simp
    qed
    then show "mi_categoryId (f x) \<noteq> cat_id c" if "x \<in> set (menuItems s)" "mi_id x = i" for x
      using only[OF that] by simp
  qed
qed

lemma menu_inv_item_delete:
  assumes inv: "menu_inv s"
    and found: "findFirst (\<lambda>x. mi_id x = i \<and> mi_venueId x = w) (menuItems s) = Some r"
  shows "menu_inv (menu_changed w (s\<lparr>menuItems := deleteMany (\<lambda>x. mi_id x = i) (menuItems s)\<rparr>))"
proof (rule menu_inv_items)
  have rows: "menu_rows_ok s" using inv by (simp add: menu_inv_def)
  have r: "r \<in> set (menuItems s)" "mi_id r = i" "mi_venueId r = w" using findFirst_SomeD[OF found] by auto
  show "menu_inv s" by (rule inv)
  show "menu_rows_ok (s\<lparr>menuItems := deleteMany (\<lambda>x. mi_id x = i) (menuItems s)\<rparr>)"
    using rows by (simp add: menu_rows_ok_def) (simp add: deleteMany_def distinct_map_filter)
  show "filter (\<lambda>x. mi_categoryId x = cat_id c) (deleteMany (\<lambda>x. mi_id x = i) (menuItems s)) =
      filter (\<lambda>x. mi_categoryId x = cat_id c) (menuItems s)"
    if c: "c \<in> set (categories s)" "cat_venueId c \<noteq> w" for c
  proof (rule filter_deleteMany_other)
    show "mi_id x \<noteq> i" if "x \<in> set (menuItems s)" "mi_categoryId x = cat_id c" for x
      using menu_rows_item[OF rows that(1) c(1)] that unique_row[of mi_id "menuItems s" x r] r rows c(2)
      by (auto simp: menu_rows_ok_def)
  qed
qed

lemma step_new_item:
  assumes "menu_inv s" "newId \<notin> mi_id ` set (menuItems s)"
  shows "menu_inv (snd (POST_item pf newId gid oid body cookie s))"
proof (cases rule: requireStaff_cases[of pf Admin cookie s])
  case (refused c)
  then show ?thesis using assms(1) by (simp add: POST_item_def)
next
  case (staff st c)
  let ?s = "s\<lparr>accountCache := c\<rparr>"
  have "menu_inv (menu_changed (sc_venueId st)
      (?s\<lparr>menuItems := menuItems ?s @ [item_of_input newId (sc_venueId st) gid oid d]\<rparr>))"
    if cat: "findFirst (\<lambda>c. cat_id c = it_categoryId d \<and> cat_venueId c = sc_venueId st) (categories s) = Some k" for d k
  proof (rule menu_inv_items)
    have k: "k \<in> set (categories s)" "cat_id k = it_categoryId d" "cat_venueId k = sc_venueId st"
      using findFirst_SomeD[OF cat] by auto
    have rows: "menu_rows_ok s" using assms(1) by (simp add: menu_inv_def)
    show "menu_inv ?s" using assms(1) by simp
    show "menu_rows_ok (?s\<lparr>menuItems := menuItems ?s @ [item_of_input newId (sc_venueId st) gid oid d]\<rparr>)"
      using rows assms(2) k by (auto simp: menu_rows_ok_def item_of_input_def list_ex_iff)
    show "filter (\<lambda>i. mi_categoryId i = cat_id c) (menuItems ?s @ [item_of_input newId (sc_venueId st) gid oid d]) =
        filter (\<lambda>i. mi_categoryId i = cat_id c) (menuItems ?s)"
      if "c \<in> set (categories ?s)" "cat_venueId c \<noteq> sc_venueId st" for c
      using that k unique_row[of cat_id "categories s" c k] rows by (auto simp: item_of_input_def menu_rows_ok_def)
  qed
  then show ?thesis using assms(1) by (auto simp: POST_item_def staff split: option.split)
qed

lemma own_category:
  assumes "menu_inv s" and "findFirst (\<lambda>x. mi_id x = i \<and> mi_venueId x = w) (menuItems s) = Some r"
  shows "list_ex (\<lambda>c. cat_id c = mi_categoryId r \<and> cat_venueId c = w) (categories s)"
  using assms(1) findFirst_SomeD[OF assms(2)] by (auto simp: menu_inv_def menu_rows_ok_def)

lemma step_available:
  assumes "menu_inv s"
  shows "menu_inv (snd (PATCH_item pf i gid oid (Availability a) cookie s))"
proof (cases rule: requireStaff_cases[of pf Admin cookie s])
  case (refused c)
  then show ?thesis using assms by (simp add: PATCH_item_def)
next
  case (staff st c)
  let ?s = "s\<lparr>accountCache := c\<rparr>"
  have "menu_inv (menu_changed (sc_venueId st)
      (?s\<lparr>menuItems := updateMany (\<lambda>x. mi_id x = i) (\<lambda>x. x\<lparr>mi_available := a\<rparr>) (menuItems ?s)\<rparr>))"
    if r: "findFirst (\<lambda>x. mi_id x = i \<and> mi_venueId x = sc_venueId st) (menuItems ?s) = Some r" for r
    using assms own_category[of s, OF assms] r by (intro menu_inv_item_update[OF _ r]) auto
  then show ?thesis using assms by (simp add: PATCH_item_def staff split: option.split)
qed

lemma step_item:
  assumes "menu_inv s"
    and own: "\<And>x c. x \<in> set (menuItems s) \<Longrightarrow> mi_id x = i \<Longrightarrow> c \<in> set (categories s) \<Longrightarrow>
      cat_id c = it_categoryId d \<Longrightarrow> cat_venueId c = mi_venueId x"
  shows "menu_inv (snd (PATCH_item pf i gid oid (Whole_item (Some d)) cookie s))"
proof (cases rule: requireStaff_cases[of pf Admin cookie s])
  case (refused c)
  then show ?thesis using assms(1) by (simp add: PATCH_item_def)
next
  case (staff st c)
  let ?s = "s\<lparr>accountCache := c\<rparr>"
  have "menu_inv (menu_changed (sc_venueId st) (?s\<lparr>menuItems := updateMany (\<lambda>x. mi_id x = i)
      (\<lambda>x. item_of_input i (mi_venueId x) gid oid d) (menuItems ?s)\<rparr>))"
    if r: "findFirst (\<lambda>x. mi_id x = i \<and> mi_venueId x = sc_venueId st) (menuItems ?s) = Some r"
      and cat: "list_ex (\<lambda>c. cat_id c = it_categoryId d) (categories s)" for r
  proof (rule menu_inv_item_update[OF _ r])
    show "menu_inv ?s" using assms(1) by simp
    show "list_ex (\<lambda>c. cat_id c = mi_categoryId (item_of_input i (mi_venueId r) gid oid d) \<and>
        cat_venueId c = sc_venueId st) (categories ?s)"
      using cat own[of r] findFirst_SomeD[OF r] by (auto simp: list_ex_iff item_of_input_def)
  qed (simp_all add: item_of_input_def)
  then show ?thesis using assms(1) by (auto simp: PATCH_item_def staff split: option.split)
qed

lemma step_drop_item:
  assumes "menu_inv s"
  shows "menu_inv (snd (DELETE_item pf i cookie s))"
proof (cases rule: requireStaff_cases[of pf Admin cookie s])
  case (refused c)
  then show ?thesis using assms by (simp add: DELETE_item_def)
next
  case (staff st c)
  let ?s = "s\<lparr>accountCache := c\<rparr>"
  have inv: "menu_inv ?s" using assms by simp
  have "menu_inv (menu_changed (sc_venueId st)
      (?s\<lparr>menuItems := updateMany (\<lambda>x. mi_id x = i) (\<lambda>x. x\<lparr>mi_available := False\<rparr>) (menuItems ?s)\<rparr>))"
    "menu_inv (menu_changed (sc_venueId st) (?s\<lparr>menuItems := deleteMany (\<lambda>x. mi_id x = i) (menuItems ?s)\<rparr>))"
    if r: "findFirst (\<lambda>x. mi_id x = i \<and> mi_venueId x = sc_venueId st) (menuItems ?s) = Some r" for r
    using own_category[OF inv r] by (intro menu_inv_item_update[OF inv r] menu_inv_item_delete[OF inv r]; simp)+
  then show ?thesis using assms by (simp add: DELETE_item_def staff split: option.split)
qed

lemma step_settings:
  assumes "menu_inv s"
  shows "menu_inv (snd (PATCH_venue pf b cookie s))"
proof (cases rule: requireStaff_cases[of pf Admin cookie s])
  case (refused c)
  then show ?thesis using assms by (simp add: PATCH_venue_def)
next
  case (staff st c)
  let ?s = "s\<lparr>accountCache := c\<rparr>"
  let ?t = "\<lambda>i. ?s\<lparr>venues := updateMany (\<lambda>v. ven_id v = sc_venueId st) (apply_settings i) (venues ?s)\<rparr>"
  have other: "loadVenueMenu w (?t i) = loadVenueMenu w ?s" if "w \<noteq> sc_venueId st" for w i
  proof (rule load_cong)
    have "findFirst (\<lambda>v. ven_id v = w) (updateMany (\<lambda>v. ven_id v = sc_venueId st) (apply_settings i) (venues s)) =
        map_option (\<lambda>v. if ven_id v = sc_venueId st then apply_settings i v else v)
          (findFirst (\<lambda>v. ven_id v = w) (venues s))"
      by (rule findFirst_updateMany_key) (simp add: apply_settings_def)
    also have "\<dots> = findFirst (\<lambda>v. ven_id v = w) (venues s)"
      using that findFirst_SomeD[of "\<lambda>v. ven_id v = w" "venues s"]
      by (cases "findFirst (\<lambda>v. ven_id v = w) (venues s)") auto
    finally show "findFirst (\<lambda>v. ven_id v = w) (venues (?t i)) = findFirst (\<lambda>v. ven_id v = w) (venues ?s)"
      by simp
  qed (simp_all add: listed_categories_def category_items_def)
  have inv: "menu_inv ?s" using assms by simp
  have "cache_current (menu_changed (sc_venueId st) (?t i))" for i
    using inv other by (intro menu_changed_current[where s = ?s]) (simp_all add: menu_inv_def)
  moreover have "menu_rows_ok (?t i)" for i using assms by (simp add: menu_inv_def menu_rows_ok_def)
  ultimately have "menu_inv (publish (MenuChanged (sc_venueId st)) (?t i))" for i
    by (simp add: menu_inv_def menu_changed_def[symmetric])
  then show ?thesis using inv by (auto simp: PATCH_venue_def staff updateVenueSettings_def split: option.split)
qed

lemma step_read:
  assumes "menu_inv s"
  shows "menu_inv (snd (venueMenu ven s))"
proof -
  have "loadVenueMenu w (s\<lparr>menuCache := c\<rparr>) = loadVenueMenu w s" for w c
    by (rule load_cong) (simp_all add: listed_categories_def category_items_def)
  then show ?thesis
    using assms by (auto simp: venueMenu_def menu_inv_def menu_rows_ok_def cache_current_def update_conv'
        split: option.split)
qed

lemmas menu_steps_ok = step_read step_new_category step_category step_drop_category step_new_item
  step_available step_item step_drop_item step_settings

interpretation menu_machine: machine_invariant menu_start menu_step menu_inv
proof
  show "menu_inv s" if "menu_start s" for s
    using that by (simp add: menu_start_def menu_inv_def cache_current_def)
  show "menu_inv t" if "menu_step s t" "menu_inv s" for s t
    using that
  proof (cases rule: menu_step.cases)
    case m_other
    then show ?thesis using menu_inv_cong[OF that(2)] by simp
  qed (use that(2) in \<open>auto intro: menu_steps_ok\<close>)
qed

text \<open>
  C12: the cached menu is never an old one. However the editor's routes, the venue settings and the
  reads of any venue interleave, as long as items are only moved between categories of their own
  venue, what a phone is given is exactly what a fresh load of the database would give.
\<close>

theorem menu_cache_is_invisible:
  assumes "reachable menu_start menu_step s"
  shows "fst (venueMenu ven s) = (case loadVenueMenu ven s of None \<Rightarrow> Threw | Some m \<Rightarrow> Done m)"
  using menu_machine.inv_reachable[OF assms]
  by (auto simp: venueMenu_def menu_inv_def cache_current_def split: option.split)

lemma sample_menu_start: "menu_start sample"
  by (simp add: menu_start_def menu_rows_ok_def sample_defs)

theorem menu_cache_is_invisible_witness:
  "fst (venueMenu ''v1'' (snd (PATCH_item toy_platform ''i1'' (\<lambda>_. []) (\<lambda>_ _. []) (Availability False)
     (Some ''a1-0'') (snd (venueMenu ''v1'' sample))))) =
   (case loadVenueMenu ''v1'' (snd (PATCH_item toy_platform ''i1'' (\<lambda>_. []) (\<lambda>_ _. []) (Availability False)
     (Some ''a1-0'') (snd (venueMenu ''v1'' sample)))) of None \<Rightarrow> Threw | Some m \<Rightarrow> Done m)"
proof (rule menu_cache_is_invisible)
  have "reachable menu_start menu_step sample" by (rule reach_init) (rule sample_menu_start)
  then have "reachable menu_start menu_step (snd (venueMenu ''v1'' sample))"
    by (rule reach_step) (rule m_read)
  then show "reachable menu_start menu_step (snd (PATCH_item toy_platform ''i1'' (\<lambda>_. []) (\<lambda>_ _. [])
      (Availability False) (Some ''a1-0'') (snd (venueMenu ''v1'' sample))))"
    by (rule reach_step) (rule m_available)
qed

subsection \<open>An item moved into another venue's menu\<close>

text \<open>
  changing an item does not check whose category it is put in, unlike creating one. An
  administrator who names a category of another venue puts the item on that venue's menu, and the
  announcement goes to the administrator's own venue, so the other venue's cached copy stays what
  it was.
\<close>

theorem item_moves_into_foreign_menu:
  assumes patch: "PATCH_item pf i gid oid (Whole_item (Some d)) cookie s = (Ok (), s')"
    and staff: "fst (requireStaff pf Admin cookie s) = Some st"
    and cat: "c \<in> set (categories s)" "cat_id c = it_categoryId d" "cat_active c"
    and foreign: "cat_venueId c \<noteq> sc_venueId st"
    and load: "loadVenueMenu (cat_venueId c) s' = Some m"
  shows "(\<exists>cv \<in> set (vm_categories m). cv_id cv = cat_id c \<and> i \<in> iv_id ` set (cv_items cv)) \<and>
    map_of (menuCache s') (cat_venueId c) = map_of (menuCache s) (cat_venueId c)"
proof -
  obtain k where r: "requireStaff pf Admin cookie s = (Some st, s\<lparr>accountCache := k\<rparr>)"
    using staff by (cases rule: requireStaff_cases[of pf Admin cookie s]) auto
  obtain x where x: "x \<in> set (menuItems s)" "mi_id x = i"
    and s': "s' = menu_changed (sc_venueId st) (s\<lparr>accountCache := k, menuItems := updateMany (\<lambda>x. mi_id x = i)
      (\<lambda>x. item_of_input i (mi_venueId x) gid oid d) (menuItems s)\<rparr>)"
    using patch by (auto simp: PATCH_item_def r dest!: findFirst_SomeD split: option.splits if_splits)
  let ?new = "item_of_input i (mi_venueId x) gid oid d"
  have new: "?new \<in> set (menuItems s')" "mi_categoryId ?new = cat_id c" "mi_id ?new = i"
    using x by (auto simp: s' menu_changed_def set_updateMany item_of_input_def cat(2))
  have listed: "c \<in> set (listed_categories (cat_venueId c) s')"
    using cat by (simp add: listed_categories_def s' menu_changed_def)
  have m: "vm_categories m = map (category_view_of s') (listed_categories (cat_venueId c) s')"
    using load by (auto simp: loadVenueMenu_def)
  have "item_view_of ?new \<in> set (cv_items (category_view_of s' c))"
    using new by (auto simp: category_view_of_def category_items_def)
  then have "i \<in> iv_id ` set (cv_items (category_view_of s' c))"
    using new(3) by (force simp: item_view_of_def)
  then have "\<exists>cv \<in> set (vm_categories m). cv_id cv = cat_id c \<and> i \<in> iv_id ` set (cv_items cv)"
    using listed by (intro bexI[of _ "category_view_of s' c"]) (auto simp: m category_view_of_def)
  moreover have "menuCache s' = AList.delete (sc_venueId st) (menuCache s)"
    by (simp add: s' menu_changed_def publish_def)
  ultimately show ?thesis using foreign by (simp add: delete_conv')
qed

definition rival_category :: category where
  "rival_category = \<lparr>cat_id = ''c2'', cat_venueId = ''v2'', cat_nameTr = lit ''Tatli'',
     cat_nameEn = lit ''Sweets'', cat_sortOrder = 0, cat_active = True\<rparr>"

definition two_venues :: server where
  "two_venues = sample\<lparr>venues := venues sample @ [\<lparr>ven_id = ''v2'', ven_slug = lit ''rival'',
       ven_name = lit ''Rival'', ven_currency = ''TRY'', ven_defaultLocale = ''tr'', ven_qrSecret = ''sec2'',
       ven_posAdapter = ''console''\<rparr>],
     categories := categories sample @ [rival_category]\<rparr>"

definition baklava :: item_input where
  "baklava = \<lparr>it_categoryId = ''c2'', it_nameTr = lit ''Baklava'', it_nameEn = [], it_descTr = [],
     it_descEn = [], it_priceKurus = 5000, it_photoUrl = None, it_tags = [], it_available = True,
     it_sortOrder = 0, it_modifierGroups = []\<rparr>"

lemma two_venues_fields:
  "menuItems two_venues = [sample_item]" "staffUsers two_venues = staffUsers sample"
  "accountCache two_venues = []" "rival_category \<in> set (categories two_venues)"
  "list_ex (\<lambda>c. cat_id c = ''c2'') (categories two_venues)"
  "findFirst (\<lambda>v. ven_id v = ''v2'') (venues two_venues) \<noteq> None"
  by (simp_all add: two_venues_def sample_fields rival_category_def)

theorem item_moves_into_foreign_menu_witness:
  "\<exists>m. loadVenueMenu ''v2'' (snd (PATCH_item toy_platform ''i1'' (\<lambda>_. []) (\<lambda>_ _. [])
      (Whole_item (Some baklava)) (Some ''a1-0'') two_venues)) = Some m \<and>
    (\<exists>cv \<in> set (vm_categories m). ''i1'' \<in> iv_id ` set (cv_items cv))"
proof -
  let ?p = "PATCH_item toy_platform ''i1'' (\<lambda>_. []) (\<lambda>_ _. []) (Whole_item (Some baklava)) (Some ''a1-0'') two_venues"
  obtain c where c: "requireStaff toy_platform Admin (Some ''a1-0'') two_venues =
      (Some toy_admin, two_venues\<lparr>accountCache := c\<rparr>)"
    using toy_requires(1)[of two_venues] by (auto simp: two_venues_fields)
  have "fst ?p = Ok ()"
    by (simp add: PATCH_item_def c toy_admin_def two_venues_fields sample_item_def baklava_def
        valid_item_def item_fits_def int4_def)
  then have p: "?p = (Ok (), snd ?p)" by (simp add: prod_eq_iff)
  have "venues (snd ?p) = venues two_venues"
    using c by (simp add: PATCH_item_def menu_changed_def split: option.split item_patch.split)
  then obtain m where m: "loadVenueMenu (cat_venueId rival_category) (snd ?p) = Some m"
    using two_venues_fields(6) by (auto simp: loadVenueMenu_def rival_category_def)
  have "fst (requireStaff toy_platform Admin (Some ''a1-0'') two_venues) = Some toy_admin" using c by simp
  from item_moves_into_foreign_menu[OF p this, of rival_category m] m two_venues_fields(4) show ?thesis
    by (auto simp: rival_category_def baklava_def toy_admin_def)
qed

subsection \<open>What the editor saves is what customers see and pay\<close>

lemma orderBy_enumerate:
  "(\<And>k x. key (f (k, x)) = int k) \<Longrightarrow>
   orderBy key (map f (enumerate n xs)) = map f (enumerate n xs)"
proof -
  assume key: "\<And>k x. key (f (k, x)) = int k"
  have "map key (map f (enumerate n xs)) = map int [n..<n + length xs]"
    by (rule nth_equalityI) (auto simp: nth_enumerate_eq key)
  then have "sorted (map key (map f (enumerate n xs)))"
    by (simp add: sorted_map sorted_wrt_map)
  then show ?thesis by (simp add: orderBy_def sorted_sort_id sort_key_id_if_sorted)
qed

text \<open>
  what an administrator saves is what customers are shown. A new item in an active category
  appears on the freshly loaded menu with the names, price, photo and availability entered, the
  Turkish name where the English one was left empty, and its groups and options in the order they
  were entered.
\<close>

theorem saved_item_is_shown:
  assumes post: "POST_item pf newId gid oid (Some d) cookie s = (Ok i, s')"
    and staff: "fst (requireStaff pf Admin cookie s) = Some st"
    and active: "\<And>c. c \<in> set (categories s) \<Longrightarrow> cat_id c = it_categoryId d \<Longrightarrow> cat_active c"
    and load: "loadVenueMenu (sc_venueId st) s' = Some m"
  shows "\<exists>cv \<in> set (vm_categories m). cv_id cv = it_categoryId d \<and> (\<exists>iv \<in> set (cv_items cv).
    iv_id iv = i \<and> iv_nameTr iv = it_nameTr d \<and> iv_priceKurus iv = it_priceKurus d \<and>
    iv_nameEn iv = (if it_nameEn d = [] then it_nameTr d else it_nameEn d) \<and>
    iv_photoUrl iv = it_photoUrl d \<and> iv_available iv = it_available d \<and>
    map gv_nameTr (iv_modifierGroups iv) = map gn_nameTr (it_modifierGroups d) \<and>
    map (\<lambda>g. map ov_priceDeltaKurus (gv_options g)) (iv_modifierGroups iv) =
      map (\<lambda>g. map on_priceDeltaKurus (gn_options g)) (it_modifierGroups d))"
proof -
  obtain k where r: "requireStaff pf Admin cookie s = (Some st, s\<lparr>accountCache := k\<rparr>)"
    using staff by (cases rule: requireStaff_cases[of pf Admin cookie s]) auto
  obtain c where c: "c \<in> set (categories s)" "cat_id c = it_categoryId d" "cat_venueId c = sc_venueId st"
    and s': "i = newId" "s' = menu_changed (sc_venueId st) (s\<lparr>accountCache := k,
      menuItems := menuItems s @ [item_of_input newId (sc_venueId st) gid oid d]\<rparr>)"
    using post by (auto simp: POST_item_def r dest!: findFirst_SomeD split: option.splits if_splits)
  let ?new = "item_of_input newId (sc_venueId st) gid oid d"
  have listed: "c \<in> set (listed_categories (sc_venueId st) s')"
    using c active by (simp add: listed_categories_def s' menu_changed_def)
  have m: "vm_categories m = map (category_view_of s') (listed_categories (sc_venueId st) s')"
    using load by (auto simp: loadVenueMenu_def)
  have shown: "item_view_of ?new \<in> set (cv_items (category_view_of s' c))"
    by (auto simp: category_view_of_def category_items_def s' menu_changed_def item_of_input_def c(2))
  have groups: "orderBy mg_sortOrder (groups_created gid oid gs) = groups_created gid oid gs" for gs
    unfolding groups_created_def by (rule orderBy_enumerate) simp
  have options: "orderBy mo_sortOrder (options_created h os) = options_created h os" for h os
    unfolding options_created_def by (rule orderBy_enumerate) simp
  have views: "iv_modifierGroups (item_view_of ?new) =
      map group_view_of (groups_created gid oid (it_modifierGroups d))"
    by (simp add: item_view_of_def item_of_input_def groups)
  have "map gv_nameTr (map group_view_of (groups_created gid oid gs)) = map gn_nameTr gs" for gs
    by (rule nth_equalityI) (auto simp: groups_created_def group_view_of_def nth_enumerate_eq)
  then have "map gv_nameTr (iv_modifierGroups (item_view_of ?new)) = map gn_nameTr (it_modifierGroups d)"
    unfolding views .
  moreover have "map (\<lambda>g. map ov_priceDeltaKurus (gv_options g)) (iv_modifierGroups (item_view_of ?new)) =
      map (\<lambda>g. map on_priceDeltaKurus (gn_options g)) (it_modifierGroups d)"
  proof -
    have deltas: "map ov_priceDeltaKurus (map option_view_of (options_created h os)) = map on_priceDeltaKurus os" for h os
      by (rule nth_equalityI) (auto simp: options_created_def option_view_of_def nth_enumerate_eq)
    have "map (\<lambda>g. map ov_priceDeltaKurus (gv_options g)) (map group_view_of (groups_created gid oid gs)) =
        map (\<lambda>g. map on_priceDeltaKurus (gn_options g)) gs" for gs
      by (rule nth_equalityI)
        (simp_all only: length_map groups_created_def length_enumerate nth_map nth_enumerate_eq group_view_of_def
          group_view.select_convs modifier_group.select_convs options deltas split_conv add_0)
    then show ?thesis unfolding views .
  qed
  moreover have "category_view_of s' c \<in> set (vm_categories m)" "cv_id (category_view_of s' c) = it_categoryId d"
    using listed by (simp_all add: m) (simp add: category_view_of_def c(2))
  moreover have "iv_id (item_view_of ?new) = i" "iv_nameTr (item_view_of ?new) = it_nameTr d"
    "iv_priceKurus (item_view_of ?new) = it_priceKurus d"
    "iv_nameEn (item_view_of ?new) = (if it_nameEn d = [] then it_nameTr d else it_nameEn d)"
    "iv_photoUrl (item_view_of ?new) = it_photoUrl d" "iv_available (item_view_of ?new) = it_available d"
    by (simp_all add: item_view_of_def item_of_input_def english_def s'(1))
  ultimately show ?thesis using shown by blast
qed

definition ayran :: item_input where
  "ayran = \<lparr>it_categoryId = ''c1'', it_nameTr = lit ''Ayran'', it_nameEn = [], it_descTr = [],
     it_descEn = [], it_priceKurus = 400, it_photoUrl = None, it_tags = [], it_available = True,
     it_sortOrder = 1, it_modifierGroups = [\<lparr>gn_nameTr = lit ''Boy'', gn_nameEn = [], gn_minSelect = 0,
       gn_maxSelect = 1, gn_options = [\<lparr>on_nameTr = lit ''Buyuk'', on_nameEn = [], on_priceDeltaKurus = 100\<rparr>]\<rparr>]\<rparr>"

theorem saved_item_is_shown_witness:
  "\<exists>m. loadVenueMenu ''v1'' (snd (POST_item toy_platform ''i9'' (\<lambda>_. ''g9'') (\<lambda>_ _. ''o9'') (Some ayran)
      (Some ''a1-0'') sample)) = Some m \<and>
    (\<exists>cv \<in> set (vm_categories m). \<exists>iv \<in> set (cv_items cv). iv_id iv = ''i9'' \<and> iv_nameEn iv = lit ''Ayran'')"
proof -
  let ?p = "POST_item toy_platform ''i9'' (\<lambda>_. ''g9'') (\<lambda>_ _. ''o9'') (Some ayran) (Some ''a1-0'') sample"
  obtain c where c: "requireStaff toy_platform Admin (Some ''a1-0'') sample =
      (Some toy_admin, sample\<lparr>accountCache := c\<rparr>)"
    using toy_requires(1)[of sample] by (auto simp: sample_fields)
  have "fst ?p = Ok ''i9''"
    by (simp add: POST_item_def c toy_admin_def sample_fields ayran_def valid_item_def item_fits_def int4_def)
  then have p: "?p = (Ok ''i9'', snd ?p)" by (simp add: prod_eq_iff)
  have "venues (snd ?p) = venues sample"
    using c by (simp add: POST_item_def menu_changed_def split: option.split)
  then obtain m where m: "loadVenueMenu (sc_venueId toy_admin) (snd ?p) = Some m"
    by (simp add: loadVenueMenu_def sample_fields toy_admin_def)
  have st: "fst (requireStaff toy_platform Admin (Some ''a1-0'') sample) = Some toy_admin" using c by simp
  have "cat_active c" if "c \<in> set (categories sample)" for c using that by (simp add: sample_fields)
  from saved_item_is_shown[OF p st this m] m show ?thesis
    by (auto simp: toy_admin_def ayran_def)
qed

text \<open>
  the price on the screen is the price on the bill. When a line is ordered from an item of the
  menu that was shown, the item was shown as available, every option chosen is one of the options
  shown with it, and the price charged per piece is the price shown plus the surcharges shown.
\<close>

theorem shown_price_is_charged:
  assumes "loadVenueMenu ven s = Some m" and "cv \<in> set (vm_categories m)" and "iv \<in> set (cv_items cv)"
    and "price_line ven s l = Done d" and "ol_itemId l = iv_id iv" and "distinct (map mi_id (menuItems s))"
  shows "iv_available iv \<and> di_nameSnapshot d = iv_nameTr iv \<and>
    (\<exists>opts. map ov_id opts = ol_optionIds l \<and>
      set opts \<subseteq> (\<Union>g \<in> set (iv_modifierGroups iv). set (gv_options g)) \<and>
      di_unitPriceKurus d = iv_priceKurus iv + sum_list (map ov_priceDeltaKurus opts))"
proof -
  obtain x where x: "x \<in> set (menuItems s)" "iv = item_view_of x"
    using assms(1-3) by (auto simp: loadVenueMenu_def category_view_of_def category_items_def)
  obtain item opts where priced: "item \<in> set (menuItems s)" "mi_id item = ol_itemId l" "mi_available item"
      "map (\<lambda>(o', gid). mo_id o') opts = ol_optionIds l"
      "\<forall>(o', gid) \<in> set opts. \<exists>g \<in> set (mi_modifierGroups item). mg_id g = gid \<and> o' \<in> set (mg_options g)"
      "di_nameSnapshot d = mi_nameTr item" "di_unitPriceKurus d = mi_priceKurus item + option_sum opts"
    using price_line_Done[OF assms(4)] unfolding priced_by_def by blast
  have same: "item = x"
    using unique_row[of mi_id "menuItems s" item x] assms(5,6) x priced(1,2) by (simp add: item_view_of_def)
  let ?vs = "map (\<lambda>(o', gid). option_view_of o') opts"
  have "map ov_id ?vs = ol_optionIds l"
    using priced(4) by (simp add: option_view_of_def case_prod_unfold o_def)
  moreover have "sum_list (map ov_priceDeltaKurus ?vs) = option_sum opts"
    by (simp add: option_sum_def option_view_of_def case_prod_unfold o_def)
  moreover have "option_view_of o' \<in> (\<Union>g \<in> set (iv_modifierGroups iv). set (gv_options g))"
    if chosen: "(o', gid) \<in> set opts" for o' gid
  proof -
    obtain g where g: "g \<in> set (mi_modifierGroups x)" "o' \<in> set (mg_options g)"
      using bspec[OF priced(5) chosen] same by auto
    have "group_view_of g \<in> set (iv_modifierGroups iv)" using g(1) by (simp add: x(2) item_view_of_def)
    moreover have "option_view_of o' \<in> set (gv_options (group_view_of g))"
      using g(2) by (simp add: group_view_of_def)
    ultimately show ?thesis by blast
  qed
  then have "set ?vs \<subseteq> (\<Union>g \<in> set (iv_modifierGroups iv). set (gv_options g))" by auto
  ultimately show ?thesis
    using priced(3,6,7) same by (intro conjI exI[of _ ?vs]) (simp_all add: x(2) item_view_of_def)
qed

theorem shown_price_is_charged_witness:
  "\<exists>d. price_line ''v1'' sample \<lparr>ol_itemId = ''i1'', ol_qty = 1, ol_note = [], ol_optionIds = [''o1'']\<rparr> = Done d \<and>
     di_nameSnapshot d = iv_nameTr (item_view_of sample_item)"
proof -
  let ?l = "\<lparr>ol_itemId = ''i1'', ol_qty = 1, ol_note = [], ol_optionIds = [''o1'']\<rparr>"
  obtain d where d: "price_line ''v1'' sample ?l = Done d"
    by (simp add: price_line_def chosen_options_def option_of_def all_options_def group_violation_def map_filter_simps
        sample_defs Let_def)
  obtain m where m: "loadVenueMenu ''v1'' sample = Some m" by (simp add: loadVenueMenu_def sample_fields)
  let ?c = "hd (categories sample)"
  have "vm_categories m = [category_view_of sample ?c]"
    using m by (auto simp: loadVenueMenu_def listed_categories_def orderBy_def sample_fields)
  then have cv: "category_view_of sample ?c \<in> set (vm_categories m)" by simp
  have "category_items (cat_id ?c) sample = [sample_item]"
    by (simp add: category_items_def sample_fields orderBy_def sample_item_def)
  then have iv: "item_view_of sample_item \<in> set (cv_items (category_view_of sample ?c))"
    by (simp add: category_view_of_def)
  have "ol_itemId ?l = iv_id (item_view_of sample_item)" "distinct (map mi_id (menuItems sample))"
    by (simp_all add: item_view_of_def sample_item_def sample_fields)
  from shown_price_is_charged[OF m cv iv d this] d show ?thesis by blast
qed

end
