(* ===== verification/OrderEdit.thy ===== *)
theory OrderEdit
  imports Sample
begin

section \<open>Corrections to a placed order\<close>

text \<open>
  \<open>src/lib/orderEdit.ts\<close>. \<open>editOrder\<close> is split into what it reads and computes
  (\<open>edit_read\<close>) and the transaction that writes (\<open>edit_write\<close>), because the code is written for
  two staff editing one ticket at a time. The order items of all orders are one table in the
  database: a statement on items ranges over every order.
\<close>

definition EDITABLE_STATUSES :: "order_status list" where
  "EDITABLE_STATUSES = IN_FLIGHT_STATUSES"

record edit_line =
  el_itemId :: id
  el_qty :: int

definition valid_edit :: "edit_line list \<Rightarrow> bool" where
  "valid_edit ls \<longleftrightarrow> list_all (\<lambda>l. 0 \<le> el_qty l \<and> el_qty l \<le> 20) ls \<and> 1 \<le> length ls \<and> length ls \<le> 30"

datatype edit_error = Edit_not_found | Not_editable order_status | Unknown_line | No_change
  | Empties_order | Edit_conflict

record line_edit =
  ed_id :: id
  ed_fromQty :: int
  ed_toQty :: int

record edit_plan =
  ep_order :: order
  ep_edits :: "line_edit list"
  ep_changes :: "line_change list"
  ep_totalKurus :: int
  ep_afterPrint :: bool

subsection \<open>Reading and computing\<close>

definition live_by_id :: "order \<Rightarrow> id \<Rightarrow> order_item option" where
  "live_by_id o' i = map_of (rev (map (\<lambda>x. (oi_id x, x)) (live_items o'))) i"

text \<open>The second loop over the requested lines: an increase stops it, an equal quantity is skipped.\<close>

fun collect_edits ::
  "order \<Rightarrow> edit_line list \<Rightarrow> line_change list \<times> line_edit list \<Rightarrow> (line_change list \<times> line_edit list) option"
where
  "collect_edits o' [] acc = Some acc"
| "collect_edits o' (l # ls) (changes, edits) =
     (case live_by_id o' (el_itemId l) of
        None \<Rightarrow> None
      | Some item \<Rightarrow>
          if el_qty l > oi_qty item then None
          else if el_qty l \<noteq> oi_qty item
          then collect_edits o' ls
            (changes @ [\<lparr>lc_name = oi_nameSnapshot item, lc_fromQty = oi_qty item, lc_toQty = el_qty l\<rparr>],
             edits @ [\<lparr>ed_id = oi_id item, ed_fromQty = oi_qty item, ed_toQty = el_qty l\<rparr>])
          else collect_edits o' ls (changes, edits))"

definition new_qty :: "edit_line list \<Rightarrow> order_item \<Rightarrow> int" where
  "new_qty ls i = (case findFirst (\<lambda>l. el_itemId l = oi_id i) ls of Some l \<Rightarrow> el_qty l | None \<Rightarrow> oi_qty i)"

definition remaining_items :: "edit_line list \<Rightarrow> order \<Rightarrow> order_item list" where
  "remaining_items ls o' = filter (\<lambda>i. new_qty ls i > 0) (live_items o')"

definition edit_read :: "id \<Rightarrow> id \<Rightarrow> edit_line list \<Rightarrow> server \<Rightarrow> (edit_error, edit_plan) outcome" where
  "edit_read orderId venueId ls s =
     (case findFirst (\<lambda>o'. ord_id o' = orderId \<and> ord_venueId o' = venueId) (orders s) of
        None \<Rightarrow> Refused Edit_not_found
      | Some o' \<Rightarrow>
          if ord_status o' \<notin> set EDITABLE_STATUSES then Refused (Not_editable (ord_status o'))
          else if list_ex (\<lambda>l. live_by_id o' (el_itemId l) = None) ls then Refused Unknown_line
          else (case collect_edits o' ls ([], []) of
              None \<Rightarrow> Refused Unknown_line
            | Some (changes, edits) \<Rightarrow>
                if changes = [] then Refused No_change
                else (let remaining = remaining_items ls o' in
                  if remaining = [] then Refused Empties_order
                  else Done \<lparr>ep_order = o', ep_edits = edits, ep_changes = changes,
                    ep_totalKurus = sum_list (map (\<lambda>i. oi_unitPriceKurus i * new_qty ls i) remaining),
                    ep_afterPrint = list_ex (\<lambda>d. pd_orderId d = ord_id o') (posDeliveries s)\<rparr>)))"

subsection \<open>The transaction\<close>

definition map_items :: "(order_item \<Rightarrow> order_item) \<Rightarrow> order list \<Rightarrow> order list" where
  "map_items f os = map (\<lambda>o'. o'\<lparr>ord_items := map f (ord_items o')\<rparr>) os"

definition edit_matches :: "line_edit \<Rightarrow> order_item \<Rightarrow> bool" where
  "edit_matches e i \<longleftrightarrow> oi_id i = ed_id e \<and> oi_qty i = ed_fromQty e \<and> oi_voidedAt i = None"

definition set_line :: "time \<Rightarrow> line_edit \<Rightarrow> order_item \<Rightarrow> order_item" where
  "set_line t e i = (if ed_toQty e = 0 then i\<lparr>oi_qty := 0, oi_voidedAt := Some t\<rparr>
     else i\<lparr>oi_qty := ed_toQty e\<rparr>)"

fun apply_edits :: "time \<Rightarrow> line_edit list \<Rightarrow> order list \<Rightarrow> order list option" where
  "apply_edits t [] os = Some os"
| "apply_edits t (e # es) os =
     (if \<not> list_ex (\<lambda>o'. list_ex (edit_matches e) (ord_items o')) os then None
      else apply_edits t es (map_items (\<lambda>i. if edit_matches e i then set_line t e i else i) os))"

definition edit_write ::
  "id \<Rightarrow> id \<Rightarrow> id \<times> jstr \<Rightarrow> edit_plan \<Rightarrow> server \<Rightarrow> (edit_error, edit_plan) outcome \<times> server" where
  "edit_write orderId venueId staff plan s =
     (if \<not> int4 (ep_totalKurus plan) then (Threw, s)
      else (case apply_edits (now s) (ep_edits plan) (orders s) of
          None \<Rightarrow> (Refused Edit_conflict, s)
        | Some os \<Rightarrow>
            if countWhere (\<lambda>o'. ord_id o' = orderId \<and> ord_status o' \<in> set EDITABLE_STATUSES) os = 0
            then (Refused Edit_conflict, s)
            else (Done plan,
              publish (OrderUpdated venueId orderId (ord_sessionId (ep_order plan)) (ord_tableId (ep_order plan)))
                (s\<lparr>orders := updateMany (\<lambda>o'. ord_id o' = orderId \<and> ord_status o' \<in> set EDITABLE_STATUSES)
                      (\<lambda>o'. o'\<lparr>ord_totalKurus := ep_totalKurus plan\<rparr>) os,
                   orderEdits := orderEdits s @ [\<lparr>oe_orderId = orderId, oe_staffId = fst staff,
                     oe_staffName = snd staff, oe_changes = ep_changes plan,
                     oe_afterPrint = ep_afterPrint plan, oe_createdAt = now s\<rparr>]\<rparr>))))"

definition editOrder ::
  "id \<Rightarrow> id \<Rightarrow> id \<times> jstr \<Rightarrow> edit_line list \<Rightarrow> server \<Rightarrow> (edit_error, edit_plan) outcome \<times> server" where
  "editOrder orderId venueId staff ls s =
     (case edit_read orderId venueId ls s of
        Done plan \<Rightarrow> edit_write orderId venueId staff plan s
      | Refused e \<Rightarrow> (Refused e, s)
      | Threw \<Rightarrow> (Threw, s))"

definition edits_of_order :: "id \<Rightarrow> server \<Rightarrow> (jstr \<times> line_change list \<times> bool \<times> time) list" where
  "edits_of_order orderId s = map (\<lambda>e. (oe_staffName e, oe_changes e, oe_afterPrint e, oe_createdAt e))
     (orderBy oe_createdAt (filter (\<lambda>e. oe_orderId e = orderId) (orderEdits s)))"

subsection \<open>What the loop collects\<close>

lemma live_by_id_SomeD:
  "live_by_id o' i = Some x \<Longrightarrow> x \<in> set (live_items o') \<and> oi_id x = i"
  by (auto simp: live_by_id_def dest!: map_of_SomeD)

text \<open>The edit a line stands for, if it changes anything.\<close>

definition line_edit_of :: "order \<Rightarrow> edit_line \<Rightarrow> line_edit option" where
  "line_edit_of o' l = (case live_by_id o' (el_itemId l) of
     None \<Rightarrow> None
   | Some i \<Rightarrow> if el_qty l = oi_qty i then None
       else Some \<lparr>ed_id = el_itemId l, ed_fromQty = oi_qty i, ed_toQty = el_qty l\<rparr>)"

lemma collect_edits_Some:
  "collect_edits o' ls (changes, edits) = Some (changes', edits') \<Longrightarrow>
   edits' = edits @ List.map_filter (line_edit_of o') ls \<and>
   list_all (\<lambda>l. \<exists>i. live_by_id o' (el_itemId l) = Some i \<and> el_qty l \<le> oi_qty i) ls"
proof (induction ls arbitrary: changes edits)
  case (Cons l ls)
  then obtain i where i: "live_by_id o' (el_itemId l) = Some i" "el_qty l \<le> oi_qty i"
    by (auto split: option.splits if_splits)
  have id: "oi_id i = el_itemId l" using live_by_id_SomeD[OF i(1)] by simp
  show ?case
  proof (cases "el_qty l = oi_qty i")
    case True
    then have "line_edit_of o' l = None" using i by (simp add: line_edit_of_def)
    then show ?thesis using Cons.IH[of changes edits] Cons.prems i True by (simp add: map_filter_simps)
  next
    case False
    let ?e = "\<lparr>ed_id = el_itemId l, ed_fromQty = oi_qty i, ed_toQty = el_qty l\<rparr>"
    let ?c = "\<lparr>lc_name = oi_nameSnapshot i, lc_fromQty = oi_qty i, lc_toQty = el_qty l\<rparr>"
    have "collect_edits o' ls (changes @ [?c], edits @ [?e]) = Some (changes', edits')"
      using Cons.prems i False id by simp
    moreover have "line_edit_of o' l = Some ?e" using i False by (simp add: line_edit_of_def)
    ultimately show ?thesis using Cons.IH[of "changes @ [?c]" "edits @ [?e]"] i by (simp add: map_filter_simps)
  qed
qed (simp add: map_filter_simps)

subsection \<open>What the transaction writes\<close>

definition edited_item :: "time \<Rightarrow> line_edit list \<Rightarrow> order_item \<Rightarrow> order_item" where
  "edited_item t es i = (case findFirst (\<lambda>e. edit_matches e i) es of Some e \<Rightarrow> set_line t e i | None \<Rightarrow> i)"

lemma set_line_id [simp]: "oi_id (set_line t e i) = oi_id i" "oi_unitPriceKurus (set_line t e i) = oi_unitPriceKurus i"
  by (simp_all add: set_line_def)

lemma edited_item_id [simp]: "oi_id (edited_item t es i) = oi_id i"
    "oi_unitPriceKurus (edited_item t es i) = oi_unitPriceKurus i"
  by (simp_all add: edited_item_def split: option.split)

lemma edited_item_other: "oi_id i \<notin> ed_id ` set es \<Longrightarrow> edited_item t es i = i"
proof -
  assume "oi_id i \<notin> ed_id ` set es"
  then have "findFirst (\<lambda>e. edit_matches e i) es = None"
    by (auto simp: findFirst_None_iff edit_matches_def image_iff)
  then show ?thesis by (simp add: edited_item_def)
qed

lemma map_items_map_items: "map_items f (map_items g os) = map_items (\<lambda>i. f (g i)) os"
  by (simp add: map_items_def)

lemma apply_edits_Some:
  "distinct (map ed_id es) \<Longrightarrow> apply_edits t es os = Some os' \<Longrightarrow> os' = map_items (edited_item t es) os"
proof (induction es arbitrary: os)
  case Nil
  then show ?case by (simp add: map_items_def edited_item_def)
next
  case (Cons e es)
  let ?g = "\<lambda>i. if edit_matches e i then set_line t e i else i"
  from Cons have "os' = map_items (edited_item t es) (map_items ?g os)"
    by (auto split: if_splits)
  also have "\<dots> = map_items (\<lambda>i. edited_item t es (?g i)) os" by (rule map_items_map_items)
  also have "(\<lambda>i. edited_item t es (?g i)) = edited_item t (e # es)"
  proof
    fix i
    show "edited_item t es (?g i) = edited_item t (e # es) i"
    proof (cases "edit_matches e i")
      case True
      then have "oi_id (set_line t e i) \<notin> ed_id ` set es"
        using Cons.prems(1) by (auto simp: edit_matches_def)
      then show ?thesis using True edited_item_other by (simp add: edited_item_def)
    qed (simp add: edited_item_def)
  qed
  finally show ?case .
qed

lemma live_by_id_item:
  assumes "distinct (map oi_id (ord_items o'))" "i \<in> set (ord_items o')" "oi_voidedAt i = None"
  shows "live_by_id o' (oi_id i) = Some i"
proof -
  let ?ps = "map (\<lambda>x. (oi_id x, x)) (live_items o')"
  have "distinct (map fst (rev ?ps))"
    using assms(1) by (simp add: live_items_def o_def rev_map[symmetric] distinct_map_filter)
  moreover have "(oi_id i, i) \<in> set (rev ?ps)" using assms(2,3) by (simp add: live_items_def)
  ultimately show ?thesis by (simp add: live_by_id_def)
qed

lemma edited_of_lines:
  assumes items: "distinct (map oi_id (ord_items o'))" "i \<in> set (ord_items o')" "oi_voidedAt i = None"
    and ls: "distinct (map el_itemId ls)" and es: "es = List.map_filter (line_edit_of o') ls"
  shows "edited_item t es i =
    (if new_qty ls i = oi_qty i then i
     else set_line t \<lparr>ed_id = oi_id i, ed_fromQty = oi_qty i, ed_toQty = new_qty ls i\<rparr> i)"
proof -
  note by_id = live_by_id_item[OF items]
  have id_of: "ed_id e = el_itemId l" if "line_edit_of o' l = Some e" for l e
    using that by (auto simp: line_edit_of_def split: option.splits if_splits)
  have none: "findFirst (\<lambda>e. edit_matches e i) (List.map_filter (line_edit_of o') ks) = None"
    if "oi_id i \<notin> el_itemId ` set ks" for ks
    using that id_of by (force simp: findFirst_None_iff map_filter_def edit_matches_def)
  have "findFirst (\<lambda>e. edit_matches e i) (List.map_filter (line_edit_of o') ls) =
    (if new_qty ls i = oi_qty i then None
     else Some \<lparr>ed_id = oi_id i, ed_fromQty = oi_qty i, ed_toQty = new_qty ls i\<rparr>)"
    using ls
  proof (induction ls)
    case Nil
    then show ?case by (simp add: new_qty_def map_filter_simps)
  next
    case (Cons l ls)
    show ?case
    proof (cases "el_itemId l = oi_id i")
      case True
      then have "oi_id i \<notin> el_itemId ` set ls" using Cons.prems by (metis distinct.simps(2) list.set_map list.simps(9))
      note rest = none[OF this]
      have "line_edit_of o' l = (if el_qty l = oi_qty i then None
          else Some \<lparr>ed_id = oi_id i, ed_fromQty = oi_qty i, ed_toQty = el_qty l\<rparr>)"
        using True by_id by (simp add: line_edit_of_def)
      then show ?thesis
        using True rest items(3)
        by (cases "el_qty l = oi_qty i") (simp_all add: new_qty_def map_filter_simps edit_matches_def)
    next
      case False
      then have "\<not> edit_matches e i" if "line_edit_of o' l = Some e" for e
        using id_of[OF that] by (simp add: edit_matches_def)
      moreover have "new_qty (l # ls) i = new_qty ls i" using False by (simp add: new_qty_def)
      ultimately show ?thesis
        using Cons by (cases "line_edit_of o' l") (simp_all add: map_filter_simps)
    qed
  qed
  then show ?thesis by (simp add: edited_item_def es)
qed

lemma worth_after_edit:
  assumes items: "distinct (map oi_id (ord_items o'))" "\<forall>i \<in> set (ord_items o'). 0 \<le> oi_qty i"
    and ls: "distinct (map el_itemId ls)" "list_all (\<lambda>l. 0 \<le> el_qty l) ls"
    and es: "es = List.map_filter (line_edit_of o') ls"
  shows "order_worth (o'\<lparr>ord_items := map (edited_item t es) (ord_items o')\<rparr>) =
    sum_list (map (\<lambda>i. oi_unitPriceKurus i * new_qty ls i) (remaining_items ls o'))"
proof -
  have "sum_list (map line_total (filter (\<lambda>i. oi_voidedAt i = None) (map (edited_item t es) is))) =
      sum_list (map (\<lambda>i. oi_unitPriceKurus i * new_qty ls i)
        (filter (\<lambda>i. new_qty ls i > 0) (filter (\<lambda>i. oi_voidedAt i = None) is)))"
    if "set is \<subseteq> set (ord_items o')" for "is"
    using that
  proof (induction "is")
    case (Cons i "is")
    have nq: "0 \<le> new_qty ls i"
      using items(2) ls(2) Cons.prems by (auto simp: new_qty_def list_all_iff split: option.split dest: findFirst_SomeD)
    show ?case
    proof (cases "oi_voidedAt i = None")
      case True
      have e: "edited_item t es i = (if new_qty ls i = oi_qty i then i
          else set_line t \<lparr>ed_id = oi_id i, ed_fromQty = oi_qty i, ed_toQty = new_qty ls i\<rparr> i)"
        using edited_of_lines[OF items(1) _ True ls(1) es, of t] Cons.prems by simp
      then show ?thesis
        using True Cons nq by (cases "new_qty ls i = 0") (auto simp: set_line_def line_total_def)
    next
      case False
      then have "edited_item t es i = i"
        by (auto simp: edited_item_def edit_matches_def split: option.split dest!: findFirst_SomeD)
      then show ?thesis using False Cons by auto
    qed
  qed simp
  then show ?thesis by (simp add: order_worth_def live_items_def remaining_items_def)
qed

lemma ids_of_edits:
  "es = List.map_filter (line_edit_of o') ls \<Longrightarrow>
   ed_id ` set es \<subseteq> oi_id ` set (live_items o') \<and> (distinct (map el_itemId ls) \<longrightarrow> distinct (map ed_id es))"
proof -
  assume es: "es = List.map_filter (line_edit_of o') ls"
  have of: "ed_id e = el_itemId l \<and> ed_id e \<in> oi_id ` set (live_items o')" if "line_edit_of o' l = Some e" for l e
    using that live_by_id_SomeD[of o' "el_itemId l"]
    by (force simp: line_edit_of_def split: option.splits if_splits)
  have sub: "ed_id ` set (List.map_filter (line_edit_of o') ks) \<subseteq> el_itemId ` set ks" for ks
    using of by (force simp: map_filter_def)
  have "distinct (map el_itemId ks) \<Longrightarrow> distinct (map ed_id (List.map_filter (line_edit_of o') ks))" for ks
  proof (induction ks)
    case (Cons k ks)
    then show ?case
      using of[of k] sub[of ks]
      by (cases "line_edit_of o' k") (auto simp: map_filter_simps subset_iff image_iff)
  qed (simp add: map_filter_simps)
  then show ?thesis using of by (force simp: es map_filter_def)
qed

lemma edit_read_Done:
  assumes "edit_read orderId ven ls s = Done plan"
  shows "ep_order plan \<in> set (orders s) \<and> ord_id (ep_order plan) = orderId \<and> ord_venueId (ep_order plan) = ven \<and>
    ord_status (ep_order plan) \<in> set EDITABLE_STATUSES \<and>
    ep_edits plan = List.map_filter (line_edit_of (ep_order plan)) ls \<and>
    remaining_items ls (ep_order plan) \<noteq> [] \<and>
    ep_totalKurus plan = sum_list (map (\<lambda>i. oi_unitPriceKurus i * new_qty ls i) (remaining_items ls (ep_order plan)))"
  using assms
  by (auto simp: edit_read_def Let_def split: option.splits if_splits
      dest!: findFirst_SomeD collect_edits_Some)

lemma edit_write_Done:
  assumes "edit_write orderId ven staff plan s = (Done p, s')" "distinct (map ed_id (ep_edits plan))"
  shows "p = plan \<and> orders s' = updateMany (\<lambda>o'. ord_id o' = orderId \<and> ord_status o' \<in> set EDITABLE_STATUSES)
      (\<lambda>o'. o'\<lparr>ord_totalKurus := ep_totalKurus plan\<rparr>)
      (map_items (edited_item (now s) (ep_edits plan)) (orders s)) \<and>
    orderEdits s' = orderEdits s @ [\<lparr>oe_orderId = orderId, oe_staffId = fst staff,
      oe_staffName = snd staff, oe_changes = ep_changes plan, oe_afterPrint = ep_afterPrint plan,
      oe_createdAt = now s\<rparr>]"
proof -
  obtain os where os: "apply_edits (now s) (ep_edits plan) (orders s) = Some os"
    using assms(1) by (auto simp: edit_write_def split: if_splits option.splits)
  have "os = map_items (edited_item (now s) (ep_edits plan)) (orders s)"
    by (rule apply_edits_Some[OF assms(2) os])
  then show ?thesis
    using assms(1) by (auto simp: edit_write_def os split: if_splits)
qed

definition all_item_ids :: "order list \<Rightarrow> id list" where
  "all_item_ids os = concat (map (\<lambda>o'. map oi_id (ord_items o')) os)"

lemma items_of_other_order:
  assumes "distinct (all_item_ids os)" "o1 \<in> set os" "o2 \<in> set os" "o1 \<noteq> o2"
    "i \<in> set (ord_items o1)" "j \<in> set (ord_items o2)"
  shows "oi_id i \<noteq> oi_id j"
  using assms
proof (induction os)
  case (Cons o' os)
  have "oi_id i \<in> set (all_item_ids os)" if "o1 \<in> set os" using that Cons.prems(5) by (auto simp: all_item_ids_def)
  moreover have "oi_id j \<in> set (all_item_ids os)" if "o2 \<in> set os" using that Cons.prems(6) by (auto simp: all_item_ids_def)
  ultimately show ?case using Cons by (auto simp: all_item_ids_def)
qed simp

lemma distinct_items_of_order:
  "distinct (all_item_ids os) \<Longrightarrow> o' \<in> set os \<Longrightarrow> distinct (map oi_id (ord_items o'))"
  by (induction os) (auto simp: all_item_ids_def)

text \<open>
  C10: a correction leaves the ticket right. When staff reduce or remove lines (each line named
  once), the order keeps at least one line, every order's stored total is again
  the worth of its lines, the total reported to the desk is that of the corrected order, and the
  correction is recorded with who made it.
\<close>

theorem edit_keeps_totals:
  assumes run: "editOrder orderId ven staff ls s = (Done plan, s')"
    and ls: "distinct (map el_itemId ls)" "valid_edit ls"
    and rows: "totals_current (orders s)" "distinct (map ord_id (orders s))" "distinct (all_item_ids (orders s))"
      "\<forall>o' \<in> set (orders s). \<forall>i \<in> set (ord_items o'). 0 \<le> oi_qty i"
  shows "totals_current (orders s') \<and>
    (\<exists>o' \<in> set (orders s'). ord_id o' = orderId \<and> ord_totalKurus o' = ep_totalKurus plan \<and> live_items o' \<noteq> []) \<and>
    oe_staffId (last (orderEdits s')) = fst staff \<and> oe_changes (last (orderEdits s')) = ep_changes plan"
proof -
  have read: "edit_read orderId ven ls s = Done plan" and wr: "edit_write orderId ven staff plan s = (Done plan, s')"
    using run by (auto simp: editOrder_def edit_write_def split: outcome.splits if_splits option.splits)
  note r = edit_read_Done[OF read]
  define o1 where "o1 = ep_order plan"
  define es where "es = ep_edits plan"
  have o1: "o1 \<in> set (orders s)" "ord_id o1 = orderId" "ord_status o1 \<in> set EDITABLE_STATUSES"
    "es = List.map_filter (line_edit_of o1) ls" "remaining_items ls o1 \<noteq> []"
    using r by (simp_all add: o1_def es_def)
  note ids = ids_of_edits[OF o1(4)]
  have dist: "distinct (map ed_id es)" using ids ls(1) by blast
  let ?f = "edited_item (now s) es"
  let ?upd = "\<lambda>o'. o'\<lparr>ord_items := map ?f (ord_items o')\<rparr>"
  have orders': "orders s' = updateMany (\<lambda>o'. ord_id o' = orderId \<and> ord_status o' \<in> set EDITABLE_STATUSES)
      (\<lambda>o'. o'\<lparr>ord_totalKurus := ep_totalKurus plan\<rparr>) (map_items ?f (orders s))"
    and edits': "orderEdits s' = orderEdits s @ [\<lparr>oe_orderId = orderId, oe_staffId = fst staff,
      oe_staffName = snd staff, oe_changes = ep_changes plan, oe_afterPrint = ep_afterPrint plan, oe_createdAt = now s\<rparr>]"
    using edit_write_Done[OF wr] dist by (simp_all add: es_def)
  have nonneg: "list_all (\<lambda>l. 0 \<le> el_qty l) ls" using ls(2) by (auto simp: valid_edit_def list_all_iff)
  have worth: "order_worth (?upd o1) = ep_totalKurus plan"
    using worth_after_edit[OF distinct_items_of_order[OF rows(3) o1(1)] _ ls(1) nonneg o1(4)] rows(4) o1(1) r
    by (simp add: o1_def)
  have other: "?upd o2 = o2" if "o2 \<in> set (orders s)" "o2 \<noteq> o1" for o2
  proof -
    have "?f i = i" if "i \<in> set (ord_items o2)" for i
    proof (rule edited_item_other)
      show "oi_id i \<notin> ed_id ` set es"
        using ids items_of_other_order[OF rows(3) \<open>o2 \<in> set (orders s)\<close> o1(1) \<open>o2 \<noteq> o1\<close> that]
        by (auto simp: live_items_def)
    qed
    then have "map ?f (ord_items o2) = ord_items o2" by (simp add: map_idI)
    then show ?thesis by simp
  qed
  have unique: "o2 = o1" if "o2 \<in> set (orders s)" "ord_id o2 = orderId" for o2
    using that o1(1,2) rows(2) by (auto simp: distinct_map inj_on_def)
  let ?tot = "\<lambda>o'. o'\<lparr>ord_totalKurus := ep_totalKurus plan\<rparr>"
  let ?P = "\<lambda>o'. ord_id o' = orderId \<and> ord_status o' \<in> set EDITABLE_STATUSES"
  have set': "set (orders s') = (\<lambda>o'. if ?P (?upd o') then ?tot (?upd o') else ?upd o') ` set (orders s)"
    unfolding orders' set_updateMany map_items_def set_map image_image by (rule refl)
  have P1: "?P (?upd o1)" using o1(2,3) by simp
  have sub: "\<exists>o2 \<in> set (orders s). o' = (if o2 = o1 then ?tot (?upd o1) else o2)" if "o' \<in> set (orders s')" for o'
  proof -
    from that obtain o2 where o2: "o2 \<in> set (orders s)" "o' = (if ?P (?upd o2) then ?tot (?upd o2) else ?upd o2)"
      unfolding set' by blast
    show ?thesis
    proof (cases "o2 = o1")
      case True
      then show ?thesis using o2 P1 by (intro bexI[OF _ o1(1)]) simp
    next
      case False
      then have "\<not> ?P (?upd o2)" using unique[OF o2(1)] by auto
      then show ?thesis using o2 other[OF o2(1) False] False by (intro bexI[OF _ o2(1)]) auto
    qed
  qed
  have new: "?tot (?upd o1) \<in> set (orders s')"
    unfolding set' by (rule image_eqI[OF _ o1(1)]) (simp only: P1 if_True simp_thms)
  have worth_total: "order_worth (x\<lparr>ord_totalKurus := k\<rparr>) = order_worth x" for x k
    by (simp add: order_worth_def live_items_def)
  have cur: "totals_current (orders s')"
    unfolding totals_current_def
  proof
    fix o' assume "o' \<in> set (orders s')"
    from sub[OF this] show "ord_totalKurus o' = order_worth o'"
      using rows(1) worth by (auto simp: totals_current_def worth_total split: if_splits)
  qed
  obtain i where i: "i \<in> set (live_items o1)" "0 < new_qty ls i"
    using o1(5) by (auto simp: remaining_items_def filter_empty_conv)
  have "oi_voidedAt (?f i) = None"
    using edited_of_lines[OF distinct_items_of_order[OF rows(3) o1(1)] _ _ ls(1) o1(4), of i "now s"] i
    by (auto simp: live_items_def set_line_def)
  then have "live_items (?upd o1) \<noteq> []"
    using i(1) by (auto simp: live_items_def filter_empty_conv)
  then have "\<exists>o' \<in> set (orders s'). ord_id o' = orderId \<and> ord_totalKurus o' = ep_totalKurus plan \<and> live_items o' \<noteq> []"
    using o1(2) by (intro bexI[OF _ new]) (simp add: live_items_def)
  then show ?thesis using cur edits' by simp
qed

definition one_kofte_less :: "edit_line list" where
  "one_kofte_less = [\<lparr>el_itemId = ''l1'', el_qty = 1\<rparr>]"

definition no_second_line :: "edit_line list" where
  "no_second_line = [\<lparr>el_itemId = ''l2'', el_qty = 0\<rparr>]"

definition plan_of :: "edit_line list \<Rightarrow> edit_plan" where
  "plan_of ls = (case edit_read ''o1'' ''v1'' ls sample of Done p \<Rightarrow> p | _ \<Rightarrow> undefined)"

lemmas edit_eval = edit_read_def EDITABLE_STATUSES_def IN_FLIGHT_STATUSES_def live_by_id_def live_items_def
  remaining_items_def new_qty_def Let_def one_kofte_less_def no_second_line_def sample_defs

lemma sample_edit_reads:
  "edit_read ''o1'' ''v1'' one_kofte_less sample = Done \<lparr>ep_order = hd (orders sample),
     ep_edits = [\<lparr>ed_id = ''l1'', ed_fromQty = 2, ed_toQty = 1\<rparr>],
     ep_changes = [\<lparr>lc_name = lit ''Kofte'', lc_fromQty = 2, lc_toQty = 1\<rparr>],
     ep_totalKurus = 1500, ep_afterPrint = False\<rparr>"
  "edit_read ''o1'' ''v1'' no_second_line sample = Done \<lparr>ep_order = hd (orders sample),
     ep_edits = [\<lparr>ed_id = ''l2'', ed_fromQty = 1, ed_toQty = 0\<rparr>],
     ep_changes = [\<lparr>lc_name = lit ''Kofte'', lc_fromQty = 1, lc_toQty = 0\<rparr>],
     ep_totalKurus = 2000, ep_afterPrint = False\<rparr>"
  by (simp_all add: edit_eval)

lemma sample_edit_done:
  "\<exists>s'. editOrder ''o1'' ''v1'' (''d1'', []) one_kofte_less sample =
     (Done \<lparr>ep_order = hd (orders sample),
        ep_edits = [\<lparr>ed_id = ''l1'', ed_fromQty = 2, ed_toQty = 1\<rparr>],
        ep_changes = [\<lparr>lc_name = lit ''Kofte'', lc_fromQty = 2, lc_toQty = 1\<rparr>],
        ep_totalKurus = 1500, ep_afterPrint = False\<rparr>, s')"
  by (simp add: editOrder_def sample_edit_reads)
    (simp add: edit_write_def int4_def edit_matches_def map_items_def set_line_def countWhere_def
      EDITABLE_STATUSES_def IN_FLIGHT_STATUSES_def sample_defs)

theorem edit_keeps_totals_witness:
  "totals_current (orders (snd (editOrder ''o1'' ''v1'' (''d1'', []) one_kofte_less sample)))"
proof -
  from sample_edit_done obtain s' where r: "editOrder ''o1'' ''v1'' (''d1'', []) one_kofte_less sample =
     (Done \<lparr>ep_order = hd (orders sample),
        ep_edits = [\<lparr>ed_id = ''l1'', ed_fromQty = 2, ed_toQty = 1\<rparr>],
        ep_changes = [\<lparr>lc_name = lit ''Kofte'', lc_fromQty = 2, lc_toQty = 1\<rparr>],
        ep_totalKurus = 1500, ep_afterPrint = False\<rparr>, s')" by blast
  have "distinct (map el_itemId one_kofte_less)" "valid_edit one_kofte_less" "totals_current (orders sample)"
    "distinct (map ord_id (orders sample))" "distinct (all_item_ids (orders sample))"
    "\<forall>o' \<in> set (orders sample). \<forall>i \<in> set (ord_items o'). 0 \<le> oi_qty i"
    by (simp_all add: one_kofte_less_def valid_edit_def totals_current_def order_worth_def live_items_def
        line_total_def all_item_ids_def sample_defs)
  from edit_keeps_totals[OF r this] show ?thesis by (simp add: r)
qed

subsection \<open>Two staff, one ticket\<close>

lemma sample_concurrent_writes:
  assumes "edit_read ''o1'' ''v1'' one_kofte_less sample = Done p1"
    and "edit_read ''o1'' ''v1'' no_second_line sample = Done p2"
  shows "\<exists>s1 s2. edit_write ''o1'' ''v1'' staff1 p1 sample = (Done p1, s1) \<and>
    edit_write ''o1'' ''v1'' staff2 p2 s1 = (Done p2, s2) \<and>
    (\<exists>o'. findFirst (\<lambda>o'. ord_id o' = ''o1'') (orders s2) = Some o' \<and>
       ord_totalKurus o' = 2000 \<and> order_worth o' = 1000)"
proof -
  have p: "ep_totalKurus p1 = 1500" "ep_edits p1 = [\<lparr>ed_id = ''l1'', ed_fromQty = 2, ed_toQty = 1\<rparr>]"
    "ep_totalKurus p2 = 2000" "ep_edits p2 = [\<lparr>ed_id = ''l2'', ed_fromQty = 1, ed_toQty = 0\<rparr>]"
    using assms by (auto simp: sample_edit_reads)
  show ?thesis
    by (simp add: edit_write_def p int4_def edit_matches_def map_items_def set_line_def countWhere_def
        EDITABLE_STATUSES_def IN_FLIGHT_STATUSES_def sample_defs order_worth_def live_items_def line_total_def)
qed


end
