(* ===== verification/Desk.thy ===== *)
theory Desk
  imports Orders Outbox OrderEdit
begin

section \<open>The desk and the customer's bill\<close>

text \<open>
  The routes under \<open>src/app/api/desk\<close> (the board, the status of an order, corrections, one
  table's bill and its settlement), the customer's bill routes \<open>src/app/api/bill/route.ts\<close>, and
  the two background calls of \<open>src/lib/pos/outbox.ts\<close> they make. Setting a status is split
  between the read that checks the transition and the write, where a customer's withdrawal can
  run. A field of a JSON body is \<open>None\<close> when it is absent or not one of the values the code
  compares it with.
\<close>

subsection \<open>The board\<close>

record board_order =
  bo_id :: id
  bo_number :: int
  bo_status :: order_status
  bo_rejectReason :: "jstr option"
  bo_totalKurus :: int
  bo_createdAt :: time
  bo_tableName :: jstr
  bo_tableId :: id
  bo_newSession :: bool
  bo_posStatus :: "delivery_status option"
  bo_items :: "(id \<times> jstr \<times> int \<times> jstr \<times> jstr list) list"
  bo_edits :: "(jstr \<times> bool \<times> line_change list) list"

definition on_board :: "bool \<Rightarrow> time \<Rightarrow> id \<Rightarrow> order \<Rightarrow> bool" where
  "on_board listAll t venueId o' \<longleftrightarrow> ord_venueId o' = venueId \<and>
     (if listAll then ord_createdAt o' > t - 24 * 60 * 60 * 1000
      else ord_status o' \<in> {Received, Accepted, Preparing, Ready})"

text \<open>The map from a session to its first order of the list.\<close>

fun session_first :: "order list \<Rightarrow> (id \<times> id) list \<Rightarrow> (id \<times> id) list" where
  "session_first [] m = m"
| "session_first (o' # os) m = session_first os
     (if map_of m (ord_sessionId o') = None then m @ [(ord_sessionId o', ord_id o')] else m)"

definition latest_delivery :: "id \<Rightarrow> server \<Rightarrow> delivery_status option" where
  "latest_delivery orderId s =
     (case orderByDesc pd_createdAt (filter (\<lambda>d. pd_orderId d = orderId) (posDeliveries s)) of
        [] \<Rightarrow> None | d # _ \<Rightarrow> Some (pd_status d))"

definition table_name :: "id \<Rightarrow> server \<Rightarrow> jstr" where
  "table_name tableId s = (case findFirst (\<lambda>t. tab_id t = tableId) (tables s) of
     None \<Rightarrow> [] | Some t \<Rightarrow> tab_name t)"

definition board_order_of :: "server \<Rightarrow> (id \<times> id) list \<Rightarrow> order \<Rightarrow> board_order" where
  "board_order_of s first o' = \<lparr>bo_id = ord_id o', bo_number = ord_number o', bo_status = ord_status o',
     bo_rejectReason = ord_rejectReason o', bo_totalKurus = ord_totalKurus o',
     bo_createdAt = ord_createdAt o', bo_tableName = table_name (ord_tableId o') s,
     bo_tableId = ord_tableId o',
     bo_newSession = (map_of first (ord_sessionId o') = Some (ord_id o')),
     bo_posStatus = latest_delivery (ord_id o') s,
     bo_items = map (\<lambda>i. (oi_id i, oi_nameSnapshot i, oi_qty i, oi_note i, map cm_name (oi_modifiers i)))
       (live_items o'),
     bo_edits = map (\<lambda>(name, changes, after, _). (name, after, changes)) (edits_of_order (ord_id o') s)\<rparr>"

definition desk_board :: "bool \<Rightarrow> id \<Rightarrow> server \<Rightarrow> board_order list" where
  "desk_board listAll venueId s =
     (let os = orderBy ord_createdAt (filter (on_board listAll (now s) venueId) (orders s))
      in map (board_order_of s (session_first os [])) os)"

definition GET_desk_orders ::
  "platform \<Rightarrow> bool \<Rightarrow> string option \<Rightarrow> server \<Rightarrow> board_order list response \<times> server" where
  "GET_desk_orders pf listAll cookie s =
     (case requireStaff pf Desk cookie s of
        (None, s1) \<Rightarrow> (Fail 401 ''unauthorized'' [], s1)
      | (Some staff, s1) \<Rightarrow> (Ok (desk_board listAll (sc_venueId staff) s1), s1))"

subsection \<open>Setting a status\<close>

text \<open>A failure in the background is logged and swallowed.\<close>

definition enqueuePosDeliveryInBackground :: "locale_fns \<Rightarrow> id \<Rightarrow> id \<Rightarrow> server \<Rightarrow> server" where
  "enqueuePosDeliveryInBackground lf newId orderId s = enqueuePosDelivery lf newId orderId None s"

definition enqueueAmendmentInBackground ::
  "locale_fns \<Rightarrow> id \<Rightarrow> id \<Rightarrow> amendment \<Rightarrow> server \<Rightarrow> server" where
  "enqueueAmendmentInBackground lf newId orderId am s = enqueuePosDelivery lf newId orderId (Some am) s"

record status_body =
  pb_status :: "order_status option"
  pb_rejectReason :: "jstr option"

definition reason_given :: "status_body \<Rightarrow> jstr option" where
  "reason_given b = (case pb_rejectReason b of None \<Rightarrow> None | Some r \<Rightarrow> if r = [] then None else Some r)"

definition desk_read :: "id \<Rightarrow> id \<Rightarrow> status_body \<Rightarrow> server \<Rightarrow> (unit response, order_status) outcome" where
  "desk_read venueId oid b s =
     (case findFirst (\<lambda>o'. ord_id o' = oid \<and> ord_venueId o' = venueId) (orders s) of
        None \<Rightarrow> Refused (Fail 404 ''not_found'' [])
      | Some o' \<Rightarrow>
          (case pb_status b of
             None \<Rightarrow> Refused (Fail 409 ''invalid_transition'' [(''from'', FStr (status_label (ord_status o')))])
           | Some st \<Rightarrow>
               if st \<notin> set (transitions (ord_status o'))
               then Refused (Fail 409 ''invalid_transition'' [(''from'', FStr (status_label (ord_status o')))])
               else if st = Rejected \<and> reason_given b = None then Refused (Fail 400 ''reason_required'' [])
               else Done st))"

definition desk_status :: "order_status \<Rightarrow> status_body \<Rightarrow> order \<Rightarrow> order" where
  "desk_status st b o' = o'\<lparr>ord_status := st,
     ord_rejectReason := (if st = Rejected then map_option (take 200) (reason_given b) else None)\<rparr>"

definition desk_write ::
  "locale_fns \<Rightarrow> id \<Rightarrow> id \<Rightarrow> id \<Rightarrow> order_status \<Rightarrow> status_body \<Rightarrow> server \<Rightarrow> order_status response \<times> server" where
  "desk_write lf newId venueId oid st b s =
     (let s1 = s\<lparr>orders := updateMany (\<lambda>o'. ord_id o' = oid) (desk_status st b) (orders s)\<rparr>
      in case findFirst (\<lambda>o'. ord_id o' = oid) (orders s1) of
           None \<Rightarrow> (Crash, s)
         | Some updated \<Rightarrow>
             (Ok (ord_status updated),
              publish (OrderUpdated venueId oid (ord_sessionId updated) (ord_tableId updated))
                (if st = Accepted then enqueuePosDeliveryInBackground lf newId oid s1 else s1)))"

definition PATCH_desk_order ::
  "platform \<Rightarrow> locale_fns \<Rightarrow> id \<Rightarrow> id \<Rightarrow> status_body \<Rightarrow> string option \<Rightarrow> server
   \<Rightarrow> order_status response \<times> server" where
  "PATCH_desk_order pf lf newId oid b cookie s =
     (case requireStaff pf Desk cookie s of
        (None, s1) \<Rightarrow> (Fail 401 ''unauthorized'' [], s1)
      | (Some staff, s1) \<Rightarrow>
          (case desk_read (sc_venueId staff) oid b s1 of
             Refused (Fail code err fs) \<Rightarrow> (Fail code err fs, s1)
           | Refused _ \<Rightarrow> (Crash, s1)
           | Threw \<Rightarrow> (Crash, s1)
           | Done st \<Rightarrow> desk_write lf newId (sc_venueId staff) oid st b s1))"

subsection \<open>Corrections\<close>

record edit_ok =
  eo_totalKurus :: int
  eo_changes :: "line_change list"
  eo_amendmentPrinted :: bool

fun edit_error_name :: "edit_error \<Rightarrow> string" where
  "edit_error_name Edit_not_found = ''not_found''"
| "edit_error_name (Not_editable _) = ''not_editable''"
| "edit_error_name Unknown_line = ''unknown_line''"
| "edit_error_name No_change = ''no_change''"
| "edit_error_name Empties_order = ''empties_order''"
| "edit_error_name Edit_conflict = ''conflict''"

fun edit_error_fields :: "edit_error \<Rightarrow> (string \<times> field) list" where
  "edit_error_fields (Not_editable st) = [(''status'', FStr (status_label st))]"
| "edit_error_fields _ = []"

definition PATCH_desk_items ::
  "platform \<Rightarrow> locale_fns \<Rightarrow> id \<Rightarrow> id \<Rightarrow> edit_line list option \<Rightarrow> string option \<Rightarrow> server
   \<Rightarrow> edit_ok response \<times> server" where
  "PATCH_desk_items pf lf newId oid body cookie s =
     (case requireStaff pf Desk cookie s of
        (None, s1) \<Rightarrow> (Fail 401 ''unauthorized'' [], s1)
      | (Some staff, s1) \<Rightarrow>
          (case body of
             None \<Rightarrow> (Fail 400 ''invalid'' [], s1)
           | Some ls \<Rightarrow>
               if \<not> valid_edit ls then (Fail 400 ''invalid'' [], s1)
               else (case editOrder oid (sc_venueId staff) (sc_sub staff, sc_name staff) ls s1 of
                   (Refused e, s2) \<Rightarrow> (Fail (if e = Edit_not_found then 404 else 409)
                      (edit_error_name e) (edit_error_fields e), s2)
                 | (Threw, s2) \<Rightarrow> (Crash, s2)
                 | (Done plan, s2) \<Rightarrow>
                     (Ok \<lparr>eo_totalKurus = ep_totalKurus plan, eo_changes = ep_changes plan,
                        eo_amendmentPrinted = ep_afterPrint plan\<rparr>,
                      if ep_afterPrint plan
                      then enqueueAmendmentInBackground lf newId oid
                        \<lparr>am_changes = map (\<lambda>c. (lc_name c, lc_fromQty c, lc_toQty c)) (ep_changes plan),
                          am_byStaff = sc_name staff\<rparr> s2
                      else s2))))"

subsection \<open>Bills at the desk\<close>

definition GET_desk_bill ::
  "platform \<Rightarrow> id \<Rightarrow> string option \<Rightarrow> server \<Rightarrow> bill response \<times> server" where
  "GET_desk_bill pf vid cookie s =
     (case requireStaff pf Desk cookie s of
        (None, s1) \<Rightarrow> (Fail 401 ''unauthorized'' [], s1)
      | (Some staff, s1) \<Rightarrow>
          (case findFirst (\<lambda>v. tv_id v = vid \<and> tv_venueId v = sc_venueId staff) (visits s1) of
             None \<Rightarrow> (Fail 404 ''not_found'' [], s1)
           | Some _ \<Rightarrow>
               (case buildBill vid s1 of
                  None \<Rightarrow> (Fail 404 ''not_found'' [], s1)
                | Some b \<Rightarrow> (Ok b, s1))))"

definition PATCH_desk_bill ::
  "platform \<Rightarrow> id \<Rightarrow> string option \<Rightarrow> server \<Rightarrow> unit response \<times> server" where
  "PATCH_desk_bill pf vid cookie s =
     (case requireStaff pf Desk cookie s of
        (None, s1) \<Rightarrow> (Fail 401 ''unauthorized'' [], s1)
      | (Some staff, s1) \<Rightarrow>
          (case clearBillRequest vid (sc_venueId staff) s1 of
             (False, s2) \<Rightarrow> (Fail 409 ''not_requested'' [], s2)
           | (True, s2) \<Rightarrow> (Ok (), s2)))"

record settle_body =
  sb_paymentMethod :: payment_method
  sb_paidAmountKurus :: "int option"
  sb_force :: "bool option"

definition valid_settle :: "settle_body \<Rightarrow> bool" where
  "valid_settle b \<longleftrightarrow> (case sb_paidAmountKurus b of None \<Rightarrow> True | Some p \<Rightarrow> 0 \<le> p)"

definition input_of_body :: "id \<Rightarrow> settle_body \<Rightarrow> settle_input" where
  "input_of_body staffId b = \<lparr>si_paymentMethod = sb_paymentMethod b,
     si_paidAmountKurus = sb_paidAmountKurus b, si_staffId = staffId,
     si_force = (sb_force b = Some True)\<rparr>"

fun settle_error_name :: "settle_error \<Rightarrow> string" where
  "settle_error_name Settle_not_found = ''not_found''"
| "settle_error_name Already_closed = ''already_closed''"
| "settle_error_name Orders_in_flight = ''orders_in_flight''"

definition POST_settle ::
  "platform \<Rightarrow> id \<Rightarrow> settle_body option \<Rightarrow> string option \<Rightarrow> server \<Rightarrow> int response \<times> server" where
  "POST_settle pf vid body cookie s =
     (case requireStaff pf Desk cookie s of
        (None, s1) \<Rightarrow> (Fail 401 ''unauthorized'' [], s1)
      | (Some staff, s1) \<Rightarrow>
          (case body of
             None \<Rightarrow> (Fail 400 ''invalid'' [], s1)
           | Some b \<Rightarrow>
               if \<not> valid_settle b then (Fail 400 ''invalid'' [], s1)
               else (case settleVisit vid (sc_venueId staff) (input_of_body (sc_sub staff) b) s1 of
                   (Refused e, s2) \<Rightarrow> (Fail (if e = Settle_not_found then 404 else 409)
                      (settle_error_name e) [], s2)
                 | (Threw, s2) \<Rightarrow> (Crash, s2)
                 | (Done k, s2) \<Rightarrow> (Ok k, s2))))"

subsection \<open>The customer's bill\<close>

record customer_bill =
  cb_status :: visit_status
  cb_billRequested :: bool
  cb_totalKurus :: int
  cb_lines :: "bill_line list"
  cb_yourTotalKurus :: int
  cb_phoneCount :: nat

text \<open>The visit of a session, an empty identifier counting as none.\<close>

definition visit_of :: "active_session \<Rightarrow> id option" where
  "visit_of a = (case as_visitId a of None \<Rightarrow> None | Some v \<Rightarrow> if v = [] then None else Some v)"

definition GET_bill :: "request \<Rightarrow> server \<Rightarrow> customer_bill response \<times> server" where
  "GET_bill req s =
     (case getActiveSession (rq_tableSession req) None s of
        (None, s1) \<Rightarrow> (Fail 401 ''no_session'' [], s1)
      | (Some a, s1) \<Rightarrow>
          (case visit_of a of
             None \<Rightarrow> (Fail 409 ''no_visit'' [], s1)
           | Some vid \<Rightarrow>
               (case buildBill vid s1 of
                  None \<Rightarrow> (Fail 409 ''no_visit'' [], s1)
                | Some b \<Rightarrow> (Ok \<lparr>cb_status = b_status b, cb_billRequested = (b_billRequestedAt b \<noteq> None),
                    cb_totalKurus = b_totalKurus b, cb_lines = b_lines b,
                    cb_yourTotalKurus = your_total (as_id a) b,
                    cb_phoneCount = length (b_phones b)\<rparr>, s1))))"

definition POST_bill :: "request \<Rightarrow> server \<Rightarrow> unit response \<times> server" where
  "POST_bill req s =
     (case getActiveSession (rq_tableSession req) None s of
        (None, s1) \<Rightarrow> (Fail 401 ''no_session'' [], s1)
      | (Some a, s1) \<Rightarrow>
          (case visit_of a of
             None \<Rightarrow> (Fail 409 ''no_visit'' [], s1)
           | Some vid \<Rightarrow>
               (case requestBill vid (as_venueId a) s1 of
                  (False, s2) \<Rightarrow> (Fail 409 ''visit_closed'' [], s2)
                | (True, s2) \<Rightarrow> (Ok (), logAttempt req ''bill_requested'' (session_extra a) s2))))"

subsection \<open>What a background enqueue can change\<close>

lemma attemptDelivery_state:
  "\<exists>ds. attemptDelivery i s = s\<lparr>posDeliveries := ds\<rparr> \<and>
    map pd_orderId ds = map pd_orderId (posDeliveries s)"
proof -
  have upd: "\<exists>ds. set_delivery i f s = s\<lparr>posDeliveries := ds\<rparr> \<and>
      map pd_orderId ds = map pd_orderId (posDeliveries s)"
    if "\<And>p. pd_orderId (f p) = pd_orderId p" for f
    using that by (intro exI[of _ "posDeliveries (set_delivery i f s)"])
      (simp add: set_delivery_def map_updateMany)
  have same: "\<exists>ds. s = s\<lparr>posDeliveries := ds\<rparr> \<and> map pd_orderId ds = map pd_orderId (posDeliveries s)"
    by (rule exI[of _ "posDeliveries s"]) simp
  show ?thesis
    unfolding attemptDelivery_def Let_def
    by (auto split: option.split deliver_result.split intro!: upd same)
qed

definition can_enqueue :: "id \<Rightarrow> server \<Rightarrow> bool" where
  "can_enqueue oid s \<longleftrightarrow> (case findFirst (\<lambda>o'. ord_id o' = oid) (orders s) of None \<Rightarrow> False
     | Some o' \<Rightarrow> list_ex (\<lambda>v. ven_id v = ord_venueId o') (venues s) \<and>
         list_ex (\<lambda>t. tab_id t = ord_tableId o') (tables s))"

lemma list_ex_findFirst: "list_ex P xs \<longleftrightarrow> findFirst P xs \<noteq> None"
  by (induction xs) auto

lemma enqueue_state:
  "\<exists>ds. enqueuePosDelivery lf newId oid am s = s\<lparr>posDeliveries := ds\<rparr> \<and>
    map pd_orderId ds = map pd_orderId (posDeliveries s) @ (if can_enqueue oid s then [oid] else [])"
proof (cases "can_enqueue oid s")
  case True
  then obtain o' v t where found: "findFirst (\<lambda>o'. ord_id o' = oid) (orders s) = Some o'"
    "findFirst (\<lambda>v. ven_id v = ord_venueId o') (venues s) = Some v"
    "findFirst (\<lambda>t. tab_id t = ord_tableId o') (tables s) = Some t"
    by (auto simp: can_enqueue_def list_ex_findFirst split: option.splits)
  then have "ord_id o' = oid" using findFirst_SomeD by fast
  then obtain row where row: "enqueuePosDelivery lf newId oid am s =
      attemptDelivery newId (s\<lparr>posDeliveries := posDeliveries s @ [row]\<rparr>)" "pd_orderId row = oid"
    by (auto simp: enqueuePosDelivery_def found Let_def)
  obtain ds where "attemptDelivery newId (s\<lparr>posDeliveries := posDeliveries s @ [row]\<rparr>) =
      s\<lparr>posDeliveries := ds\<rparr>" "map pd_orderId ds = map pd_orderId (posDeliveries s @ [row])"
    using attemptDelivery_state[of newId "s\<lparr>posDeliveries := posDeliveries s @ [row]\<rparr>"] by auto
  then show ?thesis using True row by auto
next
  case False
  then have "enqueuePosDelivery lf newId oid am s = s"
    by (auto simp: can_enqueue_def list_ex_findFirst enqueuePosDelivery_def split: option.splits)
  then show ?thesis using False by (intro exI[of _ "posDeliveries s"]) simp
qed

subsection \<open>Only legal transitions\<close>

lemma desk_read_DoneD:
  "desk_read ven oid b s = Done st \<Longrightarrow>
   \<exists>o'. findFirst (\<lambda>o'. ord_id o' = oid \<and> ord_venueId o' = ven) (orders s) = Some o' \<and>
     pb_status b = Some st \<and> st \<in> set (transitions (ord_status o')) \<and>
     (st = Rejected \<longrightarrow> reason_given b \<noteq> None)"
  by (auto simp: desk_read_def split: option.splits if_splits)

lemma desk_write_Ok:
  assumes "desk_write lf newId ven oid st b s = (Ok st', s')"
  shows "orders s' = updateMany (\<lambda>o'. ord_id o' = oid) (desk_status st b) (orders s)"
    and "st' = st"
    and "map pd_orderId (posDeliveries s') = map pd_orderId (posDeliveries s) @
      (if st = Accepted \<and> can_enqueue oid s then [oid] else [])"
proof -
  let ?s1 = "s\<lparr>orders := updateMany (\<lambda>o'. ord_id o' = oid) (desk_status st b) (orders s)\<rparr>"
  have find: "findFirst (\<lambda>o'. ord_id o' = oid) (updateMany (\<lambda>o'. ord_id o' = oid) (desk_status st b) (orders s)) =
      map_option (\<lambda>o'. if ord_id o' = oid then desk_status st b o' else o')
        (findFirst (\<lambda>o'. ord_id o' = oid) (orders s))"
    by (rule findFirst_updateMany_key) (simp add: desk_status_def)
  obtain u where u: "findFirst (\<lambda>o'. ord_id o' = oid) (orders s) = Some u" "ord_id u = oid"
  proof (cases "findFirst (\<lambda>o'. ord_id o' = oid) (orders s)")
    case None
    then show thesis using assms by (simp add: desk_write_def find)
  next
    case (Some u)
    then show thesis using that findFirst_SomeD[OF Some] by blast
  qed
  have can: "can_enqueue oid ?s1 = can_enqueue oid s"
    by (simp add: can_enqueue_def find u desk_status_def)
  obtain ds where ds: "enqueuePosDelivery lf newId oid None ?s1 = ?s1\<lparr>posDeliveries := ds\<rparr>"
    "map pd_orderId ds = map pd_orderId (posDeliveries s) @ (if can_enqueue oid s then [oid] else [])"
    using enqueue_state[of lf newId oid None ?s1] can by auto
  have "findFirst (\<lambda>o'. ord_id o' = oid) (orders ?s1) = Some (desk_status st b u)"
    by (simp add: find u)
  then have "desk_write lf newId ven oid st b s = (Ok st,
      publish (OrderUpdated ven oid (ord_sessionId u) (ord_tableId u))
        (if st = Accepted then ?s1\<lparr>posDeliveries := ds\<rparr> else ?s1))"
    unfolding desk_write_def Let_def enqueuePosDeliveryInBackground_def ds(1)
    by (simp add: desk_status_def)
  then have "st' = st \<and> s' = publish (OrderUpdated ven oid (ord_sessionId u) (ord_tableId u))
      (if st = Accepted then ?s1\<lparr>posDeliveries := ds\<rparr> else ?s1)"
    using assms by simp
  then show "orders s' = updateMany (\<lambda>o'. ord_id o' = oid) (desk_status st b) (orders s)" "st' = st"
    "map pd_orderId (posDeliveries s') = map pd_orderId (posDeliveries s) @
      (if st = Accepted \<and> can_enqueue oid s then [oid] else [])"
    using ds(2) by auto
qed

lemma PATCH_desk_order_Ok:
  assumes "PATCH_desk_order pf lf newId oid b cookie s = (Ok st, s')"
  obtains staff c where "requireStaff pf Desk cookie s = (Some staff, s\<lparr>accountCache := c\<rparr>)"
    "desk_read (sc_venueId staff) oid b s = Done st"
    "desk_write lf newId (sc_venueId staff) oid st b (s\<lparr>accountCache := c\<rparr>) = (Ok st, s')"
proof (cases rule: requireStaff_cases[of pf Desk cookie s])
  case (refused c)
  then show ?thesis using assms by (simp add: PATCH_desk_order_def)
next
  case (staff staff c)
  then obtain st0 where "desk_read (sc_venueId staff) oid b s = Done st0"
    "desk_write lf newId (sc_venueId staff) oid st0 b (s\<lparr>accountCache := c\<rparr>) = (Ok st, s')"
    using assms by (auto simp: PATCH_desk_order_def desk_read_def split: outcome.splits response.splits option.splits if_splits)
  moreover from this have "st = st0" using desk_write_Ok(2) by blast
  ultimately show ?thesis using that staff by blast
qed


definition toy_locale :: locale_fns where
  "toy_locale = \<lparr>lf_toUpperCase = (\<lambda>x. x), lf_clock = (\<lambda>_. [])\<rparr>"

definition accept_body :: status_body where
  "accept_body = \<lparr>pb_status = Some Accepted, pb_rejectReason = None\<rparr>"

lemma desk_write_fst:
  "list_ex (\<lambda>o'. ord_id o' = oid) (orders s) \<Longrightarrow> fst (desk_write lf newId ven oid st b s) = Ok st"
proof -
  assume "list_ex (\<lambda>o'. ord_id o' = oid) (orders s)"
  then obtain u where u: "findFirst (\<lambda>o'. ord_id o' = oid) (orders s) = Some u" "ord_id u = oid"
    using findFirst_SomeD by (fastforce simp: list_ex_findFirst)
  have "findFirst (\<lambda>o'. ord_id o' = oid) (updateMany (\<lambda>o'. ord_id o' = oid) (desk_status st b) (orders s)) =
      Some (desk_status st b u)"
    by (subst findFirst_updateMany_key) (simp_all add: desk_status_def u)
  then show ?thesis by (simp add: desk_write_def Let_def desk_status_def)
qed


subsection \<open>Accepting while the customer withdraws\<close>

text \<open>
  a withdrawal and an acceptance can both succeed. The desk's write is by id alone, so when a
  customer's withdrawal commits between the desk's check and its write, the customer has been
  told the order is cancelled, and the order is accepted all the same, a step the table of
  transitions does not have.
\<close>

theorem accept_overrides_withdrawal:
  assumes "desk_read ven oid b s = Done Accepted"
    and "cancel_write req a oid s = (Ok (), s1)"
    and "desk_write lf newId ven oid Accepted b s1 = (r, s2)"
  shows "(\<exists>x \<in> set (orders s1). ord_id x = oid \<and> ord_status x = Cancelled) \<and> r = Ok Accepted \<and>
    (\<exists>x \<in> set (orders s2). ord_id x = oid) \<and>
    (\<forall>x \<in> set (orders s2). ord_id x = oid \<longrightarrow> ord_status x = Accepted) \<and>
    \<not> order_step Cancelled Accepted"
proof -
  have s1: "orders s1 = updateMany (cancellable oid) mark_cancelled (orders s)"
    "countWhere (cancellable oid) (orders s) \<noteq> 0"
    using assms(2) by (auto simp: cancel_write_def logAttempt_def split: if_splits)
  then obtain x where x: "x \<in> set (orders s)" "cancellable oid x"
    by (auto simp: countWhere_0_iff)
  then have in1: "mark_cancelled x \<in> set (orders s1)" "ord_id (mark_cancelled x) = oid"
    by (auto simp: s1(1) set_updateMany mark_cancelled_def cancellable_def)
  then have "r = Ok Accepted"
    using desk_write_fst[of oid s1 lf newId ven Accepted b] assms(3) by (auto simp: list_ex_iff)
  moreover from this have s2: "orders s2 = updateMany (\<lambda>o'. ord_id o' = oid) (desk_status Accepted b) (orders s1)"
    using desk_write_Ok(1) assms(3) by blast
  have "map ord_id (orders s2) = map ord_id (orders s1)"
    unfolding s2 by (rule map_updateMany) (simp add: desk_status_def)
  then have "ord_id ` set (orders s2) = ord_id ` set (orders s1)"
    using list.set_map by metis
  then have "oid \<in> ord_id ` set (orders s2)"
    using imageI[OF in1(1), of ord_id] in1(2) by argo
  then have "\<exists>x \<in> set (orders s2). ord_id x = oid" by (auto simp only: image_iff)
  moreover have "\<forall>x \<in> set (orders s2). ord_id x = oid \<longrightarrow> ord_status x = Accepted"
    unfolding s2 set_updateMany ball_simps by (simp add: desk_status_def)
  moreover have "\<not> order_step Cancelled Accepted" by (rule order_step_final) simp
  moreover have "ord_status (mark_cancelled x) = Cancelled" by (simp add: mark_cancelled_def)
  ultimately show ?thesis using in1 by blast
qed

definition withdrawing :: active_session where
  "withdrawing = \<lparr>as_id = ''s1'', as_venueId = ''v1'', as_tableId = ''t1'', as_tableCode = ''T1'',
     as_tableName = lit ''Masa 1'', as_visitId = Some ''w1''\<rparr>"

theorem accept_overrides_withdrawal_witness:
  "\<exists>x \<in> set (orders (snd (desk_write toy_locale ''p2'' ''v1'' ''o1'' Accepted accept_body
     (snd (cancel_write bare_request withdrawing ''o1'' sample))))). ord_id x = ''o1'' \<and> ord_status x = Accepted"
proof -
  let ?c = "cancel_write bare_request withdrawing ''o1'' sample"
  let ?w = "desk_write toy_locale ''p2'' ''v1'' ''o1'' Accepted accept_body (snd ?c)"
  have read: "desk_read ''v1'' ''o1'' accept_body sample = Done Accepted"
    by (simp add: desk_read_def sample_defs accept_body_def)
  have "fst ?c = Ok ()"
    by (simp add: cancel_write_def countWhere_def cancellable_def sample_defs CUSTOMER_CANCELLABLE_def)
  then have "?c = (Ok (), snd ?c)" by (simp add: prod_eq_iff)
  from accept_overrides_withdrawal[OF read this, of toy_locale "''p2''" "fst ?w" "snd ?w"]
  show ?thesis by auto
qed

subsection \<open>What the board shows\<close>

lemma session_first_of:
  "map_of (session_first os m) sid = (case map_of m sid of Some x \<Rightarrow> Some x
     | None \<Rightarrow> map_option ord_id (findFirst (\<lambda>o'. ord_sessionId o' = sid) os))"
  by (induction os m rule: session_first.induct) (auto simp: map_add_def split: option.splits)

text \<open>The first order of every session, one each.\<close>

lemma session_firsts_count:
  assumes "distinct (map ord_id os)"
  defines "first \<equiv> (\<lambda>o'. map_of (session_first os []) (ord_sessionId o') = Some (ord_id o'))"
  shows "length (filter first os) = card (ord_sessionId ` set os)"
proof -
  have first: "first o' \<longleftrightarrow>
      (\<exists>x. findFirst (\<lambda>x. ord_sessionId x = ord_sessionId o') os = Some x \<and> ord_id x = ord_id o')" for o'
    by (auto simp: first_def session_first_of)
  have inj_id: "inj_on ord_id (set os)" using assms(1) by (simp add: distinct_map)
  have "inj_on ord_sessionId (set (filter first os))"
    using inj_id by (fastforce simp: inj_on_def first)
  moreover have "distinct (filter first os)" using assms(1) by (simp add: distinct_map)
  ultimately have "distinct (map ord_sessionId (filter first os))" by (simp add: distinct_map)
  then have "length (filter first os) = card (ord_sessionId ` set (filter first os))"
    using distinct_card by fastforce
  moreover have "ord_sessionId ` set os \<subseteq> ord_sessionId ` set (filter first os)"
  proof
    fix sid assume "sid \<in> ord_sessionId ` set os"
    then obtain x where "findFirst (\<lambda>x. ord_sessionId x = sid) os = Some x"
      by (metis (mono_tags, lifting) findFirst_Some_ex image_iff)
    moreover from this have "x \<in> set os" "ord_sessionId x = sid" using findFirst_SomeD by fast+
    ultimately show "sid \<in> ord_sessionId ` set (filter first os)" by (auto simp: first)
  qed
  then have "ord_sessionId ` set (filter first os) = ord_sessionId ` set os" by auto
  ultimately show ?thesis by simp
qed

text \<open>
  the board shows the kitchen's work, all of it, oldest first. Without \<open>all\<close> it lists exactly
  the venue's orders that are in flight, and of every session with an order on it exactly one
  order carries the "new session" flag: the session's oldest order on the board, whether or not
  an older one has already left it.
\<close>

theorem board_shows_orders_in_flight:
  fixes s ven
  assumes "distinct (map ord_id (orders s))"
  defines "kitchen \<equiv> {o' \<in> set (orders s). ord_venueId o' = ven \<and> ord_status o' \<in> set IN_FLIGHT_STATUSES}"
  shows "set (map bo_id (desk_board False ven s)) = ord_id ` kitchen \<and>
    sorted (map bo_createdAt (desk_board False ven s)) \<and>
    length (filter bo_newSession (desk_board False ven s)) = card (ord_sessionId ` kitchen)"
proof -
  let ?os = "orderBy ord_createdAt (filter (on_board False (now s) ven) (orders s))"
  have set_os: "set ?os = kitchen"
    by (auto simp: kitchen_def on_board_def IN_FLIGHT_STATUSES_def)
  have "distinct (map ord_id (filter (on_board False (now s) ven) (orders s)))"
    using assms(1) distinct_map_filter by blast
  then have count: "length (filter (\<lambda>o'. map_of (session_first ?os []) (ord_sessionId o') = Some (ord_id o')) ?os) =
      card (ord_sessionId ` kitchen)"
    using session_firsts_count[of ?os] set_os by (simp add: distinct_orderBy)
  have board: "desk_board False ven s = map (board_order_of s (session_first ?os [])) ?os"
    by (simp add: desk_board_def Let_def)
  have "sorted (map ord_createdAt ?os)" by (simp add: orderBy_def)
  then show ?thesis
    unfolding board set_os[symmetric]
    using count[folded set_os] by (auto simp: board_order_of_def filter_map o_def)
qed

theorem board_shows_orders_in_flight_witness:
  "length (filter bo_newSession (desk_board False ''v1'' sample)) =
   card (ord_sessionId ` {o' \<in> set (orders sample). ord_venueId o' = ''v1'' \<and>
     ord_status o' \<in> set IN_FLIGHT_STATUSES})"
proof -
  have "distinct (map ord_id (orders sample))" by (simp add: sample_defs)
  from board_shows_orders_in_flight[OF this, of "''v1''"] show ?thesis by simp
qed

subsection \<open>Asking for the bill and changing one's mind\<close>

lemma getActiveSession_state:
  assumes "getActiveSession cookie code s = (a, s1)"
  shows "\<exists>ss. s1 = s\<lparr>sessions := ss\<rparr>"
  using getActiveSession_sessions[of cookie code s] assms by auto

text \<open>
  a bill request the desk dismisses leaves no trace on the table. When a party whose visit is
  open asks for its bill and the desk then dismisses the request, visits, orders and deliveries
  are what they were.
\<close>

theorem dismissed_bill_request_round_trip:
  assumes "POST_bill req s = (Ok (), s1)" and "PATCH_desk_bill pf vid cookie s1 = (Ok (), s2)"
    and party: "fst (getActiveSession (rq_tableSession req) None s) = Some a" "visit_of a = Some vid"
    and visit: "distinct (map tv_id (visits s))"
      "v \<in> set (visits s)" "tv_id v = vid" "tv_status v = Open" "tv_billRequestedAt v = None"
  shows "visits s2 = visits s \<and> orders s2 = orders s \<and> posDeliveries s2 = posDeliveries s"
proof -
  obtain ss where live: "getActiveSession (rq_tableSession req) None s = (Some a, s\<lparr>sessions := ss\<rparr>)"
    using party(1) getActiveSession_state[of "rq_tableSession req" None s]
    by (cases "getActiveSession (rq_tableSession req) None s") auto
  let ?asked = "updateMany (\<lambda>x. tv_id x = vid) (ask_bill (now s)) (visits s)"
  have only: "x = v" if "x \<in> set (visits s)" "tv_id x = vid" for x
    using that visit(1-3) by (auto simp: distinct_map inj_on_def)
  have asked: "visits s1 = ?asked" "orders s1 = orders s" "posDeliveries s1 = posDeliveries s"
  proof -
    obtain w where w: "findFirst (\<lambda>x. tv_id x = vid \<and> tv_venueId x = as_venueId a) (visits s) = Some w"
      using assms(1) party(2)
      by (auto simp: POST_bill_def live requestBill_def requestBill_read_def split: option.splits if_splits)
    then have "w = v" using only findFirst_SomeD[OF w] by blast
    then show "visits s1 = ?asked" "orders s1 = orders s" "posDeliveries s1 = posDeliveries s"
      using assms(1) party(2) w visit(4)
      by (auto simp: POST_bill_def live requestBill_def requestBill_read_def requestBill_write_def logAttempt_def)
  qed
  have "visits s2 = updateMany (\<lambda>x. tv_id x = vid) (\<lambda>x. x\<lparr>tv_status := Open, tv_billRequestedAt := None\<rparr>) (visits s1) \<and>
      orders s2 = orders s1 \<and> posDeliveries s2 = posDeliveries s1"
    using assms(2) by (cases rule: requireStaff_cases[of pf Desk cookie s1])
      (auto simp: PATCH_desk_bill_def clearBillRequest_def split: option.splits if_splits)
  moreover have "updateMany (\<lambda>x. tv_id x = vid) (\<lambda>x. x\<lparr>tv_status := Open, tv_billRequestedAt := None\<rparr>) ?asked = visits s"
  proof -
    have "x\<lparr>tv_status := Open, tv_billRequestedAt := None\<rparr> = x" if "x \<in> set (visits s)" "tv_id x = vid" for x
      using only[OF that] visit(4,5) by (cases x) auto
    then show ?thesis
      unfolding updateMany_def by (auto simp: ask_bill_def intro!: map_idI)
  qed
  ultimately show ?thesis using asked by simp
qed

theorem dismissed_bill_request_round_trip_witness:
  "visits (snd (PATCH_desk_bill toy_platform ''w1'' (Some ''d1-0'') (snd (POST_bill phone1 sample)))) = visits sample"
proof -
  let ?a = "POST_bill phone1 sample"
  let ?d = "PATCH_desk_bill toy_platform ''w1'' (Some ''d1-0'') (snd ?a)"
  have asked: "?a = (Ok (), snd ?a)" and frame: "staffUsers (snd ?a) = staffUsers sample" "accountCache (snd ?a) = []"
    "visits (snd ?a) = [ask_bill 120000 sample_visit]"
    by (simp_all add: prod_eq_iff POST_bill_def sample_session_live visit_of_def requestBill_def requestBill_read_def
        requestBill_write_def logAttempt_def sample_defs ask_bill_def publish_def)
  obtain c where "requireStaff toy_platform Desk (Some ''d1-0'') (snd ?a) = (Some toy_desk, (snd ?a)\<lparr>accountCache := c\<rparr>)"
    using toy_requires(2)[OF frame(1,2)] by auto
  then have "fst ?d = Ok ()"
    by (simp add: PATCH_desk_bill_def clearBillRequest_def toy_desk_def frame(3) ask_bill_def sample_visit_def)
  then have dismissed: "?d = (Ok (), snd ?d)" by (simp add: prod_eq_iff)
  show ?thesis
    by (rule conjunct1[OF dismissed_bill_request_round_trip[OF asked dismissed,
          where a = withdrawing and v = sample_visit]])
      (simp_all add: sample_session_live withdrawing_def visit_of_def sample_defs)
qed

end
