(* ===== verification/Live.thy ===== *)
theory Live
  imports Desk
begin

section \<open>Live channels\<close>

text \<open>
  \<open>src/lib/sse.ts\<close> (the stream every live screen reads), \<open>src/app/api/desk/stream/route.ts\<close>
  and \<open>src/app/api/session/stream/route.ts\<close>. A stream is a small state machine beside the
  server: an event it wants is serialised by a promise, which may read the database later than
  the event was published and settle in any order, and only then written. The subscription of
  \<open>src/lib/bus.ts\<close> is the log of published events: the events of one step of the server are
  handed to every open stream in order.
\<close>

subsection \<open>Messages and filters\<close>

fun event_type :: "bus_event \<Rightarrow> string" where
  "event_type (OrderCreated _ _ _ _) = ''order.created''"
| "event_type (OrderUpdated _ _ _ _) = ''order.updated''"
| "event_type (MenuChanged _) = ''menu.changed''"
| "event_type (SessionRevoked _ _) = ''session.revoked''"
| "event_type (BillRequestedEv _ _ _) = ''bill.requested''"
| "event_type (BillUpdated _ _ _) = ''bill.updated''"
| "event_type (VisitClosed _ _ _) = ''visit.closed''"

datatype message =
    Connected
  | Ping
  | Hint string
  | Menu_changed
  | Session_revoked
  | Visit_closed
  | Bill_updated
  | Order_update id order_status "jstr option"

definition desk_wants :: "id \<Rightarrow> bus_event \<Rightarrow> bool" where
  "desk_wants venueId e \<longleftrightarrow> ev_venue e = venueId \<and>
     (event_type e = ''order.created'' \<or> event_type e = ''order.updated'' \<or>
      event_type e = ''bill.requested'' \<or> event_type e = ''bill.updated'' \<or>
      event_type e = ''visit.closed'')"

definition desk_serialize :: "server \<Rightarrow> bus_event \<Rightarrow> message option" where
  "desk_serialize s e = Some (Hint (event_type e))"

text \<open>What a phone's stream remembers of the session it was opened with.\<close>

record phone_channel =
  pc_session :: id
  pc_table :: id
  pc_venue :: id

definition phone_wants :: "phone_channel \<Rightarrow> bus_event \<Rightarrow> bool" where
  "phone_wants c e \<longleftrightarrow> ev_venue e = pc_venue c \<and>
     (case e of
        OrderCreated _ _ _ t \<Rightarrow> t = pc_table c
      | OrderUpdated _ _ _ t \<Rightarrow> t = pc_table c
      | BillRequestedEv _ _ t \<Rightarrow> t = pc_table c
      | BillUpdated _ _ t \<Rightarrow> t = pc_table c
      | VisitClosed _ _ t \<Rightarrow> t = pc_table c
      | SessionRevoked _ i \<Rightarrow> i = pc_session c
      | MenuChanged _ \<Rightarrow> True)"

definition order_message :: "phone_channel \<Rightarrow> server \<Rightarrow> id \<Rightarrow> message option" where
  "order_message c s oid =
     (case findFirst (\<lambda>o'. ord_id o' = oid) (orders s) of
        None \<Rightarrow> None
      | Some o' \<Rightarrow> if ord_tableId o' \<noteq> pc_table c then None
          else Some (Order_update (ord_id o') (ord_status o') (ord_rejectReason o')))"

fun phone_serialize :: "phone_channel \<Rightarrow> server \<Rightarrow> bus_event \<Rightarrow> message option" where
  "phone_serialize c s (MenuChanged _) = Some Menu_changed"
| "phone_serialize c s (SessionRevoked _ _) = Some Session_revoked"
| "phone_serialize c s (VisitClosed _ _ _) = Some Visit_closed"
| "phone_serialize c s (BillRequestedEv _ _ _) = Some Bill_updated"
| "phone_serialize c s (BillUpdated _ _ _) = Some Bill_updated"
| "phone_serialize c s (OrderCreated _ oid _ _) = order_message c s oid"
| "phone_serialize c s (OrderUpdated _ oid _ _) = order_message c s oid"

subsection \<open>A stream\<close>

text \<open>\<open>st_gone\<close>: the consumer has gone, and \<open>controller.enqueue\<close> throws.\<close>

record stream =
  st_closed :: bool
  st_gone :: bool
  st_pending :: "bus_event list"
  st_out :: "message list"

definition cleanup :: "stream \<Rightarrow> stream" where
  "cleanup st = st\<lparr>st_closed := True\<rparr>"

definition write_chunk :: "message \<Rightarrow> stream \<Rightarrow> stream" where
  "write_chunk m st =
     (if st_closed st then st
      else if st_gone st then cleanup st
      else st\<lparr>st_out := st_out st @ [m]\<rparr>)"

definition sse_open :: stream where
  "sse_open = write_chunk Connected \<lparr>st_closed = False, st_gone = False, st_pending = [], st_out = []\<rparr>"

definition sse_event :: "(bus_event \<Rightarrow> bool) \<Rightarrow> bus_event \<Rightarrow> stream \<Rightarrow> stream" where
  "sse_event wants e st =
     (if \<not> st_closed st \<and> wants e then st\<lparr>st_pending := st_pending st @ [e]\<rparr> else st)"

text \<open>The promise of the \<open>i\<close>-th pending event settles in the database state \<open>s\<close>.\<close>

definition sse_settle :: "(server \<Rightarrow> bus_event \<Rightarrow> message option) \<Rightarrow> server \<Rightarrow> nat \<Rightarrow> stream \<Rightarrow> stream" where
  "sse_settle serialize s i st =
     (let e = st_pending st ! i;
          st1 = st\<lparr>st_pending := take i (st_pending st) @ drop (Suc i) (st_pending st)\<rparr>
      in case serialize s e of None \<Rightarrow> st1 | Some m \<Rightarrow> write_chunk m st1)"

definition heartbeat :: "stream \<Rightarrow> stream" where
  "heartbeat st = (if st_closed st then st else write_chunk Ping st)"

definition GET_desk_stream :: "platform \<Rightarrow> string option \<Rightarrow> server \<Rightarrow> (id \<times> stream) response \<times> server" where
  "GET_desk_stream pf cookie s =
     (case requireStaff pf Desk cookie s of
        (None, s1) \<Rightarrow> (Fail 401 ''unauthorized'' [], s1)
      | (Some staff, s1) \<Rightarrow> (Ok (sc_venueId staff, sse_open), s1))"

definition channel_of :: "active_session \<Rightarrow> phone_channel" where
  "channel_of a = \<lparr>pc_session = as_id a, pc_table = as_tableId a, pc_venue = as_venueId a\<rparr>"

definition GET_session_stream :: "request \<Rightarrow> server \<Rightarrow> (phone_channel \<times> stream) response \<times> server" where
  "GET_session_stream req s =
     (case getActiveSession (rq_tableSession req) None s of
        (None, s1) \<Rightarrow> (Fail 401 ''no_session'' [], s1)
      | (Some a, s1) \<Rightarrow> (Ok (channel_of a, sse_open), s1))"

text \<open>
  A stream beside the server. One step of the server appends to the log whatever it publishes.
\<close>

inductive live_step ::
  "(bus_event \<Rightarrow> bool) \<Rightarrow> (server \<Rightarrow> bus_event \<Rightarrow> message option) \<Rightarrow> server \<times> stream \<Rightarrow> server \<times> stream \<Rightarrow> bool"
  for wants serialize where
  l_server: "events s' = events s @ es \<Longrightarrow>
    live_step wants serialize (s, st) (s', fold (sse_event wants) es st)"
| l_settle: "i < length (st_pending st) \<Longrightarrow>
    live_step wants serialize (s, st) (s, sse_settle serialize s i st)"
| l_heartbeat: "live_step wants serialize (s, st) (s, heartbeat st)"
| l_leave: "live_step wants serialize (s, st) (s, st\<lparr>st_gone := True\<rparr>)"
| l_cancel: "live_step wants serialize (s, st) (s, cleanup st)"

subsection \<open>What a stream keeps\<close>

lemma write_chunk_fields [simp]:
  "st_pending (write_chunk m st) = st_pending st" "st_gone (write_chunk m st) = st_gone st"
  by (simp_all add: write_chunk_def cleanup_def)

lemma sse_event_fields [simp]:
  "st_out (sse_event wants e st) = st_out st" "st_closed (sse_event wants e st) = st_closed st"
  "st_gone (sse_event wants e st) = st_gone st"
  by (simp_all add: sse_event_def)

lemma fold_event_fields [simp]:
  "st_out (fold (sse_event wants) es st) = st_out st" "st_closed (fold (sse_event wants) es st) = st_closed st"
  "st_gone (fold (sse_event wants) es st) = st_gone st"
  by (induction es arbitrary: st) simp_all

lemma fold_event_pending:
  "st_pending (fold (sse_event wants) es st) =
   (if st_closed st then st_pending st else st_pending st @ filter wants es)"
  by (induction es arbitrary: st) (auto simp: sse_event_def)

lemma sse_settle_out:
  "st_out (sse_settle serialize s i st) = st_out st \<or>
   (\<exists>m. serialize s (st_pending st ! i) = Some m \<and> st_out (sse_settle serialize s i st) = st_out st @ [m])"
  by (simp add: sse_settle_def write_chunk_def cleanup_def Let_def split: option.split)

text \<open>Every event waiting in a stream is one the filter let through.\<close>

definition only_wanted :: "(bus_event \<Rightarrow> bool) \<Rightarrow> server \<times> stream \<Rightarrow> bool" where
  "only_wanted wants x \<longleftrightarrow> list_all wants (st_pending (snd x))"

definition live_start :: "server \<times> stream \<Rightarrow> bool" where
  "live_start x \<longleftrightarrow> snd x = sse_open"

lemma only_wanted_step: "live_step wants serialize x y \<Longrightarrow> only_wanted wants x \<Longrightarrow> only_wanted wants y"
proof (induction rule: live_step.induct)
  case (l_server s' s es st)
  then show ?case by (auto simp: only_wanted_def fold_event_pending list_all_iff)
next
  case (l_settle i st s)
  have "st_pending (sse_settle serialize s i st) = take i (st_pending st) @ drop (Suc i) (st_pending st)"
    by (simp add: sse_settle_def Let_def split: option.split)
  then show ?case using l_settle by (auto simp: only_wanted_def list_all_iff dest: in_set_takeD in_set_dropD)
qed (simp_all add: only_wanted_def heartbeat_def cleanup_def)

interpretation live: machine_invariant live_start "live_step wants serialize" "only_wanted wants"
proof unfold_locales
  show "only_wanted wants x" if "live_start x" for x
    using that by (simp add: live_start_def only_wanted_def sse_open_def write_chunk_def)
qed (rule only_wanted_step)

text \<open>The event a message is about, and whether it is true of the database.\<close>

definition own_event :: "phone_channel \<Rightarrow> message \<Rightarrow> bus_event \<Rightarrow> bool" where
  "own_event c m e \<longleftrightarrow> ev_venue e = pc_venue c \<and>
     (m = Menu_changed \<and> event_type e = ''menu.changed'' \<or>
      m = Session_revoked \<and> event_type e = ''session.revoked'' \<and> ev_sessionId e = pc_session c \<or>
      m = Visit_closed \<and> event_type e = ''visit.closed'' \<and> ev_table e = pc_table c \<or>
      m = Bill_updated \<and> event_type e \<in> {''bill.requested'', ''bill.updated''} \<and> ev_table e = pc_table c \<or>
      event_type e \<in> {''order.created'', ''order.updated''} \<and> ev_table e = pc_table c \<and>
        (\<exists>st r. m = Order_update (ev_orderId e) st r))"

definition true_of :: "phone_channel \<Rightarrow> message \<Rightarrow> server \<Rightarrow> bool" where
  "true_of c m s \<longleftrightarrow> (case m of
     Order_update oid st r \<Rightarrow> (\<exists>o' \<in> set (orders s). ord_id o' = oid \<and> ord_tableId o' = pc_table c \<and>
       ord_status o' = st \<and> ord_rejectReason o' = r)
   | _ \<Rightarrow> True)"

lemma order_message_true: "order_message c s oid = Some m \<Longrightarrow>
    true_of c m s \<and> (\<exists>st r. m = Order_update oid st r)"
  by (fastforce simp: order_message_def true_of_def dest: findFirst_SomeD split: option.splits if_splits)

lemma phone_serialize_own:
  "phone_wants c e \<Longrightarrow> phone_serialize c s e = Some m \<Longrightarrow> own_event c m e \<and> true_of c m s"
  using order_message_true[of c s _ m]
  by (cases e) (auto simp: phone_wants_def own_event_def true_of_def)


subsection \<open>Every change on the floor is heard\<close>

text \<open>The operations that change what the desk's board and list of bills show.\<close>

definition talkative :: "(nat \<Rightarrow> server \<Rightarrow> server) \<Rightarrow> bool" where
  "talkative f \<longleftrightarrow> (\<forall>k x. prefix (events x) (events (f k x)))"

inductive floor_change :: "id \<Rightarrow> server \<Rightarrow> server \<Rightarrow> bool" where
  f_place: "POST_orders busy idle zm oid lineId req body s = (Ok k, s') \<Longrightarrow> \<not> ok_replayed k \<Longrightarrow>
    talkative busy \<Longrightarrow> talkative idle \<Longrightarrow>
    fst (getActiveSession (rq_tableSession req) None s) = Some a \<Longrightarrow> floor_change (as_venueId a) s s'"
| f_cancel: "POST_cancel req oid s = (Ok (), s') \<Longrightarrow>
    fst (getActiveSession (rq_tableSession req) None s) = Some a \<Longrightarrow> floor_change (as_venueId a) s s'"
| f_status: "PATCH_desk_order pf lf newId oid b cookie s = (Ok st, s') \<Longrightarrow>
    fst (requireStaff pf Desk cookie s) = Some staff \<Longrightarrow> floor_change (sc_venueId staff) s s'"
| f_items: "PATCH_desk_items pf lf newId oid ls cookie s = (Ok r, s') \<Longrightarrow>
    fst (requireStaff pf Desk cookie s) = Some staff \<Longrightarrow> floor_change (sc_venueId staff) s s'"
| f_ask: "POST_bill req s = (Ok (), s') \<Longrightarrow>
    fst (getActiveSession (rq_tableSession req) None s) = Some a \<Longrightarrow> floor_change (as_venueId a) s s'"
| f_dismiss: "PATCH_desk_bill pf vid cookie s = (Ok (), s') \<Longrightarrow>
    fst (requireStaff pf Desk cookie s) = Some staff \<Longrightarrow> floor_change (sc_venueId staff) s s'"
| f_settle: "POST_settle pf vid sb cookie s = (Ok k, s') \<Longrightarrow>
    fst (requireStaff pf Desk cookie s) = Some staff \<Longrightarrow> floor_change (sc_venueId staff) s s'"
| f_abandon: "abandon_visit v s = Some s' \<Longrightarrow> floor_change (tv_venueId v) s s'"

text \<open>What the operations append to the log.\<close>

definition announces :: "id \<Rightarrow> server \<Rightarrow> server \<Rightarrow> bool" where
  "announces ven s s' \<longleftrightarrow> (\<exists>es e. events s' = es @ [e] \<and> prefix (events s) es \<and> desk_wants ven e)"

lemma announcesI: "events s' = events s @ [e] \<Longrightarrow> desk_wants ven e \<Longrightarrow> announces ven s s'"
  unfolding announces_def by blast

lemma create_attempts_events:
  assumes "talkative busy" "talkative idle"
  shows "prefix (events s) (events (snd (create_attempts n busy idle oid lineId input s)))"
proof (induction n arbitrary: s)
  case (Suc n)
  let ?s1 = "busy n s"
  let ?o = "order_of_input oid lineId (last_number (in_venueId input) s + 1) (now ?s1) input"
  have busy: "prefix (events s) (events ?s1)" "prefix (events s) (events (idle n ?s1))"
    using assms unfolding talkative_def by (blast intro: prefix_order.trans)+
  show ?case
  proof (cases "insert_order ?o ?s1")
    case (Done s2)
    then have "events s2 = events ?s1" by (drule_tac insert_order_Done) simp
    then show ?thesis using busy Done by simp
  next
    case (Refused err)
    then show ?thesis
      using busy prefix_order.trans[OF busy(2) Suc.IH[of "idle n ?s1"]] by (auto simp: Let_def split: option.split)
  next
    case Threw
    then show ?thesis using busy by simp
  qed
qed simp

lemma place_announces:
  assumes "POST_orders busy idle zm oid lineId req body s = (Ok k, s')" "\<not> ok_replayed k"
    and "talkative busy" "talkative idle"
    and a: "fst (getActiveSession (rq_tableSession req) None s) = Some a"
  shows "\<exists>es. events s' = es @ [OrderCreated (as_venueId a) (ok_orderId k) (as_id a) (as_tableId a)] \<and>
    prefix (events s) es"
proof -
  from POST_orders_Ok[OF assms(1,2)] a obtain s1 input o' s2 where
    g: "getActiveSession (rq_tableSession req) None s = (Some a, s1)"
    and checks: "order_checks zm req a body s1 = Inr input"
    and c: "createOrderWithNextNumber busy idle oid lineId input s1 = (Done (Some o'), s2)"
    and k: "ok_orderId k = ord_id o'" by auto
  have "events s1 = events s" using getActiveSession_frame(8)[of "rq_tableSession req" None s] g by simp
  moreover have "prefix (events s1) (events s2)"
    using create_attempts_events[OF assms(3,4), of s1 NUMBER_RETRIES oid lineId input] c
    by (simp add: createOrderWithNextNumber_def)
  moreover have "events s' = events s2 @ [OrderCreated (as_venueId a) (ok_orderId k) (as_id a) (as_tableId a)]"
    using assms(1) by (auto simp: POST_orders_def g checks c order_finish_def k logAttempt_def)
  ultimately show ?thesis by auto
qed

lemma enqueue_events: "events (enqueuePosDelivery lf newId oid am s) = events s"
  using enqueue_state[of lf newId oid am s] by auto

lemma settle_announces:
  assumes "settleVisit vid ven input s = (Done k, s')"
  obtains v where "findFirst (\<lambda>v. tv_id v = vid \<and> tv_venueId v = ven) (visits s) = Some v"
    "events s' = events s @ [VisitClosed ven vid (tv_tableId v)]"
  using assms
  by (auto simp: settleVisit_def settle_read_def settle_write_def Let_def
      split: option.splits if_splits outcome.splits)

lemma edit_announces:
  assumes "editOrder oid ven staff ls s = (Done plan, s')"
  obtains e where "events s' = events s @ [e]" "desk_wants ven e"
  using assms
  by (auto simp: editOrder_def edit_write_def desk_wants_def split: outcome.splits option.splits if_splits)

lemma desk_write_announces:
  assumes "desk_write lf newId ven oid st b s = (Ok st', s')"
  shows "announces ven s s'"
proof (cases "findFirst (\<lambda>o'. ord_id o' = oid) (updateMany (\<lambda>o'. ord_id o' = oid) (desk_status st b) (orders s))")
  case None
  then show ?thesis using assms by (simp add: desk_write_def)
next
  case (Some u)
  then have "s' = publish (OrderUpdated ven oid (ord_sessionId u) (ord_tableId u))
      (if st = Accepted then enqueuePosDeliveryInBackground lf newId oid
         (s\<lparr>orders := updateMany (\<lambda>o'. ord_id o' = oid) (desk_status st b) (orders s)\<rparr>)
       else s\<lparr>orders := updateMany (\<lambda>o'. ord_id o' = oid) (desk_status st b) (orders s)\<rparr>)"
    using assms by (simp add: desk_write_def Let_def split: if_splits)
  then have "events s' = events s @ [OrderUpdated ven oid (ord_sessionId u) (ord_tableId u)]"
    by (simp add: enqueuePosDeliveryInBackground_def enqueue_events)
  then show ?thesis by (rule announcesI) (simp add: desk_wants_def)
qed

lemma desk_route_announces:
  assumes staff: "fst (requireStaff pf Desk cookie s) = Some staff"
  shows "PATCH_desk_order pf lf newId oid b cookie s = (Ok st, s') \<Longrightarrow> announces (sc_venueId staff) s s'"
    and "PATCH_desk_items pf lf newId oid ls cookie s = (Ok r, s') \<Longrightarrow> announces (sc_venueId staff) s s'"
    and "PATCH_desk_bill pf vid cookie s = (Ok (), s') \<Longrightarrow> announces (sc_venueId staff) s s'"
    and "POST_settle pf vid sb cookie s = (Ok k, s') \<Longrightarrow> announces (sc_venueId staff) s s'"
proof -
  obtain c where c: "requireStaff pf Desk cookie s = (Some staff, s\<lparr>accountCache := c\<rparr>)"
    using staff by (cases rule: requireStaff_cases[of pf Desk cookie s]) auto
  show "announces (sc_venueId staff) s s'" if "PATCH_desk_order pf lf newId oid b cookie s = (Ok st, s')"
  proof -
    have "desk_write lf newId (sc_venueId staff) oid st b (s\<lparr>accountCache := c\<rparr>) = (Ok st, s')"
      using PATCH_desk_order_Ok[OF that] c by (metis prod.inject option.inject)
    from desk_write_announces[OF this] show ?thesis by (simp add: announces_def)
  qed
  show "announces (sc_venueId staff) s s'" if ok: "PATCH_desk_items pf lf newId oid ls cookie s = (Ok r, s')"
  proof -
    obtain plan ls' s2 where edit: "editOrder oid (sc_venueId staff) (sc_sub staff, sc_name staff) ls'
        (s\<lparr>accountCache := c\<rparr>) = (Done plan, s2)" "events s' = events s2"
      using ok
      by (auto simp: PATCH_desk_items_def c enqueueAmendmentInBackground_def enqueue_events
          split: option.splits if_splits prod.splits outcome.splits)
    from edit(1) show ?thesis by (rule edit_announces) (auto simp: edit(2) intro: announcesI)
  qed
  show "announces (sc_venueId staff) s s'" if "PATCH_desk_bill pf vid cookie s = (Ok (), s')"
    using that
    by (auto simp: PATCH_desk_bill_def c clearBillRequest_def desk_wants_def
        split: option.splits if_splits intro: announcesI)
  show "announces (sc_venueId staff) s s'" if ok: "POST_settle pf vid sb cookie s = (Ok k, s')"
  proof -
    obtain input where "settleVisit vid (sc_venueId staff) input (s\<lparr>accountCache := c\<rparr>) = (Done k, s')"
      using ok by (auto simp: POST_settle_def c split: option.splits if_splits prod.splits outcome.splits)
    then show ?thesis by (rule settle_announces) (auto intro: announcesI simp: desk_wants_def)
  qed
qed

text \<open>
  C21: whatever changes on the floor reaches the desk. An order placed, withdrawn, moved along or
  corrected, a bill asked for, dismissed or settled, and a visit swept up as abandoned each append
  to the log, after everything published before, an event that the desk's stream of that venue
  lets through; so its board is asked to reload after the change and not before it.
\<close>

theorem floor_changes_reach_the_desk:
  assumes "floor_change ven s s'"
  shows "\<exists>es e. events s' = es @ [e] \<and> prefix (events s) es \<and> desk_wants ven e"
proof -
  have "announces ven s s'"
    using assms
  proof cases
    case (f_place busy idle zm oid lineId req body k a)
    then show ?thesis
      using place_announces[OF f_place(2,3,4,5,6)] by (auto simp: announces_def desk_wants_def)
  next
    case (f_cancel req oid a)
    obtain s1 where "getActiveSession (rq_tableSession req) None s = (Some a, s1)"
      using f_cancel(3) by (cases "getActiveSession (rq_tableSession req) None s") auto
    moreover from this have "events s1 = events s"
      using getActiveSession_frame(8)[of "rq_tableSession req" None s] by simp
    ultimately show ?thesis
      using f_cancel(1,2)
      by (auto simp: POST_cancel_def cancel_read_def cancel_write_def logAttempt_def desk_wants_def
          split: option.splits if_splits outcome.splits intro: announcesI)
  next
    case (f_ask req a)
    obtain s1 where "getActiveSession (rq_tableSession req) None s = (Some a, s1)"
      using f_ask(3) by (cases "getActiveSession (rq_tableSession req) None s") auto
    moreover from this have "events s1 = events s"
      using getActiveSession_frame(8)[of "rq_tableSession req" None s] by simp
    ultimately show ?thesis
      using f_ask(1,2)
      by (auto simp: POST_bill_def requestBill_def requestBill_write_def logAttempt_def desk_wants_def
          split: option.splits if_splits intro: announcesI)
  next
    case (f_abandon v)
    then show ?thesis
      by (auto simp: abandon_visit_def Let_def desk_wants_def split: if_splits intro: announcesI)
  qed (auto intro: desk_route_announces)
  then show ?thesis by (simp add: announces_def)
qed

theorem floor_changes_reach_the_desk_witness:
  "\<exists>es e. events (snd sample_placed) = es @ [e] \<and> prefix (events sample) es \<and> desk_wants ''v1'' e"
proof -
  have alone: "talkative alone" by (simp add: talkative_def)
  have "floor_change (as_venueId (the (fst (getActiveSession (rq_tableSession phone1) None sample)))) sample (snd sample_placed)"
    by (rule f_place[OF sample_placed_run _ alone alone]) (simp_all add: sample_session_live)
  from floor_changes_reach_the_desk[OF this] show ?thesis by (simp add: sample_session_live)
qed


subsection \<open>A stream knows nothing of its session\<close>

text \<open>
  a stream outlives the session it was opened with. When a table is settled the session of
  each phone of the party is refused from then on; but the stream a phone holds open was checked
  only when it was opened, so it goes on to report the orders of the next party at that table.
\<close>

theorem stream_outlives_session:
  assumes settle: "settleVisit vid ven input s = (Done k, s1)"
    and phone: "fst (getActiveSession (Some token) None s) = Some a" "as_visitId a = Some vid"
    and later: "events s2 = events s1 @ es" "OrderCreated (as_venueId a) oid sid (as_tableId a) \<in> set es"
    and their_order: "findFirst (\<lambda>o'. ord_id o' = oid) (orders s2) = Some o'" "ord_tableId o' = as_tableId a"
  shows "fst (getActiveSession (Some token) None s1) = None \<and>
    (\<exists>st. (live_step (phone_wants (channel_of a)) (phone_serialize (channel_of a)))\<^sup>*\<^sup>* (s, sse_open) (s2, st) \<and>
       Order_update oid (ord_status o') (ord_rejectReason o') \<in> set (st_out st))"
proof
  let ?step = "live_step (phone_wants (channel_of a)) (phone_serialize (channel_of a))"
  obtain x t where live: "live_session (Some token) None s x t" and a: "a = \<lparr>as_id = ts_id x,
      as_venueId = ts_venueId x, as_tableId = ts_tableId x, as_tableCode = tab_code t,
      as_tableName = tab_name t, as_visitId = ts_visitId x\<rparr>"
    using phone(1) unfolding getActiveSession_Some by blast
  then have x: "findFirst (\<lambda>x. ts_token x = token) (sessions s) = Some x" "ts_visitId x = Some vid"
      "ts_revokedAt x = None"
    using phone(2) by (auto simp: live_session_def)
  have "findFirst (\<lambda>x. ts_token x = token) (sessions s1) = Some (revoke (now s) x)"
    unfolding settle_Done_state(3)[OF settle]
    using findFirst_updateMany_key[of ts_token "revoke (now s)" token
        "\<lambda>x. ts_visitId x = Some vid \<and> ts_revokedAt x = None" "sessions s"] x
    by (simp add: revoke_def)
  then have "\<nexists>x t. live_session (Some token) None s1 x t"
    by (auto simp: live_session_def revoke_def)
  then show "fst (getActiveSession (Some token) None s1) = None" by (simp add: getActiveSession_dead)
next
  let ?w = "phone_wants (channel_of a)" and ?ser = "phone_serialize (channel_of a)"
  obtain v :: visit where v: "events s1 = events s @ [VisitClosed ven vid (tv_tableId v)]"
    by (rule settle_announces[OF settle]) (rule that, assumption)
  let ?st1 = "fold (sse_event ?w) [VisitClosed ven vid (tv_tableId v)] sse_open"
  let ?st2 = "fold (sse_event ?w) es ?st1"
  have fresh: "\<not> st_closed ?st2" "\<not> st_gone ?st2"
    by (simp_all only: fold_event_fields) (simp_all add: sse_open_def write_chunk_def)
  have "OrderCreated (as_venueId a) oid sid (as_tableId a) \<in> set (st_pending ?st2)"
    using later(2) fresh(1) by (simp add: fold_event_pending phone_wants_def channel_of_def)
  then obtain i where i: "i < length (st_pending ?st2)"
    "st_pending ?st2 ! i = OrderCreated (as_venueId a) oid sid (as_tableId a)"
    by (auto simp: in_set_conv_nth)
  let ?st3 = "sse_settle ?ser s2 i ?st2"
  have runs: "(live_step ?w ?ser)\<^sup>*\<^sup>* (s, sse_open) (s2, ?st3)"
    by (rule rtranclp_trans[OF r_into_rtranclp[of "live_step ?w ?ser", OF l_server[OF v]]
          rtranclp_trans[OF r_into_rtranclp[of "live_step ?w ?ser", OF l_server[OF later(1)]]
            r_into_rtranclp[of "live_step ?w ?ser", OF l_settle[OF i(1)]]]])
  have m: "?ser s2 (st_pending ?st2 ! i) = Some (Order_update oid (ord_status o') (ord_rejectReason o'))"
    unfolding i(2) using their_order findFirst_SomeD[OF their_order(1)] by (simp add: order_message_def channel_of_def)
  have "Order_update oid (ord_status o') (ord_rejectReason o') \<in> set (st_out ?st3)"
    using m fresh by (simp add: sse_settle_def write_chunk_def Let_def)
  with runs show "\<exists>st. (live_step ?w ?ser)\<^sup>*\<^sup>* (s, sse_open) (s2, st) \<and>
      Order_update oid (ord_status o') (ord_rejectReason o') \<in> set (st_out st)" by blast
qed

definition next_party :: server where
  "next_party = sample_settled\<lparr>
     orders := orders sample_settled @ [(sample_order ''o9'' ''s9'' 9 Received 1000 [])\<lparr>ord_visitId := Some ''w9''\<rparr>],
     events := events sample_settled @ [OrderCreated ''v1'' ''o9'' ''s9'' ''t1'']\<rparr>"

theorem stream_outlives_session_witness:
  "fst (getActiveSession (Some ''tok1'') None sample_settled) = None"
proof -
  let ?o = "(sample_order ''o9'' ''s9'' 9 Received 1000 [])\<lparr>ord_visitId := Some ''w9''\<rparr>"
  obtain a where a: "fst (getActiveSession (Some ''tok1'') None sample) = Some a"
    "as_visitId a = Some ''w1''" "as_venueId a = ''v1''" "as_tableId a = ''t1''"
    using sample_session_live by (simp add: phone1_def bare_request_def)
  have orders: "orders sample_settled = updateMany (\<lambda>o'. ord_id o' \<in> set (bill_orders (buildBill ''w1'' sample)))
      (mark_paid cash_input) (orders sample)"
    by (rule settle_Done_state(2)[OF sample_settle])
  have "findFirst (\<lambda>o'. ord_id o' = ''o9'') (orders next_party) = Some ?o"
    by (simp add: next_party_def orders sample_fields sample_order_def mark_paid_def)
  moreover have "ord_tableId ?o = as_tableId a" by (simp add: sample_order_def a(4))
  moreover have "events next_party = events sample_settled @ [OrderCreated ''v1'' ''o9'' ''s9'' ''t1'']"
    by (simp add: next_party_def)
  ultimately show ?thesis
    using stream_outlives_session[OF sample_settle a(1,2)] a(3,4) by (metis list.set_intros(1))
qed

end
