(* ===== verification/Phone.thy ===== *)
theory Phone
  imports Menu Live
begin

section \<open>The guest's phone\<close>

text \<open>
  The state and the handlers of \<open>src/components/CustomerApp.tsx\<close>, with the dish sheet
  (\<open>customer/ItemSheet.tsx\<close>), the cart sheet (\<open>customer/CartSheet.tsx\<close>) and the parts of
  \<open>customer/MenuSection.tsx\<close> and \<open>customer/OrdersList.tsx\<close> that decide what can be pressed.
  A React state is a field of the record \<open>phone\<close>; a handler that awaits the server is two
  functions, what it does before the request leaves and what it does with the reply. A reply is
  \<open>None\<close> when the request or its answer was lost. What is drawn, and the texts of the messages,
  are left out: a toast is the key of its text.
\<close>

subsection \<open>The dish sheet\<close>

record cart_line =
  cl_key :: jstr
  cl_itemId :: id
  cl_qty :: int
  cl_note :: jstr
  cl_optionIds :: "id list"

record sheet =
  sh_item :: item_view
  sh_qty :: int
  sh_note :: jstr
  sh_optionIds :: "id list"

definition open_sheet :: "item_view \<Rightarrow> sheet" where
  "open_sheet i = \<lparr>sh_item = i, sh_qty = 1, sh_note = [], sh_optionIds = []\<rparr>"

definition chosen_in :: "group_view \<Rightarrow> id list \<Rightarrow> nat" where
  "chosen_in g ids = length (filter (\<lambda>o'. ov_id o' \<in> set ids) (gv_options g))"

definition sheet_valid :: "sheet \<Rightarrow> bool" where
  "sheet_valid sh \<longleftrightarrow> list_all (\<lambda>g. gv_minSelect g \<le> int (chosen_in g (sh_optionIds sh)) \<and>
     int (chosen_in g (sh_optionIds sh)) \<le> gv_maxSelect g) (iv_modifierGroups (sh_item sh))"

definition item_options :: "item_view \<Rightarrow> option_view list" where
  "item_options i = concat (map gv_options (iv_modifierGroups i))"

definition unit_price :: "item_view \<Rightarrow> id list \<Rightarrow> int" where
  "unit_price i ids = iv_priceKurus i +
     sum_list (map ov_priceDeltaKurus (filter (\<lambda>o'. ov_id o' \<in> set ids) (item_options i)))"

definition toggle :: "group_view \<Rightarrow> option_view \<Rightarrow> id list \<Rightarrow> id list" where
  "toggle g o' ids =
     (let inGroup = map ov_id (gv_options g) in
      if gv_maxSelect g = 1
      then (let cleared = filter (\<lambda>i. i \<notin> set inGroup) ids in
        if ov_id o' \<in> set ids \<and> gv_minSelect g = 0 then cleared else cleared @ [ov_id o'])
      else if ov_id o' \<in> set ids then filter (\<lambda>i. i \<noteq> ov_id o') ids
      else if int (length (filter (\<lambda>i. i \<in> set inGroup) ids)) \<ge> gv_maxSelect g then ids
      else ids @ [ov_id o'])"

text \<open>The taps on the sheet.\<close>

inductive sheet_step :: "sheet \<Rightarrow> sheet \<Rightarrow> bool" where
  sh_toggle: "g \<in> set (iv_modifierGroups (sh_item sh)) \<Longrightarrow> o' \<in> set (gv_options g) \<Longrightarrow>
    sheet_step sh (sh\<lparr>sh_optionIds := toggle g o' (sh_optionIds sh)\<rparr>)"
| sh_type: "sheet_step sh (sh\<lparr>sh_note := take 200 text\<rparr>)"
| sh_less: "sheet_step sh (sh\<lparr>sh_qty := max 1 (sh_qty sh - 1)\<rparr>)"
| sh_more: "sheet_step sh (sh\<lparr>sh_qty := min 20 (sh_qty sh + 1)\<rparr>)"

text \<open>The line the button adds; it is disabled while the choice is not valid. The clock makes the key.\<close>

definition sheet_line :: "nat \<Rightarrow> sheet \<Rightarrow> cart_line" where
  "sheet_line t sh = \<lparr>cl_key = lit (iv_id (sh_item sh)) @ 45 # show_nat t, cl_itemId = iv_id (sh_item sh),
     cl_qty = sh_qty sh, cl_note = trim (sh_note sh), cl_optionIds = sh_optionIds sh\<rparr>"

subsection \<open>The cart\<close>

definition menu_items_of :: "venue_menu \<Rightarrow> item_view list" where
  "menu_items_of m = concat (map cv_items (vm_categories m))"

definition itemById :: "venue_menu \<Rightarrow> id \<Rightarrow> item_view option" where
  "itemById m = map_of (rev (map (\<lambda>i. (iv_id i, i)) (menu_items_of m)))"

definition lineTotal :: "venue_menu \<Rightarrow> cart_line \<Rightarrow> int" where
  "lineTotal m l = (case itemById m (cl_itemId l) of None \<Rightarrow> 0
     | Some i \<Rightarrow> unit_price i (cl_optionIds l) * cl_qty l)"

definition cartTotal :: "venue_menu \<Rightarrow> cart_line list \<Rightarrow> int" where
  "cartTotal m cart = sum_list (map (lineTotal m) cart)"

definition cartCount :: "cart_line list \<Rightarrow> int" where
  "cartCount cart = sum_list (map cl_qty cart)"

definition less_of :: "jstr \<Rightarrow> cart_line list \<Rightarrow> cart_line list" where
  "less_of k cart = filter (\<lambda>l. cl_qty l > 0)
     (updateMany (\<lambda>l. cl_key l = k) (\<lambda>l. l\<lparr>cl_qty := cl_qty l - 1\<rparr>) cart)"

definition more_of :: "jstr \<Rightarrow> cart_line list \<Rightarrow> cart_line list" where
  "more_of k cart = updateMany (\<lambda>l. cl_key l = k) (\<lambda>l. l\<lparr>cl_qty := min 20 (cl_qty l + 1)\<rparr>) cart"

text \<open>The lines the cart sheet lists: those whose dish is on the menu.\<close>

definition cart_rows :: "venue_menu \<Rightarrow> cart_line list \<Rightarrow> cart_line list" where
  "cart_rows m cart = filter (\<lambda>l. itemById m (cl_itemId l) \<noteq> None) cart"

text \<open>A dish opens its sheet only when it is available.\<close>

inductive cart_step :: "venue_menu \<Rightarrow> cart_line list \<Rightarrow> cart_line list \<Rightarrow> bool" for m where
  c_add: "i \<in> set (menu_items_of m) \<Longrightarrow> iv_available i \<Longrightarrow> sheet_step\<^sup>*\<^sup>* (open_sheet i) sh \<Longrightarrow>
    sheet_valid sh \<Longrightarrow> cart_step m cart (cart @ [sheet_line t sh])"
| c_less: "l \<in> set (cart_rows m cart) \<Longrightarrow> cart_step m cart (less_of (cl_key l) cart)"
| c_more: "l \<in> set (cart_rows m cart) \<Longrightarrow> cart_step m cart (more_of (cl_key l) cart)"

subsection \<open>The state of the app\<close>

datatype tab = Menu_tab | Orders_tab | Bill_tab
datatype resource = Load_menu | Load_orders | Load_bill
datatype toast = Toast string | Order_toast int

record phone =
  ph_menu :: "venue_menu option"
  ph_menuError :: bool
  ph_locale :: string
  ph_expired :: bool
  ph_settled :: bool
  ph_tab :: tab
  ph_wantOrders :: bool
  ph_wantBill :: bool
  ph_cart :: "cart_line list"
  ph_cartOpen :: bool
  ph_toast :: "toast option"
  ph_submitting :: bool
  ph_requestingBill :: bool
  ph_cancelling :: "id option"
  ph_confirmCancel :: "id option"
  ph_key :: "string option"
  ph_loads :: "resource list"

text \<open>The first render, and the effects that run once it is on screen.\<close>

definition first_render :: "venue_menu \<Rightarrow> phone" where
  "first_render m = \<lparr>ph_menu = Some m, ph_menuError = False, ph_locale = ''tr'', ph_expired = False,
     ph_settled = False, ph_tab = Menu_tab, ph_wantOrders = False, ph_wantBill = False, ph_cart = [],
     ph_cartOpen = False, ph_toast = None, ph_submitting = False, ph_requestingBill = False,
     ph_cancelling = None, ph_confirmCancel = None, ph_key = None, ph_loads = []\<rparr>"

definition seed_locale :: "venue_menu \<Rightarrow> string option \<Rightarrow> string" where
  "seed_locale m prev = (case prev of None \<Rightarrow> vm_defaultLocale m | Some l \<Rightarrow> l)"

definition restore :: "cart_line list option \<Rightarrow> string option \<Rightarrow> phone \<Rightarrow> phone" where
  "restore saved savedLocale p = p\<lparr>
     ph_cart := (case saved of None \<Rightarrow> ph_cart p | Some c \<Rightarrow> c),
     ph_locale := (case savedLocale of Some l \<Rightarrow> if l = ''en'' \<or> l = ''tr'' then l else ph_locale p
       | None \<Rightarrow> ph_locale p)\<rparr>"

text \<open>The cart is written to the phone's storage after every change.\<close>

definition persist :: "phone \<Rightarrow> cart_line list option" where
  "persist p = Some (ph_cart p)"

definition mounted :: "venue_menu \<Rightarrow> cart_line list option \<Rightarrow> string option \<Rightarrow> phone" where
  "mounted m saved savedLocale =
     (let p = first_render m
      in restore saved savedLocale (p\<lparr>ph_locale := seed_locale m (Some (ph_locale p))\<rparr>))"

definition setTab :: "tab \<Rightarrow> phone \<Rightarrow> phone" where
  "setTab t p = p\<lparr>ph_tab := t, ph_wantOrders := (ph_wantOrders p \<or> t = Orders_tab),
     ph_wantBill := (ph_wantBill p \<or> t = Bill_tab)\<rparr>"

definition loads :: "resource list \<Rightarrow> phone \<Rightarrow> phone" where
  "loads rs p = p\<lparr>ph_loads := ph_loads p @ rs\<rparr>"

datatype screen = Settled_screen | Expired_screen | Error_screen | Loading_screen | Menu_screen

definition screen_of :: "phone \<Rightarrow> screen" where
  "screen_of p =
     (if ph_settled p then Settled_screen
      else if ph_expired p then Expired_screen
      else if ph_menu p = None \<and> ph_menuError p then Error_screen
      else if ph_menu p = None then Loading_screen
      else Menu_screen)"

text \<open>A message of the stream (\<open>es.onmessage\<close>) and a failed revalidation (\<open>onAuthError\<close>).\<close>

fun on_message :: "message \<Rightarrow> phone \<Rightarrow> phone" where
  "on_message Menu_changed p = loads [Load_menu] p"
| "on_message (Order_update _ _ _) p = loads [Load_orders, Load_bill] p"
| "on_message Bill_updated p = loads [Load_bill] p"
| "on_message Visit_closed p = p\<lparr>ph_settled := True\<rparr>"
| "on_message Session_revoked p = p\<lparr>ph_expired := True\<rparr>"
| "on_message _ p = p"

definition onAuthError :: "nat \<Rightarrow> phone \<Rightarrow> phone" where
  "onAuthError status p = (if status = 401 then p\<lparr>ph_expired := True\<rparr> else p)"

subsection \<open>Placing the order\<close>

definition wire_line :: "cart_line \<Rightarrow> order_line" where
  "wire_line l = \<lparr>ol_itemId = cl_itemId l, ol_qty = cl_qty l, ol_note = cl_note l, ol_optionIds = cl_optionIds l\<rparr>"

text \<open>What the tap sends, if anything; \<open>fresh\<close> is what \<open>newIdempotencyKey\<close> would return.\<close>

definition submit_send :: "string \<Rightarrow> phone \<Rightarrow> order_body option \<times> phone" where
  "submit_send fresh p =
     (if ph_submitting p then (None, p)
      else (let key = (case ph_key p of None \<Rightarrow> fresh | Some k \<Rightarrow> k)
        in (Some \<lparr>ob_items = map wire_line (ph_cart p), ob_idempotencyKey = Some key\<rparr>,
            p\<lparr>ph_submitting := True, ph_key := Some key\<rparr>)))"

fun status_of :: "'a response \<Rightarrow> nat" where
  "status_of (Ok _) = 200"
| "status_of (Fail code _ _) = code"
| "status_of Crash = 500"

definition submit_reply :: "order_ok response option \<Rightarrow> phone \<Rightarrow> phone" where
  "submit_reply r p0 =
     (let p = p0\<lparr>ph_submitting := False\<rparr>
      in case r of
           None \<Rightarrow> p\<lparr>ph_toast := Some (Toast ''orderFailed'')\<rparr>
         | Some (Ok k) \<Rightarrow> loads [Load_orders, Load_bill] (setTab Orders_tab
             (p\<lparr>ph_key := None, ph_cart := [], ph_cartOpen := False, ph_toast := Some (Order_toast (ok_number k))\<rparr>))
         | Some x \<Rightarrow>
             if status_of x = 401 then p\<lparr>ph_expired := True\<rparr>
             else if status_of x = 429 then p\<lparr>ph_toast := Some (Toast ''rateLimited'')\<rparr>
             else if status_of x = 409 then loads [Load_menu] (p\<lparr>ph_toast := Some (Toast ''itemSoldOut'')\<rparr>)
             else p\<lparr>ph_toast := Some (Toast ''orderFailed'')\<rparr>)"

subsection \<open>Withdrawing and asking for the bill\<close>

definition cancel_button :: "customer_order \<Rightarrow> bool" where
  "cancel_button o' \<longleftrightarrow> co_mine o' \<and> co_status o' = Received"

definition cancel_send :: "id \<Rightarrow> phone \<Rightarrow> bool \<times> phone" where
  "cancel_send oid p =
     (if ph_cancelling p \<noteq> None then (False, p)
      else (True, p\<lparr>ph_confirmCancel := None, ph_cancelling := Some oid\<rparr>))"

definition cancel_reply :: "unit response option \<Rightarrow> phone \<Rightarrow> phone" where
  "cancel_reply r p0 =
     (let p = p0\<lparr>ph_cancelling := None\<rparr>
      in case r of
           Some (Ok _) \<Rightarrow> loads [Load_orders, Load_bill] p
         | Some x \<Rightarrow>
             if status_of x = 401 then p\<lparr>ph_expired := True\<rparr>
             else loads [Load_orders] (p\<lparr>ph_toast := Some (Toast
               (if status_of x = 409 then ''cancelTooLate'' else ''cancelFailed''))\<rparr>)
         | None \<Rightarrow> loads [Load_orders] (p\<lparr>ph_toast := Some (Toast ''cancelFailed'')\<rparr>))"

definition ask_send :: "customer_bill option \<Rightarrow> phone \<Rightarrow> bool \<times> phone" where
  "ask_send b p =
     (if ph_requestingBill p \<or> (case b of None \<Rightarrow> False | Some x \<Rightarrow> cb_billRequested x) then (False, p)
      else (True, p\<lparr>ph_requestingBill := True\<rparr>))"

definition ask_reply :: "unit response option \<Rightarrow> phone \<Rightarrow> phone" where
  "ask_reply r p0 =
     (let p = p0\<lparr>ph_requestingBill := False\<rparr>
      in case r of
           Some (Ok _) \<Rightarrow> loads [Load_bill] (p\<lparr>ph_toast := Some (Toast ''billRequested'')\<rparr>)
         | Some x \<Rightarrow> if status_of x = 401 then p\<lparr>ph_expired := True\<rparr> else p
         | None \<Rightarrow> p)"

subsection \<open>What the sheet and the cart keep\<close>

definition sheet_inv :: "item_view \<Rightarrow> sheet \<Rightarrow> bool" where
  "sheet_inv i sh \<longleftrightarrow> sh_item sh = i \<and> distinct (sh_optionIds sh) \<and>
     set (sh_optionIds sh) \<subseteq> ov_id ` set (item_options i) \<and> 1 \<le> sh_qty sh \<and> sh_qty sh \<le> 20 \<and>
     length (sh_note sh) \<le> 200"

lemma toggle_distinct: "o' \<in> set (gv_options g) \<Longrightarrow> distinct ids \<Longrightarrow> distinct (toggle g o' ids)"
  by (auto simp: toggle_def Let_def)

lemma toggle_set: "set (toggle g o' ids) \<subseteq> insert (ov_id o') (set ids)"
  by (auto simp: toggle_def Let_def)

lemma sheet_inv_step: "sheet_step sh sh' \<Longrightarrow> sheet_inv i sh \<Longrightarrow> sheet_inv i sh'"
proof (induction rule: sheet_step.induct)
  case (sh_toggle g sh o')
  then have "ov_id o' \<in> ov_id ` set (item_options i)"
    by (auto simp: sheet_inv_def item_options_def)
  then show ?case
    using sh_toggle toggle_distinct[of o' g "sh_optionIds sh"] toggle_set[of g o' "sh_optionIds sh"]
    unfolding sheet_inv_def by auto
qed (auto simp: sheet_inv_def)

interpretation sheets: machine_invariant "\<lambda>sh. sh = open_sheet i" sheet_step "sheet_inv i"
proof unfold_locales
  show "sheet_inv i sh" if "sh = open_sheet i" for sh
    using that by (simp add: sheet_inv_def open_sheet_def)
qed (rule sheet_inv_step)

definition line_ok :: "venue_menu \<Rightarrow> cart_line \<Rightarrow> bool" where
  "line_ok m l \<longleftrightarrow> (\<exists>i \<in> set (menu_items_of m). cl_itemId l = iv_id i \<and> iv_available i \<and>
     distinct (cl_optionIds l) \<and> set (cl_optionIds l) \<subseteq> ov_id ` set (item_options i) \<and>
     (\<forall>g \<in> set (iv_modifierGroups i). gv_minSelect g \<le> int (chosen_in g (cl_optionIds l)) \<and>
        int (chosen_in g (cl_optionIds l)) \<le> gv_maxSelect g)) \<and>
     1 \<le> cl_qty l \<and> cl_qty l \<le> 20 \<and> length (cl_note l) \<le> 200"

lemma length_trim: "length (trim s) \<le> length s"
  unfolding trim_def by (metis length_dropWhile_le length_rev order_trans)

lemma sheet_line_ok:
  assumes "i \<in> set (menu_items_of m)" "iv_available i" "sheet_step\<^sup>*\<^sup>* (open_sheet i) sh" "sheet_valid sh"
  shows "line_ok m (sheet_line t sh)"
proof -
  have "sheet_inv i (open_sheet i)" by (simp add: sheet_inv_def open_sheet_def)
  then have "sheet_inv i sh" using sheets.inv_steps[OF assms(3)] by blast
  then show ?thesis
    using assms(1,2,4) length_trim[of "sh_note sh"]
    by (auto simp: line_ok_def sheet_line_def sheet_inv_def sheet_valid_def list_all_iff)
qed

lemma line_ok_qty: "line_ok m l \<Longrightarrow> 1 \<le> q \<Longrightarrow> q \<le> 20 \<Longrightarrow> line_ok m (l\<lparr>cl_qty := q\<rparr>)"
  by (simp add: line_ok_def)

lemma cart_step_ok: "cart_step m c c' \<Longrightarrow> list_all (line_ok m) c \<Longrightarrow> list_all (line_ok m) c'"
proof (induction rule: cart_step.induct)
  case (c_add i sh cart t)
  then show ?case using sheet_line_ok by simp
next
  case (c_less l cart)
  have "line_ok m (x\<lparr>cl_qty := cl_qty x - 1\<rparr>)" if "line_ok m x" "0 < cl_qty x - 1" for x
    using that by (intro line_ok_qty) (auto simp: line_ok_def)
  then show ?case using c_less(2) by (auto simp: less_of_def list_all_iff set_updateMany)
next
  case (c_more l cart)
  have "line_ok m (x\<lparr>cl_qty := min 20 (cl_qty x + 1)\<rparr>)" if "line_ok m x" for x
    using that by (intro line_ok_qty) (auto simp: line_ok_def)
  then show ?case using c_more(2) unfolding more_of_def by (rule list_all_updateMany[rotated])
qed

interpretation carts: machine_invariant "\<lambda>c. c = []" "cart_step m" "list_all (line_ok m)"
  by unfold_locales (simp, rule cart_step_ok)

subsection \<open>The price shown and the price charged\<close>

definition option_ids_unique :: "menu_item \<Rightarrow> bool" where
  "option_ids_unique x \<longleftrightarrow> distinct (map mg_id (mi_modifierGroups x)) \<and>
     distinct (map mo_id (concat (map mg_options (mi_modifierGroups x))))"

lemma option_of_unique:
  assumes "option_ids_unique x" "g \<in> set (mi_modifierGroups x)" "o' \<in> set (mg_options g)"
  shows "option_of x (mo_id o') = Some (o', mg_id g)"
proof -
  have fsts: "map fst (all_options x) = map mo_id (concat (map mg_options (mi_modifierGroups x)))"
    by (simp add: all_options_def map_concat o_def)
  have "distinct (map fst (rev (all_options x)))"
    using assms(1) by (simp add: option_ids_unique_def rev_map[symmetric] fsts)
  moreover have "(mo_id o', (o', mg_id g)) \<in> set (rev (all_options x))"
    using assms(2,3) by (auto simp: all_options_def)
  ultimately show ?thesis by (simp only: option_of_def map_of_eq_Some_iff)
qed

lemma item_options_view:
  "set (item_options (item_view_of x)) =
   option_view_of ` set (concat (map mg_options (mi_modifierGroups x)))"
  by (auto simp: item_options_def item_view_of_def group_view_of_def)

lemma distinct_view_options:
  assumes "option_ids_unique x"
  shows "distinct (map ov_id (item_options (item_view_of x)))"
proof -
  have "mset (map ov_id (item_options (item_view_of x))) =
      mset (map mo_id (concat (map mg_options (mi_modifierGroups x))))"
  proof -
    have one: "mset (map ov_id (gv_options (group_view_of g))) = mset (map mo_id (mg_options g))" for g
      by (simp add: group_view_of_def orderBy_def option_view_of_def o_def)
    have "mset (map ov_id (concat (map (\<lambda>g. gv_options (group_view_of g)) gs))) =
        mset (map mo_id (concat (map mg_options gs)))" for gs
      by (induction gs) (simp_all add: one flip: mset_map)
    moreover have "mset (map ov_id (concat (map (\<lambda>g. gv_options (group_view_of g)) (orderBy mg_sortOrder gs)))) =
        mset (map ov_id (concat (map (\<lambda>g. gv_options (group_view_of g)) gs)))" for gs :: "modifier_group list"
      by (simp add: orderBy_def map_concat mset_concat flip: sum_mset_sum_list)
    ultimately show ?thesis by (simp add: item_options_def item_view_of_def o_def)
  qed
  then show ?thesis using assms unfolding option_ids_unique_def by (metis mset_eq_imp_distinct_iff)
qed

text \<open>
  For a choice without repetitions the server reads the options back one by one: the same number
  in each group and the same sum as the sheet computes over the whole menu item.
\<close>

definition choice_of :: "menu_item \<Rightarrow> id \<Rightarrow> modifier_option \<times> id" where
  "choice_of x i = the (option_of x i)"

lemma choice_known:
  assumes "option_ids_unique x" "i \<in> ov_id ` set (item_options (item_view_of x))"
  obtains g o' where "g \<in> set (mi_modifierGroups x)" "o' \<in> set (mg_options g)" "mo_id o' = i"
    "option_of x i = Some (o', mg_id g)" "choice_of x i = (o', mg_id g)"
proof -
  obtain g o' where "g \<in> set (mi_modifierGroups x)" "o' \<in> set (mg_options g)" "mo_id o' = i"
    using assms(2) unfolding item_options_view by (auto simp: option_view_of_def)
  then show ?thesis using that option_of_unique[OF assms(1)] by (auto simp: choice_of_def)
qed

lemma chosen_options_all:
  assumes "option_ids_unique x" "set ids \<subseteq> ov_id ` set (item_options (item_view_of x))"
  shows "chosen_options x ids = map (choice_of x) ids"
  using assms(2)
proof (induction ids)
  case (Cons i ids)
  then have "i \<in> ov_id ` set (item_options (item_view_of x))" by simp
  then obtain g :: modifier_group and o' where "option_of x i = Some (o', mg_id g)" "choice_of x i = (o', mg_id g)"
    by (rule choice_known[OF assms(1)])
  then show ?case using Cons by (simp add: chosen_options_def map_filter_simps)
qed (simp add: chosen_options_def map_filter_simps)

lemma length_filter_common:
  assumes "distinct xs" "distinct ys"
  shows "length (filter (\<lambda>x. x \<in> set ys) xs) = length (filter (\<lambda>y. y \<in> set xs) ys)"
proof -
  have card: "length (filter P zs) = card {z \<in> set zs. P z}" if "distinct zs" for P and zs :: "'a list"
    using that by (metis distinct_card distinct_filter set_filter)
  have "{x \<in> set xs. x \<in> set ys} = {y \<in> set ys. y \<in> set xs}" by auto
  then show ?thesis using assms by (simp add: card)
qed

lemma length_filter_orderBy: "length (filter P (orderBy k xs)) = length (filter P xs)"
  unfolding orderBy_def by (metis size_mset mset_filter mset_sort)

lemma length_filter_snd:
  "(\<And>i. i \<in> set ids \<Longrightarrow> (snd (f i) = a) = (i \<in> A)) \<Longrightarrow>
   length (filter (\<lambda>(o', gid). gid = a) (map f ids)) = length (filter (\<lambda>i. i \<in> A) ids)"
  by (induction ids) (simp_all add: case_prod_unfold)

lemma chosen_count:
  assumes u: "option_ids_unique x" and g: "g \<in> set (mi_modifierGroups x)"
    and ids: "distinct ids" "set ids \<subseteq> ov_id ` set (item_options (item_view_of x))"
  shows "length (filter (\<lambda>(o', gid). gid = mg_id g) (chosen_options x ids)) = chosen_in (group_view_of g) ids"
proof -
  have same: "snd (choice_of x i) = mg_id g \<longleftrightarrow> i \<in> mo_id ` set (mg_options g)" if i: "i \<in> set ids" for i
  proof -
    have "i \<in> ov_id ` set (item_options (item_view_of x))" using ids(2) i by blast
    then obtain g' o' where k: "g' \<in> set (mi_modifierGroups x)" "o' \<in> set (mg_options g')" "mo_id o' = i"
        "choice_of x i = (o', mg_id g')"
      by (rule choice_known[OF u])
    have "mg_id g' = mg_id g \<Longrightarrow> g' = g"
      using u k(1) g by (auto simp: option_ids_unique_def distinct_map dest: inj_onD)
    moreover have "i \<in> mo_id ` set (mg_options g) \<Longrightarrow> choice_of x i = (choice_of x i) \<and> snd (choice_of x i) = mg_id g"
      using option_of_unique[OF u g] by (auto simp: choice_of_def)
    ultimately show ?thesis using k by auto
  qed
  have opts: "distinct (map mo_id (mg_options g))"
  proof -
    obtain ys zs where "mi_modifierGroups x = ys @ g # zs" using split_list[OF g] by blast
    then show ?thesis using u by (simp add: option_ids_unique_def)
  qed
  have "length (filter (\<lambda>(o', gid). gid = mg_id g) (chosen_options x ids)) =
      length (filter (\<lambda>i. i \<in> set (map mo_id (mg_options g))) ids)"
    unfolding chosen_options_all[OF u ids(2)] using same by (intro length_filter_snd) simp
  also have "\<dots> = length (filter (\<lambda>i. i \<in> set ids) (map mo_id (mg_options g)))"
    by (rule length_filter_common[OF ids(1) opts])
  also have "\<dots> = length (filter (\<lambda>o'. mo_id o' \<in> set ids) (mg_options g))"
    by (simp add: filter_map o_def)
  also have "\<dots> = length (filter (\<lambda>o'. mo_id o' \<in> set ids) (orderBy mo_sortOrder (mg_options g)))"
    by (rule length_filter_orderBy[symmetric])
  also have "\<dots> = chosen_in (group_view_of g) ids"
    by (simp add: chosen_in_def group_view_of_def filter_map o_def option_view_of_def)
  finally show ?thesis .
qed

lemma chosen_sum:
  assumes u: "option_ids_unique x"
    and ids: "distinct ids" "set ids \<subseteq> ov_id ` set (item_options (item_view_of x))"
  shows "mi_priceKurus x + option_sum (chosen_options x ids) = unit_price (item_view_of x) ids"
proof -
  let ?d = "\<lambda>i. mo_priceDeltaKurus (fst (choice_of x i))"
  let ?l = "filter (\<lambda>v. ov_id v \<in> set ids) (item_options (item_view_of x))"
  have "option_sum (chosen_options x ids) = sum ?d (set ids)"
    using ids(1) by (simp add: chosen_options_all[OF u ids(2)] option_sum_def case_prod_unfold o_def
        sum_list_distinct_conv_sum_set)
  also have "\<dots> = sum_list (map ?d (map ov_id ?l))"
  proof -
    have "set (map ov_id ?l) = set ids" using ids(2) by auto
    moreover have "distinct (map ov_id ?l)" using distinct_view_options[OF u] by (rule distinct_map_filter)
    ultimately show ?thesis by (metis sum_list_distinct_conv_sum_set)
  qed
  also have "map ?d (map ov_id ?l) = map ov_priceDeltaKurus ?l"
  proof -
    have "?d (ov_id v) = ov_priceDeltaKurus v" if v: "v \<in> set (item_options (item_view_of x))" for v
    proof -
      obtain g o' where "g \<in> set (mi_modifierGroups x)" "o' \<in> set (mg_options g)" "v = option_view_of o'"
        using v unfolding item_options_view by auto
      then show ?thesis using option_of_unique[OF u] by (simp add: choice_of_def option_view_of_def)
    qed
    then show ?thesis by simp
  qed
  finally show ?thesis by (simp add: unit_price_def item_view_of_def)
qed

lemma menu_item_row:
  assumes "loadVenueMenu ven s = Some m" "menu_rows_ok s" "i \<in> set (menu_items_of m)"
  obtains x where "x \<in> set (menuItems s)" "i = item_view_of x" "mi_venueId x = ven"
proof -
  obtain c x where "c \<in> set (categories s)" "cat_venueId c = ven" "x \<in> set (menuItems s)"
      "mi_categoryId x = cat_id c" "i = item_view_of x"
    using assms(1,3)
    by (auto simp: menu_items_of_def loadVenueMenu_def category_view_of_def category_items_def listed_categories_def)
  then show ?thesis using that menu_rows_item[OF assms(2)] by metis
qed

lemma itemById_shown:
  assumes "loadVenueMenu ven s = Some m" "menu_rows_ok s" "i \<in> set (menu_items_of m)"
  shows "itemById m (iv_id i) = Some i"
proof -
  have "iv_id i \<in> fst ` set (rev (map (\<lambda>i. (iv_id i, i)) (menu_items_of m)))"
    using assms(3) by force
  then obtain j where j: "itemById m (iv_id i) = Some j"
    unfolding itemById_def by (metis map_of_eq_None_iff not_None_eq)
  then have "(iv_id i, j) \<in> set (rev (map (\<lambda>i. (iv_id i, i)) (menu_items_of m)))"
    unfolding itemById_def by (rule map_of_SomeD)
  then have "j \<in> set (menu_items_of m)" "iv_id j = iv_id i" by auto
  obtain x where x: "x \<in> set (menuItems s)" "i = item_view_of x"
    by (rule menu_item_row[OF assms])
  obtain y where y: "y \<in> set (menuItems s)" "j = item_view_of y"
    by (rule menu_item_row[OF assms(1,2) \<open>j \<in> _\<close>])
  have "y = x"
    using unique_row[of mi_id "menuItems s" y x] assms(2) x y \<open>iv_id j = iv_id i\<close>
    by (simp add: menu_rows_ok_def item_view_of_def)
  then show ?thesis using j x y by simp
qed

lemma line_priced:
  assumes m: "loadVenueMenu ven s = Some m" "menu_rows_ok s" "\<forall>x \<in> set (menuItems s). option_ids_unique x"
    and l: "line_ok m l"
  shows "\<exists>d. price_line ven s (wire_line l) = Done d \<and> di_unitPriceKurus d * di_qty d = lineTotal m l"
proof -
  obtain i where i: "i \<in> set (menu_items_of m)" "cl_itemId l = iv_id i" "iv_available i"
    "distinct (cl_optionIds l)" "set (cl_optionIds l) \<subseteq> ov_id ` set (item_options i)"
    "\<forall>g \<in> set (iv_modifierGroups i). gv_minSelect g \<le> int (chosen_in g (cl_optionIds l)) \<and>
       int (chosen_in g (cl_optionIds l)) \<le> gv_maxSelect g"
    using l unfolding line_ok_def by blast
  obtain x where x: "x \<in> set (menuItems s)" "i = item_view_of x" "mi_venueId x = ven"
    by (rule menu_item_row[OF m(1,2) i(1)])
  have id: "mi_id x = cl_itemId l" using i(2) x(2) by (simp add: item_view_of_def)
  have u: "option_ids_unique x" using m(3) x(1) by blast
  obtain y where y: "findFirst (\<lambda>m. mi_id m = cl_itemId l \<and> mi_venueId m = ven) (menuItems s) = Some y"
    using findFirst_Some_ex[OF x(1), of "\<lambda>m. mi_id m = cl_itemId l \<and> mi_venueId m = ven"] id x(3) by auto
  have "y = x"
    using unique_row[of mi_id "menuItems s" y x] m(2) findFirst_SomeD[OF y] x(1) id by (simp add: menu_rows_ok_def)
  let ?c = "chosen_options x (cl_optionIds l)"
  have ids: "set (cl_optionIds l) \<subseteq> ov_id ` set (item_options (item_view_of x))" using i(5) x(2) by simp
  have len: "length ?c = length (cl_optionIds l)" by (simp add: chosen_options_all[OF u ids])
  have "\<not> group_violation ?c g" if g: "g \<in> set (mi_modifierGroups x)" for g
  proof -
    have "group_view_of g \<in> set (iv_modifierGroups i)" using g by (simp add: x(2) item_view_of_def)
    then show ?thesis
      using i(6) chosen_count[OF u g i(4) ids] by (auto simp: group_violation_def group_view_of_def Let_def)
  qed
  then have none: "findFirst (group_violation ?c) (mi_modifierGroups x) = None" by (simp add: findFirst_None_iff)
  have avail: "mi_available x" using i(3) x(2) by (simp add: item_view_of_def)
  have "lineTotal m l = unit_price (item_view_of x) (cl_optionIds l) * cl_qty l"
    using itemById_shown[OF m(1,2) i(1)] by (simp add: lineTotal_def i(2) x(2))
  then show ?thesis
    using y \<open>y = x\<close> avail len none chosen_sum[OF u i(4) ids]
    by (simp add: price_line_def wire_line_def Let_def)
qed

lemma cart_priced:
  assumes "loadVenueMenu ven s = Some m" "menu_rows_ok s" "\<forall>x \<in> set (menuItems s). option_ids_unique x"
    and "list_all (line_ok m) cart"
  shows "\<exists>ds. price_lines ven s (map wire_line cart) (amount, items) = Done (amount + cartTotal m cart, items @ ds)"
  using assms(4)
proof (induction cart arbitrary: amount items)
  case Nil
  then show ?case by (simp add: cartTotal_def)
next
  case (Cons l cart)
  then obtain d :: draft_item where d: "price_line ven s (wire_line l) = Done d" "di_unitPriceKurus d * di_qty d = lineTotal m l"
    using line_priced[OF assms(1-3), of l] by auto
  obtain ds where "price_lines ven s (map wire_line cart) (amount + lineTotal m l, items @ [d]) =
      Done (amount + lineTotal m l + cartTotal m cart, (items @ [d]) @ ds)"
    using Cons.IH[of "amount + lineTotal m l" "items @ [d]"] Cons.prems by auto
  then show ?case using d by (auto simp: cartTotal_def add.assoc)
qed

text \<open>
  C19: what the cart shows is what is ordered. Whatever a guest taps on dish sheets and in the cart,
  while the menu on the phone is the current one the server accepts the lines the cart sends, and
  the order it is about to insert has exactly the total the cart shows. The caps of the route, and
  its bounds on the number of lines and of options in a line, are hypotheses.
\<close>

theorem cart_total_is_charged:
  assumes "reachable (\<lambda>c. c = []) (cart_step m) (ph_cart p)"
    and menu: "loadVenueMenu (as_venueId a) s = Some m" "menu_rows_ok s" "\<forall>x \<in> set (menuItems s). option_ids_unique x"
    and tap: "submit_send fresh p = (Some b, p')" "ph_key p = None" "8 \<le> length fresh" "length fresh \<le> 64"
    and small: "ph_cart p \<noteq> []" "length (ph_cart p) \<le> 30" "list_all (\<lambda>l. length (cl_optionIds l) \<le> 20) (ph_cart p)"
    and caps: "find_replay (as_id a) (Some fresh) s = None" "order_caps_hit a s = (recent, opened)"
      "recent < MAX_ORDERS_PER_SESSION_WINDOW" "opened < MAX_OPEN_ORDERS_PER_TABLE"
  shows "\<exists>input. order_checks zm req a (Some b) s = Inr input \<and> in_totalKurus input = cartTotal m (ph_cart p) \<and>
    in_idempotencyKey input = Some fresh"
proof -
  have b: "b = \<lparr>ob_items = map wire_line (ph_cart p), ob_idempotencyKey = Some fresh\<rparr>"
    using tap(1,2) by (auto simp: submit_send_def Let_def split: if_splits)
  have ok: "list_all (line_ok m) (ph_cart p)" by (rule carts.inv_reachable[OF assms(1)])
  then have "list_all valid_line (map wire_line (ph_cart p))"
    using small(3) by (auto simp: list_all_iff valid_line_def wire_line_def line_ok_def)
  moreover have "1 \<le> length (ph_cart p)" using small(1) by (cases "ph_cart p") auto
  ultimately have "valid_order b" using small(2) tap(3,4) by (simp add: b valid_order_def)
  obtain ds where "price_lines (as_venueId a) s (ob_items b) (0, []) = Done (cartTotal m (ph_cart p), ds)"
    using cart_priced[OF menu ok, of 0 "[]"] by (auto simp: b)
  then show ?thesis
    using \<open>valid_order b\<close> caps by (simp add: order_checks_def Let_def b)
qed

subsection \<open>A dish that was deleted\<close>

definition keyed :: "cart_line \<Rightarrow> bool" where
  "keyed l \<longleftrightarrow> (\<exists>t. cl_key l = lit (cl_itemId l) @ 45 # show_nat t)"

lemma keyed_same: "keyed l \<Longrightarrow> keyed l' \<Longrightarrow> cl_key l = cl_key l' \<Longrightarrow> cl_itemId l = cl_itemId l'"
proof -
  have "45 \<notin> set (show_nat t)" for t using show_nat_digits[of t] by auto
  then show "keyed l \<Longrightarrow> keyed l' \<Longrightarrow> cl_key l = cl_key l' \<Longrightarrow> cl_itemId l = cl_itemId l'"
    unfolding keyed_def by (metis append_sep_inj_last lit_inj)
qed

lemma hidden_line_stays:
  assumes "cart_step m c c'" "list_all keyed c" "l \<in> set c" "itemById m (cl_itemId l) = None" "1 \<le> cl_qty l"
  shows "list_all keyed c' \<and> l \<in> set c'"
  using assms
proof (induction rule: cart_step.induct)
  case (c_add i sh cart t)
  then show ?case by (auto simp: sheet_line_def keyed_def)
next
  case (c_less r cart)
  have "cl_key l \<noteq> cl_key r"
    using c_less keyed_same[of l r] by (auto simp: cart_rows_def list_all_iff)
  moreover have "keyed (x\<lparr>cl_qty := q\<rparr>) = keyed x" for x q by (simp add: keyed_def)
  ultimately show ?case
    using c_less by (auto simp: less_of_def set_updateMany list_all_iff)
next
  case (c_more r cart)
  have "cl_key l \<noteq> cl_key r"
    using c_more keyed_same[of l r] by (auto simp: cart_rows_def list_all_iff)
  moreover have "keyed (x\<lparr>cl_qty := q\<rparr>) = keyed x" for x q by (simp add: keyed_def)
  ultimately show ?case
    using c_more by (force simp: more_of_def set_updateMany list_all_iff)
qed

text \<open>
  a dish that is deleted while it lies in a cart blocks that cart. The cart sheet lists only
  dishes of the menu, so no tap removes or changes the line, the cart never becomes empty, and
  the server refuses every order that is sent with it; a reload restores the same cart.
\<close>

theorem deleted_dish_blocks_cart:
  assumes menu: "loadVenueMenu ven s = Some m" and gone: "cl_itemId l \<notin> mi_id ` set (menuItems s)"
    and cart: "list_all keyed c" "l \<in> set c" "1 \<le> cl_qty l"
    and taps: "(cart_step m)\<^sup>*\<^sup>* c c'"
    and sent: "submit_send fresh p = (Some b, p')" "ph_cart p = c'" "menuItems s' = menuItems s"
  shows "l \<in> set c' \<and> l \<notin> set (cart_rows m c') \<and> order_checks zm req a (Some b) s' \<noteq> Inr input \<and>
    ph_cart (mounted m (persist p) loc) = c'"
proof -
  have hidden: "itemById m (cl_itemId l) = None"
  proof (rule ccontr)
    assume "itemById m (cl_itemId l) \<noteq> None"
    then obtain i where i: "itemById m (cl_itemId l) = Some i" by blast
    have "(cl_itemId l, i) \<in> set (rev (map (\<lambda>i. (iv_id i, i)) (menu_items_of m)))"
      using i unfolding itemById_def by (rule map_of_SomeD)
    then have "i \<in> set (menu_items_of m)" "iv_id i = cl_itemId l" by auto
    then obtain x where "x \<in> set (menuItems s)" "i = item_view_of x"
      using menu by (auto simp: menu_items_of_def loadVenueMenu_def category_view_of_def category_items_def)
    moreover from this have "mi_id x = cl_itemId l" using \<open>iv_id i = cl_itemId l\<close> by (simp add: item_view_of_def)
    ultimately show False using gone by (metis image_eqI)
  qed
  have kept: "list_all keyed c' \<and> l \<in> set c'"
    using taps
  proof (induction rule: rtranclp_induct)
    case base
    then show ?case using cart by simp
  next
    case (step y z)
    then show ?case using hidden_line_stays[OF step(2) _ _ hidden cart(3)] by blast
  qed
  have refused: "order_checks zm req a (Some b) s' \<noteq> Inr input"
  proof
    assume "order_checks zm req a (Some b) s' = Inr input"
    from order_checks_Inr[OF this] have priced: "list_all2 (priced_by (as_venueId a) s') (ob_items b) (in_items input)"
      by auto
    have "wire_line l \<in> set (ob_items b)"
      using kept sent(1,2) by (auto simp: submit_send_def Let_def split: if_splits)
    then obtain d where "priced_by (as_venueId a) s' (wire_line l) d"
      using priced by (metis in_set_conv_nth list_all2_conv_all_nth)
    then obtain x where "x \<in> set (menuItems s)" "mi_id x = cl_itemId l"
      using sent(3) by (auto simp: priced_by_def wire_line_def)
    then show False using gone by (metis image_eqI)
  qed
  show ?thesis
    using kept refused hidden sent(2) by (simp add: cart_rows_def mounted_def restore_def persist_def Let_def)
qed

subsection \<open>A reply that was lost\<close>

text \<open>
  a retry answers for the first order, whatever the cart holds by then. When the reply to an
  order is lost the phone keeps the key of that order; if the guest then changes the cart and
  sends it, the server returns the first order and places nothing, and the phone empties the cart
  and reports the first number as received. With the cart unchanged that is the retry the code
  means to make safe; with a changed cart the change is dropped without a word.
\<close>

theorem retry_answers_for_first_order:
  assumes tap: "submit_send fresh p = (Some b, p1)" "8 \<le> length (the (ph_key p1))" "length (the (ph_key p1)) \<le> 64"
    and placed: "POST_orders busy idle zm oid lineId req (Some b) s = (Ok k, s1)"
    and lost: "p2 = submit_reply None p1"
    and again: "submit_send fresh' (p2\<lparr>ph_cart := cart'\<rparr>) = (Some b', p3)"
      "cart' \<noteq> []" "length cart' \<le> 30" "list_all valid_line (map wire_line cart')"
    and session: "fst (getActiveSession (rq_tableSession req) None s) = Some a"
      "getActiveSession (rq_tableSession req) None s1 = (Some a', s2)" "as_id a' = as_id a"
  shows "POST_orders busy' idle' zm' oid' lineId' req (Some b') s1 = (Ok (k\<lparr>ok_replayed := True\<rparr>), s2) \<and>
    orders s2 = orders s1 \<and>
    ph_cart (submit_reply (Some (Ok (k\<lparr>ok_replayed := True\<rparr>))) p3) = [] \<and>
    ph_toast (submit_reply (Some (Ok (k\<lparr>ok_replayed := True\<rparr>))) p3) = Some (Order_toast (ok_number k))"
proof -
  obtain key where key: "ph_key p1 = Some key" "ob_idempotencyKey b = Some key"
    using tap(1) by (auto simp: submit_send_def Let_def split: if_splits)
  have "ph_key p2 = Some key" by (simp add: lost submit_reply_def key(1))
  then have b': "b' = \<lparr>ob_items = map wire_line cart', ob_idempotencyKey = Some key\<rparr>"
    using again(1) by (auto simp: submit_send_def Let_def split: if_splits)
  have "1 \<le> length cart'" using again(2) by (cases cart') auto
  then have "valid_order b'" using again(3,4) tap(2,3) key(1) by (simp add: valid_order_def b')
  from replay_answers[OF placed key(2) _ this session refl, of busy' idle' zm' oid' lineId']
  show ?thesis by (simp add: b' submit_reply_def loads_def setTab_def)
qed

subsection \<open>The end of the visit\<close>

lemma on_message_settled: "ph_settled p \<Longrightarrow> ph_settled (on_message x p)"
  by (cases x) (simp_all add: loads_def)

lemma fold_messages_settled: "ph_settled p \<Longrightarrow> ph_settled (fold on_message xs p)"
  by (induction xs arbitrary: p) (simp_all add: on_message_settled)

lemma closed_message_settles: "Visit_closed \<in> set xs \<Longrightarrow> ph_settled (fold on_message xs p)"
  by (induction xs arbitrary: p) (auto intro: fold_messages_settled)

text \<open>
  C20: settling a table thanks every phone on it. When the desk settles a visit, each stream that
  is open on that table can go on to write the closing message after what it wrote before, and a
  phone that has read it shows the thank-you screen, whatever it was doing, whichever messages
  came earlier, and even if a failed request had already marked its session as expired.
\<close>

theorem settling_thanks_every_phone:
  assumes settle: "settleVisit vid ven input s = (Done k, s')"
    and c: "findFirst (\<lambda>v. tv_id v = vid \<and> tv_venueId v = ven) (visits s) = Some v"
      "pc_venue c = ven" "pc_table c = tv_tableId v"
    and st: "\<not> st_closed st" "\<not> st_gone st"
  shows "\<exists>st'. (live_step (phone_wants c) (phone_serialize c))\<^sup>*\<^sup>* (s, st) (s', st') \<and>
    st_out st' = st_out st @ [Visit_closed] \<and>
    screen_of (fold on_message (st_out st') p) = Settled_screen"
proof -
  let ?w = "phone_wants c" and ?ser = "phone_serialize c"
  let ?e = "VisitClosed ven vid (tv_tableId v)"
  obtain v' :: visit where "findFirst (\<lambda>v. tv_id v = vid \<and> tv_venueId v = ven) (visits s) = Some v'"
    and "events s' = events s @ [VisitClosed ven vid (tv_tableId v')]"
    by (rule settle_announces[OF settle])
  then have v: "events s' = events s @ [?e]" using c(1) by simp
  let ?st1 = "fold (sse_event ?w) [?e] st"
  have st1: "st_pending ?st1 = st_pending st @ [?e]" "\<not> st_closed ?st1" "\<not> st_gone ?st1" "st_out ?st1 = st_out st"
    using st c(2,3) by (simp_all add: sse_event_def phone_wants_def)
  let ?i = "length (st_pending st)"
  let ?st2 = "sse_settle ?ser s' ?i ?st1"
  have i: "?i < length (st_pending ?st1)" by (simp only: st1(1)) simp
  have "(live_step ?w ?ser)\<^sup>*\<^sup>* (s, st) (s', ?st2)"
    by (rule rtranclp_trans[OF r_into_rtranclp[of "live_step ?w ?ser", OF l_server[OF v]]
          r_into_rtranclp[of "live_step ?w ?ser", OF l_settle[OF i]]])
  moreover have "st_out ?st2 = st_out st @ [Visit_closed]"
    using st1 by (simp add: sse_settle_def write_chunk_def Let_def)
  ultimately show ?thesis
    using closed_message_settles[of "st_out ?st2" p] by (intro exI[of _ ?st2]) (simp add: screen_of_def)
qed

subsection \<open>The language\<close>

text \<open>The venue's own language is offered to no guest: the state it would seed is never empty.\<close>

lemma default_language_unused: "ph_locale (mounted m saved None) = ''tr''"
  by (simp add: mounted_def restore_def seed_locale_def first_render_def Let_def)

subsection \<open>Witnesses\<close>

definition sample_menu :: venue_menu where
  "sample_menu = the (loadVenueMenu ''v1'' sample)"

lemma sample_menu: "loadVenueMenu ''v1'' sample = Some sample_menu"
  by (simp add: sample_menu_def loadVenueMenu_def sample_fields)

lemma sample_menu_items: "menu_items_of sample_menu = [item_view_of sample_item]"
  by (simp add: sample_menu_def menu_items_of_def loadVenueMenu_def listed_categories_def category_view_of_def
      category_items_def orderBy_def sample_fields) (simp add: sample_item_def)

definition large_kofte :: cart_line where
  "large_kofte = sheet_line 7 ((open_sheet (item_view_of sample_item))\<lparr>sh_optionIds := [''o1'']\<rparr>)"

lemma large_kofte_fields:
  "large_kofte = \<lparr>cl_key = lit ''i1'' @ 45 # show_nat 7, cl_itemId = ''i1'', cl_qty = 1, cl_note = [],
     cl_optionIds = [''o1'']\<rparr>"
  by (simp add: large_kofte_def sheet_line_def open_sheet_def item_view_of_def sample_item_def trim_def)

lemma large_kofte_added: "cart_step sample_menu [] [large_kofte]"
proof -
  let ?i = "item_view_of sample_item"
  let ?g = "group_view_of (hd (mi_modifierGroups sample_item))"
  let ?o = "option_view_of (hd (mg_options (hd (mi_modifierGroups sample_item))))"
  have view: "iv_modifierGroups ?i = [?g]" "gv_options ?g = [?o]" "gv_maxSelect ?g = 1" "gv_minSelect ?g = 0"
    "ov_id ?o = ''o1''"
    by (simp_all add: item_view_of_def group_view_of_def option_view_of_def sample_item_def orderBy_def)
  have "sheet_step (open_sheet ?i) ((open_sheet ?i)\<lparr>sh_optionIds := toggle ?g ?o (sh_optionIds (open_sheet ?i))\<rparr>)"
    by (rule sh_toggle) (simp_all add: open_sheet_def view)
  moreover have "toggle ?g ?o (sh_optionIds (open_sheet ?i)) = [''o1'']"
    by (simp add: toggle_def open_sheet_def view Let_def)
  ultimately have steps: "sheet_step\<^sup>*\<^sup>* (open_sheet ?i) ((open_sheet ?i)\<lparr>sh_optionIds := [''o1'']\<rparr>)"
    by (simp add: r_into_rtranclp)
  have "cart_step sample_menu [] ([] @ [large_kofte])"
    unfolding large_kofte_def
  proof (rule c_add[OF _ _ steps])
    show "?i \<in> set (menu_items_of sample_menu)" by (simp add: sample_menu_items)
    show "iv_available ?i" by (simp add: item_view_of_def sample_item_def)
    show "sheet_valid ((open_sheet ?i)\<lparr>sh_optionIds := [''o1'']\<rparr>)"
      by (simp add: sheet_valid_def open_sheet_def view chosen_in_def)
  qed
  then show ?thesis by simp
qed

definition hungry :: phone where
  "hungry = (first_render sample_menu)\<lparr>ph_cart := [large_kofte]\<rparr>"

definition guest :: active_session where
  "guest = \<lparr>as_id = ''s1'', as_venueId = ''v1'', as_tableId = ''t1'', as_tableCode = ''T1'',
     as_tableName = lit ''Masa 1'', as_visitId = Some ''w1''\<rparr>"

lemma hungry_sends:
  "submit_send ''key-0007'' hungry =
   (Some \<lparr>ob_items = [wire_line large_kofte], ob_idempotencyKey = Some ''key-0007''\<rparr>,
    hungry\<lparr>ph_submitting := True, ph_key := Some ''key-0007''\<rparr>)"
  by (simp add: submit_send_def hungry_def first_render_def Let_def)

theorem cart_total_is_charged_witness:
  "\<exists>input. order_checks [] phone1 guest (fst (submit_send ''key-0007'' hungry)) sample = Inr input \<and>
     in_totalKurus input = 1250"
proof -
  have cart: "ph_cart hungry = [large_kofte]" "ph_key hungry = None"
    by (simp_all add: hungry_def first_render_def)
  have reach: "reachable (\<lambda>c. c = []) (cart_step sample_menu) (ph_cart hungry)"
    unfolding cart(1)
    using reach_step[of "\<lambda>c. c = []" "cart_step sample_menu" "[]" "[large_kofte]"] large_kofte_added
    by (simp add: reach_init)
  have rows: "menu_rows_ok sample" by (simp add: menu_rows_ok_def sample_fields sample_item_def)
  have unique: "\<forall>x \<in> set (menuItems sample). option_ids_unique x"
    by (simp add: sample_fields sample_item_def option_ids_unique_def)
  have menu: "loadVenueMenu (as_venueId guest) sample = Some sample_menu" by (simp add: guest_def sample_menu)
  have caps: "find_replay (as_id guest) (Some ''key-0007'') sample = None" "order_caps_hit guest sample = (1, 2)"
    by (simp_all add: find_replay_def order_caps_hit_def countWhere_def guest_def sample_fields sample_order_def
        SESSION_WINDOW_MS_def)
  have total: "cartTotal sample_menu (ph_cart hungry) = 1250"
    by (simp add: cart cartTotal_def lineTotal_def itemById_def sample_menu_items large_kofte_fields unit_price_def
        item_options_def item_view_of_def group_view_of_def option_view_of_def orderBy_def sample_item_def)
  have small: "ph_cart hungry \<noteq> []" "length (ph_cart hungry) \<le> 30"
    "list_all (\<lambda>l. length (cl_optionIds l) \<le> 20) (ph_cart hungry)"
    by (simp_all add: cart large_kofte_fields)
  have limits: "(1::nat) < MAX_ORDERS_PER_SESSION_WINDOW" "(2::nat) < MAX_OPEN_ORDERS_PER_TABLE"
    by (simp_all add: MAX_ORDERS_PER_SESSION_WINDOW_def MAX_OPEN_ORDERS_PER_TABLE_def)
  have "fst (submit_send ''key-0007'' hungry) =
      Some \<lparr>ob_items = [wire_line large_kofte], ob_idempotencyKey = Some ''key-0007''\<rparr>"
    by (simp add: hungry_sends)
  with cart_total_is_charged[OF reach menu rows unique hungry_sends cart(2) _ _ small caps limits, of "[]" phone1]
  show ?thesis unfolding total by auto
qed

definition without_kofte :: server where
  "without_kofte = sample\<lparr>menuItems := []\<rparr>"

theorem deleted_dish_blocks_cart_witness:
  "\<exists>m. loadVenueMenu ''v1'' without_kofte = Some m \<and> large_kofte \<notin> set (cart_rows m [large_kofte])"
proof -
  obtain m where m: "loadVenueMenu ''v1'' without_kofte = Some m"
    by (simp add: loadVenueMenu_def without_kofte_def sample_fields)
  have "cl_itemId large_kofte \<notin> mi_id ` set (menuItems without_kofte)" by (simp add: without_kofte_def)
  moreover have "list_all keyed [large_kofte]" "large_kofte \<in> set [large_kofte]" "1 \<le> cl_qty large_kofte"
    by (auto simp: keyed_def large_kofte_fields)
  moreover have "ph_cart hungry = [large_kofte]" by (simp add: hungry_def)
  ultimately show ?thesis
    using deleted_dish_blocks_cart[OF m _ _ _ _ rtranclp.rtrancl_refl hungry_sends _ refl] m by blast
qed

theorem settling_thanks_every_phone_witness:
  "\<exists>st :: stream. st_out st = [Connected, Visit_closed] \<and> screen_of (fold on_message (st_out st) hungry) = Settled_screen"
proof -
  let ?c = "\<lparr>pc_session = ''s2'', pc_table = ''t1'', pc_venue = ''v1''\<rparr>"
  have v: "findFirst (\<lambda>v. tv_id v = ''w1'' \<and> tv_venueId v = ''v1'') (visits sample) = Some sample_visit"
    by (simp add: sample_fields sample_visit_def)
  have c: "pc_venue ?c = ''v1''" "pc_table ?c = tv_tableId sample_visit" by (simp_all add: sample_visit_def)
  have st: "\<not> st_closed sse_open" "\<not> st_gone sse_open" "st_out sse_open = [Connected]"
    by (simp_all add: sse_open_def write_chunk_def)
  from settling_thanks_every_phone[OF sample_settle v c st(1,2), of hungry]
  obtain st :: stream where "st_out st = st_out sse_open @ [Visit_closed]"
    "screen_of (fold on_message (st_out st) hungry) = Settled_screen" by blast
  then show ?thesis using st(3) by (intro exI[of _ st]) auto
qed

text \<open>The phone that sent the order of the sample body.\<close>

definition waiting :: phone where
  "waiting = (first_render sample_menu)\<lparr>ph_cart := [\<lparr>cl_key = [], cl_itemId = ''i1'', cl_qty = 2,
     cl_note = [], cl_optionIds = [''o1'']\<rparr>]\<rparr>"

lemma waiting_sends:
  "submit_send ''key-0001'' waiting =
   (Some sample_body, waiting\<lparr>ph_submitting := True, ph_key := Some ''key-0001''\<rparr>)"
  by (simp add: submit_send_def waiting_def first_render_def sample_body_def wire_line_def Let_def)

lemma sample_placed_frame:
  "sessions (snd sample_placed) = sessions sample" "tables (snd sample_placed) = tables sample"
  "now (snd sample_placed) = now sample"
  by (simp_all add: sample_placed_def POST_orders_def sample_session_live order_checks_def sample_body_def
      valid_order_def valid_line_def find_replay_def has_key_def order_caps_hit_def countWhere_def
      SESSION_WINDOW_MS_def MAX_ORDERS_PER_SESSION_WINDOW_def MAX_OPEN_ORDERS_PER_TABLE_def
      price_line_def chosen_options_def option_of_def all_options_def group_violation_def map_filter_simps
      option_sum_def createOrderWithNextNumber_def NUMBER_RETRIES_def numeral_eq_Suc
      last_number_def insert_order_def order_of_input_def order_finish_def orderByDesc_def sample_defs int4_def
      item_of_draft_def Let_def)

theorem retry_answers_for_first_order_witness:
  "fst (POST_orders alone alone [] ''o4'' (\<lambda>i. []) phone1
     (fst (submit_send ''key-0002'' ((submit_reply None (snd (submit_send ''key-0001'' waiting)))\<lparr>ph_cart := [large_kofte]\<rparr>)))
     (snd sample_placed)) = Ok \<lparr>ok_orderId = ''o3'', ok_number = 3, ok_replayed = True\<rparr>"
proof -
  let ?p1 = "waiting\<lparr>ph_submitting := True, ph_key := Some ''key-0001''\<rparr>"
  let ?p2 = "submit_reply None ?p1"
  obtain b' p3 where again: "submit_send ''key-0002'' (?p2\<lparr>ph_cart := [large_kofte]\<rparr>) = (Some b', p3)"
    by (simp add: submit_send_def submit_reply_def Let_def)
  have live: "getActiveSession (rq_tableSession phone1) None (snd sample_placed) = (Some guest, snd sample_placed)"
    by (simp add: getActiveSession_def phone1_def bare_request_def sample_placed_frame guest_def sample_defs
        IDLE_MS_def TOUCH_INTERVAL_MS_def)
  have "fst (getActiveSession (rq_tableSession phone1) None sample) = Some guest"
    by (simp add: sample_session_live guest_def)
  moreover have "fst (submit_send ''key-0002'' ((submit_reply None (snd (submit_send ''key-0001'' waiting)))
      \<lparr>ph_cart := [large_kofte]\<rparr>)) = Some b'"
    unfolding waiting_sends snd_conv again by simp
  moreover have "list_all valid_line (map wire_line [large_kofte])"
    by (simp add: large_kofte_fields wire_line_def valid_line_def)
  ultimately show ?thesis
    using retry_answers_for_first_order[OF waiting_sends _ _ sample_placed_run refl again _ _ _ _ live,
        of guest alone alone "[]" "''o4''" "\<lambda>i. []"] by simp
qed

end
