(* ===== verification/Decimal.thy ===== *)
theory Decimal
  imports Complex_Main Qr
begin

section \<open>Numbers as the browser reads and prints them\<close>

text \<open>
  What the price boxes of the menu editor use of JavaScript: \<open>parseFloat\<close>, multiplication of
  doubles, \<open>Math.round\<close> and \<open>toString\<close>. A finite double is the rational number it is; every
  arithmetic result is rounded to 53 significant bits, ties to even, as IEEE 754 has it, with
  gradual underflow and overflow to infinity.
\<close>

subsection \<open>Rounding to a double\<close>

datatype number = Nan | Infty bool | Num rat

definition round_even :: "rat \<Rightarrow> int" where
  "round_even x = (let f = \<lfloor>x\<rfloor>; d = x - of_int f in
     if d < 1 / 2 then f else if 1 / 2 < d then f + 1 else if even f then f else f + 1)"

text \<open>The exponent of the last bit: the greatest that leaves 53 bits, at least \<open>-1074\<close>.\<close>

definition last_bit :: "rat \<Rightarrow> int" where
  "last_bit x = (case find (\<lambda>e. 2 powi (e + 52) \<le> x) (rev (map (\<lambda>n. int n - 1074) [0..<2046])) of
     Some e \<Rightarrow> e | None \<Rightarrow> -1074)"

definition fl :: "rat \<Rightarrow> number" where
  "fl x = (let e = last_bit \<bar>x\<bar>; y = of_int (round_even (\<bar>x\<bar> / 2 powi e)) * 2 powi e in
     if 2 powi 1024 \<le> y then Infty (x < 0) else Num (sgn x * y))"

fun times :: "number \<Rightarrow> rat \<Rightarrow> number" where
  "times Nan y = Nan"
| "times (Infty neg) y = (if y = 0 then Nan else Infty (neg \<noteq> (y < 0)))"
| "times (Num x) y = fl (x * y)"

text \<open>\<open>Math.round\<close>: the nearest integer, ties upwards.\<close>

fun math_round :: "number \<Rightarrow> number" where
  "math_round (Num x) = Num (of_int \<lfloor>x + 1 / 2\<rfloor>)"
| "math_round n = n"

fun negate :: "number \<Rightarrow> number" where
  "negate Nan = Nan"
| "negate (Infty neg) = Infty (\<not> neg)"
| "negate (Num x) = Num (- x)"

subsection \<open>Reading a number\<close>

definition is_digit :: "nat \<Rightarrow> bool" where
  "is_digit c \<longleftrightarrow> 48 \<le> c \<and> c \<le> 57"

text \<open>The exponent part, if a complete one follows.\<close>

definition exponent_of :: "jstr \<Rightarrow> int" where
  "exponent_of s =
     (case s of
        [] \<Rightarrow> 0
      | c # r \<Rightarrow>
          if c = 101 \<or> c = 69
          then (case r of
              [] \<Rightarrow> 0
            | d # r' \<Rightarrow>
                if d = 45 then - int (digits_value (takeWhile is_digit r'))
                else if d = 43 then int (digits_value (takeWhile is_digit r'))
                else int (digits_value (takeWhile is_digit r)))
          else 0)"

definition parse_unsigned :: "jstr \<Rightarrow> number" where
  "parse_unsigned s =
     (if take 8 s = lit ''Infinity'' then Infty False
      else (let ip = takeWhile is_digit s; r = dropWhile is_digit s;
                fp = (case r of [] \<Rightarrow> [] | c # r' \<Rightarrow> if c = 46 then takeWhile is_digit r' else []);
                r2 = (case r of [] \<Rightarrow> [] | c # r' \<Rightarrow> if c = 46 then dropWhile is_digit r' else r)
            in if ip = [] \<and> fp = [] then Nan
               else fl (of_nat (digits_value (ip @ fp)) * 10 powi (exponent_of r2 - int (length fp)))))"

definition parseFloat :: "jstr \<Rightarrow> number" where
  "parseFloat text =
     (let s = dropWhile is_ws text in
      case s of
        [] \<Rightarrow> Nan
      | c # r \<Rightarrow> if c = 45 then negate (parse_unsigned r) else if c = 43 then parse_unsigned r
          else parse_unsigned s)"

text \<open>\<open>s.replace(",", ".")\<close>, which changes the first comma only.\<close>

fun comma_to_dot :: "jstr \<Rightarrow> jstr" where
  "comma_to_dot [] = []"
| "comma_to_dot (c # cs) = (if c = 44 then 46 # cs else c # comma_to_dot cs)"

text \<open>
  \<open>(k / 100).toString()\<close> for an integer with at most fifteen digits: the shortest decimal that
  reads back as that double is the decimal fraction itself, without trailing zeros.
\<close>

definition hundredths :: "int \<Rightarrow> jstr" where
  "hundredths k =
     (let n = nat \<bar>k\<bar>; r = n mod 100
      in (if k < 0 then [45] else []) @ show_nat (n div 100) @
         (if r = 0 then [] else if r mod 10 = 0 then [46, 48 + r div 10] else [46, 48 + r div 10, 48 + r mod 10]))"

subsection \<open>The error of a rounding\<close>

lemma round_even_err: "\<bar>of_int (round_even x) - x\<bar> \<le> 1 / 2"
proof -
  have "of_int \<lfloor>x\<rfloor> \<le> x" "x < of_int \<lfloor>x\<rfloor> + 1" by linarith+
  then show ?thesis by (auto simp: round_even_def Let_def abs_le_iff)
qed

lemma last_bit_le:
  assumes "2 powi (-1022) \<le> x"
  shows "2 powi (last_bit x + 52) \<le> x"
proof -
  let ?es = "rev (map (\<lambda>n. int n - 1074) [0..<2046])"
  have a: "-1074 \<in> set ?es" by (auto intro!: image_eqI[of _ _ 0])
  have "(-1074 + 52 :: int) = -1022" by simp
  then have b: "2 powi (-1074 + 52) \<le> x" using assms by (simp only:)
  have "find (\<lambda>e. 2 powi (e + 52) \<le> x) ?es \<noteq> None"
    unfolding find_None_iff using a b by blast
  then obtain e where e: "find (\<lambda>e. 2 powi (e + 52) \<le> x) ?es = Some e" by auto
  then have "2 powi (e + 52) \<le> x" by (auto simp: find_Some_iff)
  then show ?thesis unfolding last_bit_def e by simp
qed

lemma fl_err:
  assumes "2 powi (-1022) \<le> \<bar>x\<bar>" and "\<bar>x\<bar> \<le> 2 ^ 1000"
  shows "\<exists>y. fl x = Num y \<and> \<bar>y - x\<bar> \<le> \<bar>x\<bar> / 2 ^ 53"
proof -
  have "0 < (2 :: rat) powi (-1022)" by (rule zero_less_power_int) simp
  then have "x \<noteq> 0" using assms(1) by auto
  define u :: rat where "u = 2 powi last_bit \<bar>x\<bar>"
  define m :: rat where "m = of_int (round_even (\<bar>x\<bar> / u))"
  have u: "0 < u" by (simp add: u_def)
  have "2 powi (last_bit \<bar>x\<bar> + 52) = u * 2 ^ 52" by (simp add: u_def power_int_add)
  then have ux: "u * 2 ^ 52 \<le> \<bar>x\<bar>" using last_bit_le[OF assms(1)] by simp
  have "\<bar>m * u - \<bar>x\<bar>\<bar> = u * \<bar>m - \<bar>x\<bar> / u\<bar>"
    using u by (simp add: abs_mult[symmetric] field_simps)
  also have "\<dots> \<le> u * (1 / 2)"
    using round_even_err[of "\<bar>x\<bar> / u"] u unfolding m_def by (intro mult_left_mono) simp_all
  also have "\<dots> \<le> \<bar>x\<bar> / 2 ^ 53" using ux by simp
  finally have err: "\<bar>m * u - \<bar>x\<bar>\<bar> \<le> \<bar>x\<bar> / 2 ^ 53" .
  have "\<bar>x\<bar> / 2 ^ 53 \<le> \<bar>x\<bar>" by (simp add: field_simps)
  with err have "m * u \<le> 2 * \<bar>x\<bar>" using abs_ge_self[of "m * u - \<bar>x\<bar>"] by linarith
  also have "\<dots> \<le> 2 * 2 ^ 1000" using assms(2) by simp
  also have "\<dots> < 2 powi 1024" by simp
  finally have "fl x = Num (sgn x * (m * u))" by (simp add: fl_def Let_def u_def m_def)
  moreover have "\<bar>sgn x * (m * u) - x\<bar> = \<bar>m * u - \<bar>x\<bar>\<bar>"
    using \<open>x \<noteq> 0\<close> by (cases "x < 0") (auto simp: sgn_if abs_if)
  ultimately show ?thesis using err by auto
qed

text \<open>An amount in lira with at most two decimals survives the way through doubles.\<close>

lemma hundredth_small:
  fixes k :: int
  assumes "k \<noteq> 0" and "\<bar>k\<bar> < 2 ^ 31"
  shows "2 powi (-1022) \<le> \<bar>of_int k / 100 :: rat\<bar>" and "\<bar>of_int k / 100 :: rat\<bar> \<le> 2 ^ 1000"
proof -
  have "1 \<le> \<bar>k\<bar>" using assms(1) by simp
  then have k: "1 \<le> \<bar>of_int k :: rat\<bar>" by (metis of_int_1_le_iff of_int_abs)
  have "(2 :: rat) powi (-1022) \<le> 2 powi (-7)" by (rule power_int_increasing) simp_all
  also have "(2 :: rat) powi (-7) = 1 / 128" by (simp add: power_int_minus)
  also have "\<dots> \<le> \<bar>of_int k / 100 :: rat\<bar>" using k by (simp add: abs_divide)
  finally show "2 powi (-1022) \<le> \<bar>of_int k / 100 :: rat\<bar>" .
  have "\<bar>of_int k :: rat\<bar> < 2 ^ 31" using assms(2) by (metis of_int_abs of_int_less_iff of_int_numeral of_int_power)
  then have "\<bar>of_int k / 100 :: rat\<bar> \<le> 2 ^ 31" by (simp add: abs_divide)
  also have "\<dots> \<le> (2 :: rat) ^ 1000" by (rule power_increasing) simp_all
  finally show "\<bar>of_int k / 100 :: rat\<bar> \<le> 2 ^ 1000" .
qed

lemma fl_zero [simp]: "fl 0 = Num 0"
  by (simp add: fl_def Let_def round_even_def)

lemma hundred_times:
  fixes k :: int
  assumes "\<bar>k\<bar> < 2 ^ 31"
  shows "math_round (times (fl (of_int k / 100)) 100) = Num (of_int k)"
proof (cases "k = 0")
  case True
  have "\<lfloor>1 / 2 :: rat\<rfloor> = 0" by (intro floor_unique) simp_all
  then show ?thesis using True by simp
next
  case False
  let ?x = "of_int k / 100 :: rat"
  note s = hundredth_small[OF False assms]
  obtain y where y: "fl ?x = Num y" "\<bar>y - ?x\<bar> \<le> \<bar>?x\<bar> / 2 ^ 53" using fl_err[OF s] by blast
  have kr: "\<bar>of_int k :: rat\<bar> < 2 ^ 31" using assms by (metis of_int_abs of_int_less_iff of_int_numeral of_int_power)
  have "\<bar>k\<bar> \<ge> 1" using False by simp
  then have k1: "1 \<le> \<bar>of_int k :: rat\<bar>" by (metis of_int_1_le_iff of_int_abs)
  have e1: "\<bar>y * 100 - of_int k\<bar> \<le> \<bar>of_int k\<bar> / 2 ^ 53"
  proof -
    have "\<bar>y * 100 - of_int k\<bar> = 100 * \<bar>y - ?x\<bar>" by (simp add: abs_mult[symmetric] field_simps)
    also have "\<dots> \<le> 100 * (\<bar>?x\<bar> / 2 ^ 53)" using y(2) by (intro mult_left_mono) simp_all
    finally show ?thesis by (simp add: abs_divide)
  qed
  have small: "\<bar>of_int k\<bar> / 2 ^ 53 \<le> (1 / 2 ^ 22 :: rat)" using kr by (simp add: field_simps)
  have "\<bar>y * 100 - of_int k\<bar> \<le> 1 / 2 ^ 22" using e1 small by linarith
  then have d: "\<bar>y * 100 - of_int k\<bar> \<le> 1 / 4" by simp
  have up: "\<bar>y * 100\<bar> \<le> 2 * \<bar>of_int k\<bar>" "1 / 2 \<le> \<bar>y * 100\<bar>"
    using d k1 by linarith+
  have b: "2 powi (-1022) \<le> \<bar>y * 100\<bar>" "\<bar>y * 100\<bar> \<le> 2 ^ 1000"
  proof -
    have "(2 :: rat) powi (-1022) \<le> 2 powi (-1)" by (rule power_int_increasing) simp_all
    also have "\<dots> = 1 / 2" by (simp add: power_int_minus)
    finally show "2 powi (-1022) \<le> \<bar>y * 100\<bar>" using up(2) by linarith
    have "2 * (2 :: rat) ^ 31 = 2 ^ 32" by simp
    then have "\<bar>y * 100\<bar> \<le> 2 ^ 32" using up(1) kr by linarith
    also have "\<dots> \<le> (2 :: rat) ^ 1000" by (rule power_increasing) simp_all
    finally show "\<bar>y * 100\<bar> \<le> 2 ^ 1000" .
  qed
  obtain z where z: "fl (y * 100) = Num z" "\<bar>z - y * 100\<bar> \<le> \<bar>y * 100\<bar> / 2 ^ 53" using fl_err[OF b] by blast
  have "\<bar>y * 100\<bar> / 2 ^ 53 \<le> (1 / 2 ^ 21 :: rat)" using up(1) kr by (simp add: field_simps)
  then have "\<bar>z - y * 100\<bar> \<le> 1 / 2 ^ 21" using z(2) by linarith
  then have "\<bar>z - y * 100\<bar> \<le> 1 / 8" by simp
  then have zk: "\<bar>z - of_int k\<bar> < 1 / 2" using d by linarith
  have "\<lfloor>z + 1 / 2\<rfloor> = k"
  proof (rule floor_unique)
    show "of_int k \<le> z + 1 / 2" using zk by linarith
    show "z + 1 / 2 < of_int k + 1" using zk by linarith
  qed
  then show ?thesis by (simp add: y(1) z(1))
qed

subsection \<open>Reading back a decimal\<close>

definition all_digits :: "jstr \<Rightarrow> bool" where
  "all_digits ds \<longleftrightarrow> list_all is_digit ds"

lemma take_digits:
  assumes "all_digits ds" and "s = [] \<or> \<not> is_digit (hd s)"
  shows "takeWhile is_digit (ds @ s) = ds" and "dropWhile is_digit (ds @ s) = s"
  using assms
  by (cases s; simp add: all_digits_def list_all_iff takeWhile_append2 dropWhile_append2)+

lemma digit_not_ws: "is_digit c \<Longrightarrow> \<not> is_ws c"
  by (auto simp: is_digit_def is_ws_def)

lemma parse_digits:
  assumes "all_digits ip" and "ip \<noteq> []" and "all_digits fp"
    and "rest = [] \<or> (\<not> is_digit (hd rest) \<and> hd rest \<notin> {101, 69})"
  shows "parseFloat (ip @ 46 # fp @ rest) = fl (of_nat (digits_value (ip @ fp)) / 10 ^ length fp)"
    and "rest = [] \<or> hd rest \<noteq> 46 \<Longrightarrow> parseFloat (ip @ rest) = fl (of_nat (digits_value ip))"
proof -
  obtain c cs where ip: "ip = c # cs" "is_digit c" using assms(1,2) by (cases ip) (auto simp: all_digits_def)
  have c: "c \<noteq> 45" "c \<noteq> 43" "c \<noteq> 73" "\<not> is_ws c" using ip(2) digit_not_ws by (auto simp: is_digit_def)
  have start: "parseFloat (ip @ s) = parse_unsigned (ip @ s)" for s
    using c by (simp add: parseFloat_def ip(1))
  have inf: "take 8 (ip @ s) \<noteq> lit ''Infinity''" for s
    using c(3) by (simp add: ip(1) lit_def)
  have ex: "exponent_of rest = 0" using assms(4) by (cases rest) (auto simp: exponent_of_def)
  have nd: "rest = [] \<or> \<not> is_digit (hd rest)" using assms(4) by blast
  note r1 = take_digits[OF assms(1), of "46 # fp @ rest"] take_digits[OF assms(3) nd]
  have "10 powi (- int (length fp)) = (1 / 10 ^ length fp :: rat)"
    by (simp add: power_int_minus inverse_eq_divide)
  then show "parseFloat (ip @ 46 # fp @ rest) = fl (of_nat (digits_value (ip @ fp)) / 10 ^ length fp)"
    using r1 assms(2,4) ex inf[of "46 # fp @ rest"]
    by (simp add: start parse_unsigned_def Let_def is_digit_def)
  note r2 = take_digits[OF assms(1) nd]
  show "parseFloat (ip @ rest) = fl (of_nat (digits_value ip))" if dot: "rest = [] \<or> hd rest \<noteq> 46"
  proof (cases rest)
    case Nil
    have d: "takeWhile is_digit ip = ip" "dropWhile is_digit ip = []" using r2 Nil by simp_all
    show ?thesis using start[of "[]"] inf[of "[]"] ex assms(2)
      by (simp add: Nil parse_unsigned_def Let_def d)
  next
    case (Cons c cs)
    then show ?thesis using r2 assms(2,4) ex dot inf[of rest]
      by (auto simp: start parse_unsigned_def Let_def)
  qed
qed

lemma digits_value_append: "digits_value (ds @ es) = digits_value ds * 10 ^ length es + digits_value es"
proof (induction es rule: rev_induct)
  case Nil
  then show ?case by (simp add: digits_value_def)
next
  case (snoc e es)
  then show ?case by (simp add: digits_value_def algebra_simps)
qed

lemma comma_to_dot_none: "44 \<notin> set s \<Longrightarrow> comma_to_dot s = s"
  by (induction s) auto

lemma comma_to_dot_first: "44 \<notin> set s \<Longrightarrow> comma_to_dot (s @ 44 # t) = s @ 46 # t"
  by (induction s) auto

lemma show_nat_all_digits: "all_digits (show_nat n)"
  using show_nat_digits[of n] by (simp add: all_digits_def list_all_iff is_digit_def)

lemma show_nat_not_Nil: "show_nat n \<noteq> []"
  by (subst show_nat.simps) simp

lemma digits_no_comma: "all_digits ds \<Longrightarrow> 44 \<notin> set ds"
  by (auto simp: all_digits_def list_all_iff is_digit_def)

subsection \<open>Amounts\<close>

text \<open>\<open>Math.round(parseFloat(text.replace(",", ".")) * 100)\<close>.\<close>

definition kurus_typed :: "jstr \<Rightarrow> number" where
  "kurus_typed text = math_round (times (parseFloat (comma_to_dot text)) 100)"

lemma kurus_digits:
  assumes "all_digits ip" and "ip \<noteq> []" and "all_digits fp" and "length fp \<le> 2" and "sep \<in> {44, 46}"
    and "k = 100 * int (digits_value ip) + int (digits_value fp) * 10 ^ (2 - length fp)" and "k < 2 ^ 31"
  shows "kurus_typed (ip @ sep # fp) = Num (of_int k)"
    and "fp = [] \<Longrightarrow> kurus_typed ip = Num (of_int k)"
proof -
  have dot: "comma_to_dot (ip @ sep # fp) = ip @ 46 # fp"
    using assms(1,3,5) digits_no_comma comma_to_dot_first[of ip fp] comma_to_dot_none[of "ip @ 46 # fp"] by auto
  have p2: "(10 :: rat) ^ (2 - length fp) * 10 ^ length fp = 100"
    using assms(4) by (simp add: power_add[symmetric])
  have "of_nat (digits_value (ip @ fp)) / 10 ^ length fp = (of_int k / 100 :: rat)"
  proof -
    have "(of_int k :: rat) * 10 ^ length fp =
        (of_nat (digits_value ip) * 10 ^ length fp + of_nat (digits_value fp)) * 100"
      unfolding assms(6) using p2 by (simp add: algebra_simps)
    then show ?thesis by (simp add: digits_value_append field_simps)
  qed
  then have "parseFloat (ip @ 46 # fp) = fl (of_int k / 100)"
    using parse_digits(1)[OF assms(1-3), of "[]"] by (simp only: append_Nil2 simp_thms)
  moreover have "\<bar>k\<bar> < 2 ^ 31" using assms(6,7) by simp
  ultimately show "kurus_typed (ip @ sep # fp) = Num (of_int k)"
    unfolding kurus_typed_def dot by (simp only: hundred_times)
  assume fp: "fp = []"
  have "kurus_typed ip = math_round (times (fl (of_nat (digits_value ip))) 100)"
    using parse_digits(2)[OF assms(1-3), of "[]"] comma_to_dot_none[OF digits_no_comma[OF assms(1)]]
    by (simp add: kurus_typed_def)
  also have "(of_nat (digits_value ip) :: rat) = of_int k / 100"
    using assms(6) fp by (simp add: digits_value_def)
  finally show "kurus_typed ip = Num (of_int k)" unfolding hundred_times[OF \<open>\<bar>k\<bar> < 2 ^ 31\<close>] .
qed

text \<open>What the editor shows for a price is read back as that price.\<close>

lemma price_text_reads_back:
  assumes "0 \<le> k" and "k < 2 ^ 31"
  shows "kurus_typed (hundredths k) = Num (of_int k)"
proof -
  define n where "n = nat k"
  let ?q = "show_nat (n div 100)"
  have k: "k = int n" "nat \<bar>k\<bar> = n" using assms(1) by (simp_all add: n_def)
  have q: "all_digits ?q" "?q \<noteq> []" "digits_value ?q = n div 100"
    by (simp_all add: show_nat_all_digits show_nat_not_Nil digits_value_show)
  define a where "a = n mod 100 div 10"
  define b where "b = n mod 100 mod 10"
  have nab: "int n = 100 * int (n div 100) + 10 * int a + int b"
  proof -
    have "n = 100 * (n div 100) + n mod 100" by (rule mult_div_mod_eq[symmetric])
    moreover have "n mod 100 = 10 * a + b" unfolding a_def b_def by (rule mult_div_mod_eq[symmetric])
    ultimately have "n = 100 * (n div 100) + 10 * a + b" by linarith
    from arg_cong[OF this, of int] show ?thesis by (simp only: of_nat_add of_nat_mult of_nat_numeral)
  qed
  have ab: "a < 10" "b < 10" "n mod 100 = 10 * a + b" by (auto simp: a_def b_def)
  consider "a = 0" "b = 0" | "a \<noteq> 0" "b = 0" | "b \<noteq> 0" by blast
  then show ?thesis
  proof cases
    case 1
    have "k = 100 * int (digits_value ?q) + int (digits_value []) * 10 ^ (2 - length ([] :: jstr))"
      unfolding k(1) q(3) nab by (simp add: digits_value_def 1)
    then show ?thesis
      using kurus_digits(2)[OF q(1,2), of "[]" 46 k] 1 assms(2) k ab(3)
      by (simp add: hundredths_def all_digits_def Let_def)
  next
    case 2
    have "k = 100 * int (digits_value ?q) + int (digits_value [48 + a]) * 10 ^ (2 - length [48 + a])"
      unfolding k(1) q(3) nab by (simp add: digits_value_def 2)
    moreover have "all_digits [48 + a]" using ab by (simp add: all_digits_def is_digit_def)
    moreover have "hundredths k = ?q @ 46 # [48 + a]"
      using 2 ab k by (simp add: hundredths_def Let_def)
    ultimately show ?thesis
      using kurus_digits(1)[OF q(1,2), of "[48 + a]" 46 k] assms(2) by simp
  next
    case 3
    have "k = 100 * int (digits_value ?q) + int (digits_value [48 + a, 48 + b]) * 10 ^ (2 - length [48 + a, 48 + b])"
      unfolding k(1) q(3) nab by (simp add: digits_value_def)
    moreover have "all_digits [48 + a, 48 + b]" using ab by (simp add: all_digits_def is_digit_def)
    moreover have "hundredths k = ?q @ 46 # [48 + a, 48 + b]"
      using 3 ab k by (simp add: hundredths_def Let_def)
    ultimately show ?thesis
      using kurus_digits(1)[OF q(1,2), of "[48 + a, 48 + b]" 46 k] assms(2) by simp
  qed
qed

end
