(* ===== verification/Editor.thy ===== *)
theory Editor
  imports Phone Decimal
begin

section \<open>The menu editor of the admin app\<close>

text \<open>
  \<open>src/components/admin/ItemEditor.tsx\<close> and \<open>src/components/admin/MenuTab.tsx\<close>: the dialog that
  edits a dish, with its price boxes and option groups, and the tab with its search, its
  availability switch and its category dialog. A React state is a field of a record; a save is
  what it sends and what it does with the reply. A box of type number delivers an argument, the
  integer \<open>Number\<close> makes of it; a surcharge that is not finite is left as it was. Markup and
  texts are left out; an error is the case it stands for.
\<close>

subsection \<open>The dish dialog\<close>

datatype editor_error = Upload_failed | Name_price_required | Not_saved

record item_editor =
  ie_item :: "menu_item option"
  ie_categoryId :: id
  ie_nameTr :: jstr
  ie_nameEn :: jstr
  ie_descTr :: jstr
  ie_descEn :: jstr
  ie_priceTl :: jstr
  ie_tags :: jstr
  ie_photoUrl :: jstr
  ie_available :: bool
  ie_groups :: "group_input list"
  ie_busy :: bool
  ie_uploading :: bool
  ie_error :: "editor_error option"

definition option_form :: "modifier_option \<Rightarrow> option_input" where
  "option_form o' = \<lparr>on_nameTr = mo_nameTr o', on_nameEn = mo_nameEn o', on_priceDeltaKurus = mo_priceDeltaKurus o'\<rparr>"

definition group_form :: "modifier_group \<Rightarrow> group_input" where
  "group_form g = \<lparr>gn_nameTr = mg_nameTr g, gn_nameEn = mg_nameEn g, gn_minSelect = mg_minSelect g,
     gn_maxSelect = mg_maxSelect g, gn_options = map option_form (mg_options g)\<rparr>"

definition open_editor :: "menu_item option \<Rightarrow> category_row list \<Rightarrow> item_editor" where
  "open_editor item cats =
     (case item of
        Some i \<Rightarrow> \<lparr>ie_item = item, ie_categoryId = mi_categoryId i, ie_nameTr = mi_nameTr i, ie_nameEn = mi_nameEn i,
          ie_descTr = mi_descTr i, ie_descEn = mi_descEn i, ie_priceTl = hundredths (mi_priceKurus i),
          ie_tags = mi_tags i, ie_photoUrl = (case mi_photoUrl i of None \<Rightarrow> [] | Some u \<Rightarrow> u),
          ie_available = mi_available i, ie_groups = map group_form (mi_modifierGroups i),
          ie_busy = False, ie_uploading = False, ie_error = None\<rparr>
      | None \<Rightarrow> \<lparr>ie_item = None, ie_categoryId = (case cats of [] \<Rightarrow> [] | c # _ \<Rightarrow> cat_id (cr_category c)),
          ie_nameTr = [], ie_nameEn = [], ie_descTr = [], ie_descEn = [], ie_priceTl = [], ie_tags = [],
          ie_photoUrl = [], ie_available = True, ie_groups = [], ie_busy = False, ie_uploading = False,
          ie_error = None\<rparr>)"

definition upload_send :: "item_editor \<Rightarrow> item_editor" where
  "upload_send e = e\<lparr>ie_uploading := True, ie_error := None\<rparr>"

definition upload_reply :: "(jstr \<times> nat \<times> nat) response option \<Rightarrow> item_editor \<Rightarrow> item_editor" where
  "upload_reply r e0 =
     (let e = e0\<lparr>ie_uploading := False\<rparr>
      in case r of Some (Ok (url, _, _)) \<Rightarrow> e\<lparr>ie_photoUrl := url\<rparr> | _ \<Rightarrow> e\<lparr>ie_error := Some Upload_failed\<rparr>)"

subsection \<open>Option groups\<close>

definition new_option :: option_input where
  "new_option = \<lparr>on_nameTr = [], on_nameEn = [], on_priceDeltaKurus = 0\<rparr>"

definition new_group :: group_input where
  "new_group = \<lparr>gn_nameTr = [], gn_nameEn = [], gn_minSelect = 0, gn_maxSelect = 1, gn_options = [new_option]\<rparr>"

definition change_at :: "nat \<Rightarrow> ('a \<Rightarrow> 'a) \<Rightarrow> 'a list \<Rightarrow> 'a list" where
  "change_at n f xs = map (\<lambda>(i, x). if i = n then f x else x) (enumerate 0 xs)"

definition drop_at :: "nat \<Rightarrow> 'a list \<Rightarrow> 'a list" where
  "drop_at n xs = map snd (filter (\<lambda>(i, x). i \<noteq> n) (enumerate 0 xs))"

definition add_group :: "item_editor \<Rightarrow> item_editor" where
  "add_group e = e\<lparr>ie_groups := ie_groups e @ [new_group]\<rparr>"

definition remove_group :: "nat \<Rightarrow> item_editor \<Rightarrow> item_editor" where
  "remove_group gi e = e\<lparr>ie_groups := drop_at gi (ie_groups e)\<rparr>"

definition edit_group :: "nat \<Rightarrow> (group_input \<Rightarrow> group_input) \<Rightarrow> item_editor \<Rightarrow> item_editor" where
  "edit_group gi f e = e\<lparr>ie_groups := change_at gi f (ie_groups e)\<rparr>"

definition set_min :: "int \<Rightarrow> group_input \<Rightarrow> group_input" where
  "set_min n g = g\<lparr>gn_minSelect := n\<rparr>"

definition set_max :: "int \<Rightarrow> group_input \<Rightarrow> group_input" where
  "set_max n g = g\<lparr>gn_maxSelect := (if n = 0 then 1 else n)\<rparr>"

definition add_option :: "group_input \<Rightarrow> group_input" where
  "add_option g = g\<lparr>gn_options := gn_options g @ [new_option]\<rparr>"

definition remove_option :: "nat \<Rightarrow> group_input \<Rightarrow> group_input" where
  "remove_option oi g = g\<lparr>gn_options := drop_at oi (gn_options g)\<rparr>"

text \<open>
  The surcharge box shows the stored surcharge and, on every change of its text, stores
  \<open>Math.round((parseFloat(text.replace(",", ".")) || 0) * 100)\<close>.
\<close>

definition shown_surcharge :: "int \<Rightarrow> jstr" where
  "shown_surcharge k = (if k = 0 then [] else hundredths k)"

definition or_zero :: "number \<Rightarrow> number" where
  "or_zero n = (if n = Nan \<or> n = Num 0 then Num 0 else n)"

definition surcharge_typed :: "jstr \<Rightarrow> number" where
  "surcharge_typed text = math_round (times (or_zero (parseFloat (comma_to_dot text))) 100)"

definition type_surcharge :: "jstr \<Rightarrow> int \<Rightarrow> int" where
  "type_surcharge text k = (case surcharge_typed text of Num x \<Rightarrow> \<lfloor>x\<rfloor> | _ \<Rightarrow> k)"

definition set_surcharge :: "nat \<Rightarrow> jstr \<Rightarrow> group_input \<Rightarrow> group_input" where
  "set_surcharge oi text g = g\<lparr>gn_options := change_at oi
     (\<lambda>o'. o'\<lparr>on_priceDeltaKurus := type_surcharge text (on_priceDeltaKurus o')\<rparr>) (gn_options g)\<rparr>"

subsection \<open>Saving a dish\<close>

definition price_typed :: "jstr \<Rightarrow> int option" where
  "price_typed text = (case kurus_typed text of Num x \<Rightarrow> if x < 0 then None else Some \<lfloor>x\<rfloor> | _ \<Rightarrow> None)"

definition named :: "option_input \<Rightarrow> bool" where
  "named o' \<longleftrightarrow> trim (on_nameTr o') \<noteq> []"

definition groups_sent :: "group_input list \<Rightarrow> group_input list" where
  "groups_sent gs =
     map (\<lambda>g. \<lparr>gn_nameTr = trim (gn_nameTr g), gn_nameEn = trim (gn_nameEn g), gn_minSelect = gn_minSelect g,
         gn_maxSelect = max (gn_maxSelect g) 1,
         gn_options = map (\<lambda>o'. \<lparr>on_nameTr = trim (on_nameTr o'), on_nameEn = trim (on_nameEn o'),
           on_priceDeltaKurus = on_priceDeltaKurus o'\<rparr>) (filter named (gn_options g))\<rparr>)
       (filter (\<lambda>g. trim (gn_nameTr g) \<noteq> [] \<and> list_ex named (gn_options g)) gs)"

definition editor_send :: "item_editor \<Rightarrow> item_input option \<times> item_editor" where
  "editor_send e =
     (case price_typed (ie_priceTl e) of
        None \<Rightarrow> (None, e\<lparr>ie_error := Some Name_price_required\<rparr>)
      | Some priceKurus \<Rightarrow>
          if trim (ie_nameTr e) = [] then (None, e\<lparr>ie_error := Some Name_price_required\<rparr>)
          else (Some \<lparr>it_categoryId = ie_categoryId e, it_nameTr = trim (ie_nameTr e), it_nameEn = trim (ie_nameEn e),
              it_descTr = trim (ie_descTr e), it_descEn = trim (ie_descEn e), it_priceKurus = priceKurus,
              it_photoUrl = (if ie_photoUrl e = [] then None else Some (ie_photoUrl e)), it_tags = trim (ie_tags e),
              it_available = ie_available e,
              it_sortOrder = (case ie_item e of None \<Rightarrow> 0 | Some i \<Rightarrow> mi_sortOrder i),
              it_modifierGroups = groups_sent (ie_groups e)\<rparr>,
            e\<lparr>ie_busy := True, ie_error := None\<rparr>))"

text \<open>\<open>None\<close> when the dialog was closed by a successful save.\<close>

definition editor_reply :: "'a response option \<Rightarrow> item_editor \<Rightarrow> item_editor option" where
  "editor_reply r e = (case r of Some (Ok _) \<Rightarrow> None
     | _ \<Rightarrow> Some (e\<lparr>ie_busy := False, ie_error := Some Not_saved\<rparr>))"

subsection \<open>The tab\<close>

datatype menu_error = Category_not_empty | Call_failed string | Not_updated

record menu_tab =
  mt_data :: "category_row list option"
  mt_editing :: "item_editor option"
  mt_newCat :: jstr
  mt_search :: jstr
  mt_filterCat :: id
  mt_editingCat :: "category option"
  mt_deletingItem :: "menu_item option"
  mt_deletingCat :: "category option"
  mt_error :: "menu_error option"
  mt_busy :: bool
  mt_reloads :: nat

definition rows_of :: "menu_tab \<Rightarrow> category_row list" where
  "rows_of m = (case mt_data m of None \<Rightarrow> [] | Some cs \<Rightarrow> cs)"

definition call_send :: "menu_tab \<Rightarrow> menu_tab" where
  "call_send m = m\<lparr>mt_busy := True, mt_error := None\<rparr>"

text \<open>The reply to a call; \<open>what\<close> names the text shown when it fails.\<close>

definition call_reply :: "string \<Rightarrow> 'a response option \<Rightarrow> menu_tab \<Rightarrow> bool \<times> menu_tab" where
  "call_reply what r m0 =
     (let m = m0\<lparr>mt_busy := False\<rparr>
      in case r of
           Some (Ok _) \<Rightarrow> (True, m\<lparr>mt_reloads := mt_reloads m + 1\<rparr>)
         | Some (Fail _ err _) \<Rightarrow> (False, m\<lparr>mt_error := Some (if err = ''category_not_empty'' then Category_not_empty
             else Call_failed what)\<rparr>)
         | _ \<Rightarrow> (False, m\<lparr>mt_error := Some (Call_failed what)\<rparr>))"

definition addCategory_send :: "menu_tab \<Rightarrow> category_input option \<times> menu_tab" where
  "addCategory_send m =
     (if trim (mt_newCat m) = [] then (None, m)
      else (Some \<lparr>ci_nameTr = Some (trim (mt_newCat m)), ci_nameEn = None,
          ci_sortOrder = Some (int (length (rows_of m)))\<rparr>, call_send m))"

definition addCategory_reply :: "id response option \<Rightarrow> menu_tab \<Rightarrow> menu_tab" where
  "addCategory_reply r m =
     (let (ok, m') = call_reply ''add_category'' r m in if ok then m'\<lparr>mt_newCat := []\<rparr> else m')"

text \<open>
  The availability switch: what it shows at once, what it sends, and what a reply leaves. The
  mutation returns the rows it was given, so the rows of before the switch are back in either case
  until the list is loaded again.
\<close>

definition switched :: "menu_item \<Rightarrow> category_row list \<Rightarrow> category_row list" where
  "switched i cs = map (\<lambda>c. c\<lparr>cr_items := updateMany (\<lambda>x. mi_id x = mi_id i)
     (\<lambda>x. x\<lparr>mi_available := \<not> mi_available i\<rparr>) (cr_items c)\<rparr>) cs"

definition toggle_send :: "menu_item \<Rightarrow> menu_tab \<Rightarrow> item_patch \<times> menu_tab" where
  "toggle_send i m = (Availability (\<not> mi_available i), m\<lparr>mt_data := Some (switched i (rows_of m)), mt_error := None\<rparr>)"

definition toggle_reply :: "category_row list option \<Rightarrow> unit response option \<Rightarrow> menu_tab \<Rightarrow> menu_tab" where
  "toggle_reply before r m =
     (case r of Some (Ok _) \<Rightarrow> m\<lparr>mt_data := before, mt_reloads := mt_reloads m + 1\<rparr>
      | _ \<Rightarrow> m\<lparr>mt_data := before, mt_error := Some Not_updated\<rparr>)"

text \<open>The search; \<open>lower\<close> is \<open>toLowerCase\<close>.\<close>

definition all_items :: "menu_tab \<Rightarrow> menu_item list" where
  "all_items m = concat (map cr_items (rows_of m))"

definition filtered_items :: "(jstr \<Rightarrow> jstr) \<Rightarrow> menu_tab \<Rightarrow> menu_item list" where
  "filtered_items lower m = filter (\<lambda>i.
     (let q = lower (mt_search m)
      in q = [] \<or> occurs_in (lower (mi_nameTr i)) q \<or> occurs_in (lower (mi_nameEn i)) q \<or>
         occurs_in (lower (mi_descTr i)) q \<or> occurs_in (lower (mi_descEn i)) q) \<and>
     (mt_filterCat m = [] \<or> mi_categoryId i = mt_filterCat m)) (all_items m)"

text \<open>The category dialog: what it saves, \<open>None\<close> while the name is blank.\<close>

definition category_submit :: "jstr \<Rightarrow> jstr \<Rightarrow> int \<Rightarrow> category_patch option" where
  "category_submit nameTr nameEn order' =
     (if trim nameTr = [] then None
      else Some \<lparr>cp_nameTr = Some (trim nameTr),
        cp_nameEn = Some (if trim nameEn = [] then trim nameTr else trim nameEn),
        cp_sortOrder = Some order', cp_active = None\<rparr>)"

definition category_hide :: "category \<Rightarrow> category_patch" where
  "category_hide c = \<lparr>cp_nameTr = None, cp_nameEn = None, cp_sortOrder = None, cp_active = Some (\<not> cat_active c)\<rparr>"

definition editCategory_reply :: "unit response option \<Rightarrow> menu_tab \<Rightarrow> menu_tab" where
  "editCategory_reply r m =
     (let (ok, m') = call_reply ''save_category'' r m in if ok then m'\<lparr>mt_editingCat := None\<rparr> else m')"

definition deleteItem_reply :: "bool response option \<Rightarrow> menu_tab \<Rightarrow> menu_tab" where
  "deleteItem_reply r m = (snd (call_reply ''delete'' r m))\<lparr>mt_deletingItem := None\<rparr>"

definition deleteCategory_reply :: "unit response option \<Rightarrow> menu_tab \<Rightarrow> menu_tab" where
  "deleteCategory_reply r m = (snd (call_reply ''delete'' r m))\<lparr>mt_deletingCat := None\<rparr>"

definition dish_saved :: "menu_tab \<Rightarrow> menu_tab" where
  "dish_saved m = m\<lparr>mt_editing := None, mt_reloads := mt_reloads m + 1\<rparr>"

subsection \<open>Typed prices\<close>

lemma price_typed_digits:
  assumes "all_digits ip" and "ip \<noteq> []" and "all_digits fp" and "length fp \<le> 2" and "sep \<in> {44, 46}"
    and "k = 100 * int (digits_value ip) + int (digits_value fp) * 10 ^ (2 - length fp)" and "k < 2 ^ 31"
  shows "price_typed (ip @ sep # fp) = Some k"
proof -
  have "0 \<le> k" by (simp add: assms(6))
  then show ?thesis using kurus_digits(1)[OF assms] by (simp add: price_typed_def)
qed

lemma price_typed_shown:
  assumes "0 \<le> k" and "k < 2 ^ 31"
  shows "price_typed (hundredths k) = Some k"
  using price_text_reads_back[OF assms] assms(1) by (simp add: price_typed_def)

text \<open>
  A price is stored as it was typed. Whole lira and at most two decimals, behind a comma or a
  point, become exactly that many kurus, although the browser parses, multiplies and rounds them
  as binary fractions; and a named dish with such a price is sent.
\<close>

theorem typed_price_is_sent:
  assumes "all_digits ip" and "ip \<noteq> []" and "all_digits fp" and "length fp \<le> 2" and "sep \<in> {44, 46}"
    and "100 * int (digits_value ip) + int (digits_value fp) * 10 ^ (2 - length fp) < 2 ^ 31"
    and "ie_priceTl e = ip @ sep # fp" and "trim (ie_nameTr e) \<noteq> []"
  shows "\<exists>d e'. editor_send e = (Some d, e') \<and>
    it_priceKurus d = 100 * int (digits_value ip) + int (digits_value fp) * 10 ^ (2 - length fp)"
  using price_typed_digits[OF assms(1-5) refl assms(6)] assms(7,8) by (simp add: editor_send_def)

theorem typed_price_is_sent_witness:
  "\<exists>d e'. editor_send ((open_editor None [])\<lparr>ie_nameTr := lit ''Ayran'', ie_priceTl := lit ''12,5''\<rparr>) = (Some d, e') \<and>
     it_priceKurus d = 1250"
proof -
  let ?e = "(open_editor None [])\<lparr>ie_nameTr := lit ''Ayran'', ie_priceTl := lit ''12,5''\<rparr>"
  have "ie_priceTl ?e = [49, 50] @ 44 # [53]" "trim (ie_nameTr ?e) \<noteq> []"
    by (simp_all add: lit_def trim_def is_ws_def)
  from typed_price_is_sent[OF _ _ _ _ _ _ this] show ?thesis
    by (simp add: all_digits_def is_digit_def digits_value_def)
qed

subsection \<open>A price with a thousands separator\<close>

lemma times_hundred_between:
  fixes x :: rat
  assumes "1 \<le> x" and "x \<le> 2 ^ 31"
  shows "\<exists>k. math_round (times (fl x) 100) = Num (of_int k) \<and> 100 * x - 1 \<le> of_int k \<and> of_int k \<le> 100 * x + 1"
proof -
  have big: "(2 :: rat) ^ 40 \<le> 2 ^ 1000" by (rule power_increasing) simp_all
  have low: "(2 :: rat) powi (-1022) \<le> 1"
    using power_int_increasing[of "-1022" 0 "2 :: rat"] by simp
  have x: "2 powi (-1022) \<le> \<bar>x\<bar>" "\<bar>x\<bar> \<le> 2 ^ 1000" "\<bar>x\<bar> = x"
    using assms low big by auto
  obtain y where y: "fl x = Num y" "\<bar>y - x\<bar> \<le> x / 2 ^ 53" using fl_err[OF x(1,2)] x(3) by auto
  have "x / 2 ^ 53 \<le> 1 / 2 ^ 20" using assms(2) by (simp add: field_simps)
  then have yx: "\<bar>y - x\<bar> \<le> 1 / 1000" using y(2) by simp
  have y100: "0 \<le> y * 100" "1 \<le> y * 100" "y * 100 \<le> 2 ^ 40" 
  proof -
    have "x \<le> 2147483648" using assms(2) by simp
    then have "0 \<le> y * 100 \<and> 1 \<le> y * 100 \<and> y * 100 \<le> 1099511627776" using yx assms(1) by linarith
    then show "0 \<le> y * 100" "1 \<le> y * 100" "y * 100 \<le> 2 ^ 40" by simp_all
  qed
  then have b: "2 powi (-1022) \<le> \<bar>y * 100\<bar>" "\<bar>y * 100\<bar> \<le> 2 ^ 1000" "\<bar>y * 100\<bar> = y * 100" using low big by auto
  obtain z where z: "fl (y * 100) = Num z" "\<bar>z - y * 100\<bar> \<le> y * 100 / 2 ^ 53" using fl_err[OF b(1,2)] b(3) by auto
  have "y * 100 / 2 ^ 53 \<le> 1 / 2 ^ 13" using y100(3) by (simp add: field_simps)
  then have zy: "\<bar>z - y * 100\<bar> \<le> 1 / 100" using z(2) by simp
  have "of_int \<lfloor>z + 1 / 2\<rfloor> \<le> z + 1 / 2" "z + 1 / 2 < of_int \<lfloor>z + 1 / 2\<rfloor> + 1" by linarith+
  then have "100 * x - 1 \<le> of_int \<lfloor>z + 1 / 2\<rfloor>" "of_int \<lfloor>z + 1 / 2\<rfloor> \<le> 100 * x + 1" using zy yx by linarith+
  then show ?thesis by (intro exI[of _ "\<lfloor>z + 1 / 2\<rfloor>"]) (simp add: y(1) z(1))
qed

text \<open>
  C32: A price written with a thousands separator is taken as a thousandth, without an error. For
  a price of one to three digits, a point, three digits, a comma and two digits, as Turkish
  prices of a thousand lira or more are written, only the comma is replaced, the number ends at
  the second point, and the dish is sent at no more than one lira above the digits before the
  first point, where the price meant is a thousand times those digits and more.
\<close>

theorem thousands_separator_is_misread:
  assumes "all_digits a" and "length a \<le> 3" and "1 \<le> digits_value a" and "digits_value a < 1000"
    and "all_digits b" and "length b = 3" and "all_digits c" and "length c = 2"
    and "ie_priceTl e = a @ 46 # b @ 44 # c" and "trim (ie_nameTr e) \<noteq> []"
  shows "\<exists>d e'. editor_send e = (Some d, e') \<and> it_priceKurus d \<le> 100 * (int (digits_value a) + 1) \<and>
    ie_error e' = None"
proof -
  let ?n = "digits_value (a @ b)"
  have a: "a \<noteq> []" using assms(3) by (auto simp: digits_value_def)
  have bound: "digits_value ds < 10 ^ length ds" if "all_digits ds" for ds
    using that
  proof (induction ds rule: rev_induct)
    case (snoc d ds)
    then have "digits_value ds < 10 ^ length ds" "d - 48 \<le> 9" by (auto simp: all_digits_def is_digit_def)
    moreover have "digits_value (ds @ [d]) = digits_value ds * 10 + (d - 48)" by (simp add: digits_value_def)
    ultimately show ?case by simp
  qed (simp add: digits_value_def)
  have n: "?n = digits_value a * 1000 + digits_value b" by (simp add: digits_value_append assms(6))
  have b: "digits_value b < 1000" using bound[OF assms(5)] assms(6) by simp
  have "44 \<notin> set (a @ 46 # b)" using assms(1,5) digits_no_comma by auto
  then have dot: "comma_to_dot (ie_priceTl e) = a @ 46 # b @ 46 # c"
    using comma_to_dot_first[of "a @ 46 # b" c] by (simp add: assms(9))
  have p: "parseFloat (comma_to_dot (ie_priceTl e)) = fl (of_nat ?n / 1000)"
    using parse_digits(1)[OF assms(1) a assms(5), of "46 # c"] assms(6) unfolding dot by (simp add: is_digit_def)
  let ?x = "of_nat ?n / 1000 :: rat"
  have "1000 \<le> ?n" "?n < 2000000" using n b assms(3,4) by simp_all
  then have x: "1 \<le> ?x" "?x \<le> 2 ^ 31"
    by (simp_all add: field_simps)
  obtain k where k: "math_round (times (fl ?x) 100) = Num (of_int k)"
      "100 * ?x - 1 \<le> of_int k" "of_int k \<le> 100 * ?x + 1"
    using times_hundred_between[OF x] by blast
  have n10: "100 * ?x = 100 * of_nat (digits_value a) + of_nat (digits_value b) / 10"
    by (simp add: n field_simps)
  have "digits_value b \<le> 999" using b by simp
  then have "of_nat (digits_value b) \<le> (of_nat 999 :: rat)" by (rule of_nat_mono)
  then have b9: "of_nat (digits_value b) / 10 \<le> (999 / 10 :: rat)" by simp
  have "of_int k \<le> 100 * of_nat (digits_value a) + of_nat (digits_value b) / 10 + (1 :: rat)"
    using k(3) unfolding n10 .
  then have "of_int k < 100 * of_nat (digits_value a) + (101 :: rat)" using b9 by linarith
  then have "of_int k < (of_int (100 * (int (digits_value a) + 1) + 1) :: rat)" by simp
  then have up: "k \<le> 100 * (int (digits_value a) + 1)" unfolding of_int_less_iff by simp
  have "(0 :: rat) \<le> of_int k" using k(2) x(1) by linarith
  then have "0 \<le> k" by simp
  then have "price_typed (ie_priceTl e) = Some k" by (simp add: price_typed_def kurus_typed_def p k(1))
  then show ?thesis using up assms(10) by (simp add: editor_send_def)
qed

theorem thousands_separator_is_misread_witness:
  "\<exists>d e'. editor_send ((open_editor None [])\<lparr>ie_nameTr := lit ''Kuzu'', ie_priceTl := lit ''1.234,50''\<rparr>) = (Some d, e') \<and>
     it_priceKurus d \<le> 200 \<and> ie_error e' = None"
proof -
  let ?e = "(open_editor None [])\<lparr>ie_nameTr := lit ''Kuzu'', ie_priceTl := lit ''1.234,50''\<rparr>"
  have "ie_priceTl ?e = [49] @ 46 # [50, 51, 52] @ 44 # [53, 48]" "trim (ie_nameTr ?e) \<noteq> []"
    by (simp_all add: lit_def trim_def is_ws_def)
  from thousands_separator_is_misread[OF _ _ _ _ _ _ _ _ this] show ?thesis
    by (simp add: all_digits_def is_digit_def digits_value_def)
qed

subsection \<open>A surcharge typed at the end of its box\<close>

definition type_at_end :: "nat \<Rightarrow> int \<Rightarrow> int" where
  "type_at_end c k = type_surcharge (shown_surcharge k @ [c]) k"

lemma parse_one:
  assumes "\<not> is_digit c"
  shows "parseFloat (comma_to_dot [c]) = Nan"
proof -
  have inf: "take 8 [x] \<noteq> lit ''Infinity''" "[] \<noteq> lit ''Infinity''" "[x] \<noteq> lit ''Infinity''" for x by (simp_all add: lit_def)
  have "parse_unsigned [] = Nan" by (simp add: parse_unsigned_def Let_def inf)
  moreover have "parse_unsigned [46] = Nan" by (simp add: parse_unsigned_def Let_def inf is_digit_def)
  moreover have "parse_unsigned [c] = Nan" using assms by (simp add: parse_unsigned_def Let_def inf)
  ultimately show ?thesis by (simp add: parseFloat_def is_ws_def)
qed

lemma surcharge_of_kurus: "kurus_typed text = Num x \<Longrightarrow> surcharge_typed text = Num x"
  by (cases "parseFloat (comma_to_dot text)") (auto simp: kurus_typed_def surcharge_typed_def or_zero_def)

lemma digit_surcharge:
  assumes "is_digit c" and "n < 10 ^ 6"
  shows "type_surcharge (shown_surcharge (100 * int n) @ [c]) k = 100 * (10 * int n + int (c - 48))"
proof -
  let ?ip = "(if n = 0 then [] else show_nat n) @ [c]"
  have shown: "shown_surcharge (100 * int n) = (if n = 0 then [] else show_nat n)"
    by (simp add: shown_surcharge_def hundredths_def Let_def nat_mult_distrib)
  have ip: "all_digits ?ip" "?ip \<noteq> []"
    using assms(1) show_nat_all_digits[of n] by (simp_all add: all_digits_def)
  have v: "digits_value ?ip = 10 * n + (c - 48)"
    by (simp add: digits_value_append digits_value_show) (simp add: digits_value_def)
  have c: "c - 48 \<le> 9" using assms(1) by (auto simp: is_digit_def)
  let ?k = "100 * (10 * int n + int (c - 48))"
  have "?k < 2 ^ 31" using assms(2) c by simp
  then have "kurus_typed ?ip = Num (of_int ?k)"
    using kurus_digits(2)[OF ip, of "[]" 46 ?k] unfolding v by (simp add: all_digits_def digits_value_def)
  then have "surcharge_typed ?ip = Num (of_int ?k)" by (rule surcharge_of_kurus)
  then show ?thesis by (simp only: type_surcharge_def shown number.case floor_of_int)
qed

lemma parse_trailing:
  assumes "all_digits ds" and "ds \<noteq> []" and "\<not> is_digit c"
  shows "parseFloat (ds @ [c]) = fl (of_nat (digits_value ds))"
proof -
  obtain x xs where ds: "ds = x # xs" "is_digit x" using assms(1,2) by (cases ds) (auto simp: all_digits_def)
  have x: "x \<noteq> 45" "x \<noteq> 43" "x \<noteq> 73" "\<not> is_ws x" using ds(2) digit_not_ws by (auto simp: is_digit_def)
  have start: "parseFloat (ds @ [c]) = parse_unsigned (ds @ [c])" using x by (simp add: parseFloat_def ds(1))
  have inf: "take 8 (ds @ [c]) \<noteq> lit ''Infinity''" using x(3) by (simp add: ds(1) lit_def)
  have t: "takeWhile is_digit (ds @ [c]) = ds" "dropWhile is_digit (ds @ [c]) = [c]"
    using take_digits[OF assms(1), of "[c]"] assms(3) by simp_all
  have "exponent_of [c] = 0" "exponent_of [] = 0" by (simp_all add: exponent_of_def)
  then show ?thesis using assms(2) inf by (simp add: start parse_unsigned_def Let_def t)
qed

lemma other_surcharge:
  assumes "\<not> is_digit c" and "n < 10 ^ 7"
  shows "type_surcharge (shown_surcharge (100 * int n) @ [c]) k = 100 * int n"
proof (cases "n = 0")
  case True
  have "\<lfloor>1 / 2 :: rat\<rfloor> = 0" by (intro floor_unique) simp_all
  then show ?thesis
    using parse_one[OF assms(1)] True by (simp add: type_surcharge_def surcharge_typed_def shown_surcharge_def or_zero_def)
next
  case False
  let ?ds = "show_nat n"
  have shown: "shown_surcharge (100 * int n) = ?ds"
    using False by (simp add: shown_surcharge_def hundredths_def Let_def nat_mult_distrib)
  have ds: "all_digits ?ds" "?ds \<noteq> []" "digits_value ?ds = n"
    by (simp_all add: show_nat_all_digits show_nat_not_Nil digits_value_show)
  have dot: "comma_to_dot (?ds @ [c]) = ?ds @ [if c = 44 then 46 else c]"
    using comma_to_dot_first[OF digits_no_comma[OF ds(1)], of "[]"]
      comma_to_dot_none[of "?ds @ [c]"] digits_no_comma[OF ds(1)] by auto
  have "parseFloat (comma_to_dot (?ds @ [c])) = fl (of_int (100 * int n) / 100)"
    unfolding dot using parse_trailing[OF ds(1,2), of "if c = 44 then 46 else c"] assms(1) ds(3)
    by (simp add: is_digit_def)
  then have "kurus_typed (?ds @ [c]) = Num (of_int (100 * int n))"
    unfolding kurus_typed_def using hundred_times[of "100 * int n"] assms(2) by simp
  then have "surcharge_typed (?ds @ [c]) = Num (of_int (100 * int n))" by (rule surcharge_of_kurus)
  then show ?thesis by (simp only: type_surcharge_def shown number.case floor_of_int)
qed

lemma typed_whole:
  assumes "length cs \<le> 7"
  shows "\<exists>n. fold type_at_end cs 0 = 100 * int n \<and> n < 10 ^ length cs"
  using assms
proof (induction cs rule: rev_induct)
  case (snoc c cs)
  then obtain n where n: "fold type_at_end cs 0 = 100 * int n" "n < 10 ^ length cs" by auto
  have "10 ^ length cs \<le> (10 :: nat) ^ 6" using snoc.prems by (intro power_increasing) auto
  then have n6: "n < 10 ^ 6" and n7: "n < 10 ^ 7" using n(2) by simp_all
  show ?case
  proof (cases "is_digit c")
    case True
    then have "c - 48 \<le> 9" by (auto simp: is_digit_def)
    then have "10 * n + (c - 48) < 10 ^ length (cs @ [c])" using n(2) by simp
    moreover have "type_at_end c (100 * int n) = 100 * int (10 * n + (c - 48))"
      using digit_surcharge[OF True n6] by (simp add: type_at_end_def)
    ultimately show ?thesis using n(1) by (intro exI[of _ "10 * n + (c - 48)"]) simp
  next
    case False
    have "type_at_end c (100 * int n) = 100 * int n" using other_surcharge[OF False n7] by (simp add: type_at_end_def)
    then show ?thesis using n by (intro exI[of _ n]) simp
  qed
qed simp

text \<open>
  A surcharge with kurus cannot be typed. The box shows the surcharge stored so far, so a
  point or a comma typed at the end disappears at once, and so does a minus sign. Whatever (at
  most seven) characters are typed one after the other at the end of an empty box, the surcharge
  stored is a whole number of lira and not negative, although the box reads 2,50 correctly when
  it is pasted.
\<close>

theorem typed_surcharge_is_whole:
  assumes "length cs \<le> 7"
  shows "fold type_at_end cs 0 mod 100 = 0 \<and> 0 \<le> fold type_at_end cs 0 \<and>
    type_surcharge (lit ''2,50'') (fold type_at_end cs 0) = 250"
proof -
  have "kurus_typed (lit ''2,50'') = Num (of_int 250)"
    using kurus_digits(1)[of "[50]" "[53, 48]" 44 250]
    by (simp add: lit_def all_digits_def is_digit_def digits_value_def)
  then have "surcharge_typed (lit ''2,50'') = Num (of_int 250)" by (rule surcharge_of_kurus)
  then have "type_surcharge (lit ''2,50'') k = 250" for k by (simp add: type_surcharge_def)
  then show ?thesis using typed_whole[OF assms] by auto
qed

theorem typed_surcharge_is_whole_witness:
  "fold type_at_end (lit ''2,50'') 0 mod 100 = 0"
proof -
  have "length (lit ''2,50'') \<le> 7" by (simp add: lit_def)
  from typed_surcharge_is_whole[OF this] show ?thesis by blast
qed

subsection \<open>Saving without a change\<close>

definition tidy :: "jstr \<Rightarrow> bool" where
  "tidy t \<longleftrightarrow> trim t = t"

text \<open>What the editor writes: trimmed texts, an English name, and groups and options that have names.\<close>

definition tidy_option :: "modifier_option \<Rightarrow> bool" where
  "tidy_option o' \<longleftrightarrow> tidy (mo_nameTr o') \<and> mo_nameTr o' \<noteq> [] \<and> tidy (mo_nameEn o') \<and> mo_nameEn o' \<noteq> []"

definition tidy_group :: "modifier_group \<Rightarrow> bool" where
  "tidy_group g \<longleftrightarrow> tidy (mg_nameTr g) \<and> mg_nameTr g \<noteq> [] \<and> tidy (mg_nameEn g) \<and> mg_nameEn g \<noteq> [] \<and>
     1 \<le> mg_maxSelect g \<and> mg_options g \<noteq> [] \<and> list_all tidy_option (mg_options g)"

definition tidy_item :: "menu_item \<Rightarrow> bool" where
  "tidy_item i \<longleftrightarrow> tidy (mi_nameTr i) \<and> mi_nameTr i \<noteq> [] \<and> tidy (mi_nameEn i) \<and> mi_nameEn i \<noteq> [] \<and>
     tidy (mi_descTr i) \<and> tidy (mi_descEn i) \<and> tidy (mi_tags i) \<and> mi_photoUrl i \<noteq> Some [] \<and>
     0 \<le> mi_priceKurus i \<and> int4 (mi_priceKurus i) \<and> list_all tidy_group (mi_modifierGroups i)"

definition option_content :: "modifier_option \<Rightarrow> jstr \<times> jstr \<times> int" where
  "option_content o' = (mo_nameTr o', mo_nameEn o', mo_priceDeltaKurus o')"

definition group_content :: "modifier_group \<Rightarrow> jstr \<times> jstr \<times> int \<times> int \<times> (jstr \<times> jstr \<times> int) list" where
  "group_content g = (mg_nameTr g, mg_nameEn g, mg_minSelect g, mg_maxSelect g, map option_content (mg_options g))"

text \<open>Everything about a dish but the identifiers and positions of its groups and options.\<close>

definition same_dish :: "menu_item \<Rightarrow> menu_item \<Rightarrow> bool" where
  "same_dish a b \<longleftrightarrow> a\<lparr>mi_modifierGroups := []\<rparr> = b\<lparr>mi_modifierGroups := []\<rparr> \<and>
     map group_content (mi_modifierGroups a) = map group_content (mi_modifierGroups b)"

lemma map_numbered: "(\<And>k x. f (h k x) = r x) \<Longrightarrow> map f (map (\<lambda>(k, x). h k x) (enumerate n xs)) = map r xs"
  by (induction xs arbitrary: n) simp_all

lemma named_tidy: "tidy_option o' \<Longrightarrow> named (option_form o')"
  by (simp add: named_def option_form_def tidy_option_def tidy_def)

lemma filter_all: "list_all p xs \<Longrightarrow> filter p xs = xs"
  by (induction xs) simp_all

lemma option_trimmed: "tidy_option o' \<Longrightarrow> (option_form o')\<lparr>on_nameTr := trim (mo_nameTr o'), on_nameEn := trim (mo_nameEn o')\<rparr> =
   option_form o'"
  by (simp add: option_form_def tidy_option_def tidy_def)

lemma groups_sent_Cons: "groups_sent (g # gs) = groups_sent [g] @ groups_sent gs"
  by (simp add: groups_sent_def)

lemma groups_sent_tidy:
  assumes "list_all tidy_group gs"
  shows "groups_sent (map group_form gs) = map group_form gs"
  using assms
proof (induction gs)
  case (Cons g gs)
  have os: "list_all tidy_option (mg_options g)" "mg_options g \<noteq> []" using Cons.prems by (simp_all add: tidy_group_def)
  have nm: "list_all named (map option_form (mg_options g))"
    using os(1) named_tidy by (auto simp: list_all_iff)
  have ex: "list_ex named (map option_form (mg_options g))" using nm os(2) by (cases "mg_options g") simp_all
  have kept: "map (\<lambda>o'. \<lparr>on_nameTr = trim (on_nameTr o'), on_nameEn = trim (on_nameEn o'),
      on_priceDeltaKurus = on_priceDeltaKurus o'\<rparr>) (map option_form (mg_options g)) = map option_form (mg_options g)"
    using os(1) by (auto simp: list_all_iff option_form_def tidy_option_def tidy_def)
  have "groups_sent [group_form g] = [group_form g]"
    using Cons.prems ex
    unfolding groups_sent_def group_form_def
    by (simp add: filter_all[OF nm] kept[unfolded map_map o_def] tidy_group_def tidy_def del: map_map)
      (simp add: kept[simplified] max_def)
  then show ?case
    using Cons.IH Cons.prems groups_sent_Cons[of "group_form g" "map group_form gs"] by simp
qed (simp add: groups_sent_def)

lemma groups_created_content:
  "map group_content (groups_created gid oid gs) = map (\<lambda>g. (gn_nameTr g, english (gn_nameEn g) (gn_nameTr g),
     gn_minSelect g, gn_maxSelect g,
     map (\<lambda>o'. (on_nameTr o', english (on_nameEn o') (on_nameTr o'), on_priceDeltaKurus o')) (gn_options g))) gs"
proof -
  have o': "map option_content (options_created f os) =
      map (\<lambda>o'. (on_nameTr o', english (on_nameEn o') (on_nameTr o'), on_priceDeltaKurus o')) os" for f os
    unfolding options_created_def by (rule map_numbered) (simp add: option_content_def)
  show ?thesis
    unfolding groups_created_def by (rule map_numbered) (simp add: group_content_def o')
qed

lemma tidy_groups_content:
  assumes "list_all tidy_group gs"
  shows "map group_content (groups_created gid oid (map group_form gs)) = map group_content gs"
proof -
  have os: "map (\<lambda>o'. (on_nameTr o', english (on_nameEn o') (on_nameTr o'), on_priceDeltaKurus o')) (map option_form xs) =
      map option_content xs" if "list_all tidy_option xs" for xs
    using that by (auto simp: list_all_iff option_form_def option_content_def tidy_option_def english_def)
  show ?thesis
    unfolding groups_created_content
    using assms by (auto simp: list_all_iff group_form_def group_content_def tidy_group_def english_def
        option_form_def option_content_def tidy_option_def)
qed



subsection \<open>A group nobody can satisfy\<close>

text \<open>
  The editor can make a dish that nobody can order. Neither the editor nor the server compares
  the least number of options of a group with the greatest or with the number of options there
  are. When an accepted dish has a group that asks for more than either, no choice on the dish's
  sheet is ever valid, so its button stays disabled on every phone, and nobody is told.
\<close>

theorem impossible_group_blocks_dish:
  assumes "POST_item pf i gid oid (Some d) cookie s = (Ok j, s')" and "g \<in> set (it_modifierGroups d)"
    and "gn_maxSelect g < gn_minSelect g \<or> int (length (gn_options g)) < gn_minSelect g"
  shows "\<exists>x \<in> set (menuItems s'). mi_id x = i \<and> (\<forall>sh. sh_item sh = item_view_of x \<longrightarrow> \<not> sheet_valid sh)"
proof -
  have "\<exists>v. item_of_input i v gid oid d \<in> set (menuItems s')"
    using assms(1)
    by (auto simp: POST_item_def menu_changed_def publish_def split: prod.splits option.splits if_splits)
  then obtain v where x: "item_of_input i v gid oid d \<in> set (menuItems s')" ..
  have "\<not> sheet_valid sh" if sh: "sh_item sh = item_view_of (item_of_input i v gid oid d)" for sh
  proof -
    obtain n where n: "n < length (it_modifierGroups d)" "it_modifierGroups d ! n = g"
      using assms(2) by (auto simp: in_set_conv_nth)
    let ?c = "groups_created gid oid (it_modifierGroups d) ! n"
    have "length (groups_created gid oid (it_modifierGroups d)) = length (it_modifierGroups d)"
      by (simp add: groups_created_def)
    then have in_set: "?c \<in> set (groups_created gid oid (it_modifierGroups d))" using n(1) by simp
    have c: "mg_minSelect ?c = gn_minSelect g"
        "mg_maxSelect ?c = gn_maxSelect g" "length (mg_options ?c) = length (gn_options g)"
      using n by (simp_all add: groups_created_def options_created_def nth_enumerate_eq flip: n(2))
    have "group_view_of ?c \<in> set (iv_modifierGroups (sh_item sh))"
      using in_set by (auto simp: sh item_view_of_def item_of_input_def orderBy_def)
    moreover have "chosen_in (group_view_of ?c) ids \<le> length (gn_options g)" for ids
      using c(3) by (simp add: chosen_in_def group_view_of_def orderBy_def) (metis length_filter_le length_map length_sort)
    moreover have "gv_minSelect (group_view_of ?c) = gn_minSelect g" "gv_maxSelect (group_view_of ?c) = gn_maxSelect g"
      using c(1,2) by (simp_all add: group_view_of_def)
    moreover have "gv_minSelect g \<le> int (chosen_in g (sh_optionIds sh)) \<and>
        int (chosen_in g (sh_optionIds sh)) \<le> gv_maxSelect g"
      if "sheet_valid sh" "g \<in> set (iv_modifierGroups (sh_item sh))" for g
      using that by (simp add: sheet_valid_def list_all_iff)
    ultimately show ?thesis using assms(3) by (smt (verit) le_trans of_nat_le_iff)
  qed
  then show ?thesis using x by (intro bexI[of _ "item_of_input i v gid oid d"]) (auto simp: item_of_input_def)
qed

definition greedy :: group_input where
  "greedy = \<lparr>gn_nameTr = lit ''Sos'', gn_nameEn = [], gn_minSelect = 2, gn_maxSelect = 1,
     gn_options = [\<lparr>on_nameTr = lit ''Aci'', on_nameEn = [], on_priceDeltaKurus = 0\<rparr>]\<rparr>"

definition greedy_editor :: item_editor where
  "greedy_editor = (open_editor None [])\<lparr>ie_categoryId := ''c1'', ie_nameTr := lit ''Durum'', ie_priceTl := lit ''5,00'',
     ie_groups := [greedy]\<rparr>"

theorem impossible_group_blocks_dish_witness:
  "\<exists>d s' x. fst (editor_send greedy_editor) = Some d \<and>
     POST_item toy_platform ''i9'' (\<lambda>_. ''g9'') (\<lambda>_ _. ''o9'') (Some d) (Some ''a1-0'') sample = (Ok ''i9'', s') \<and>
     x \<in> set (menuItems s') \<and> mi_id x = ''i9'' \<and> \<not> sheet_valid (open_sheet (item_view_of x))"
proof -
  have price: "price_typed (lit ''5,00'') = Some 500"
    using price_typed_digits[of "[53]" "[48, 48]" 44 500]
    by (simp add: lit_def all_digits_def is_digit_def digits_value_def)
  obtain d where d: "fst (editor_send greedy_editor) = Some d" "it_modifierGroups d = [greedy]"
      "valid_item d" "item_fits d" "it_categoryId d = ''c1''"
    using price
    by (simp add: editor_send_def greedy_editor_def open_editor_def groups_sent_def greedy_def named_def lit_def
        trim_def is_ws_def valid_item_def item_fits_def int4_def)
  obtain c where r: "requireStaff toy_platform Admin (Some ''a1-0'') sample = (Some toy_admin, sample\<lparr>accountCache := c\<rparr>)"
    using toy_requires(1)[of sample] by (auto simp: sample_fields)
  obtain s' where p: "POST_item toy_platform ''i9'' (\<lambda>_. ''g9'') (\<lambda>_ _. ''o9'') (Some d) (Some ''a1-0'') sample = (Ok ''i9'', s')"
    using d(3-5) by (simp add: POST_item_def r toy_admin_def sample_fields)
  have "greedy \<in> set (it_modifierGroups d)" "gn_maxSelect greedy < gn_minSelect greedy \<or>
      int (length (gn_options greedy)) < gn_minSelect greedy"
    by (simp_all add: d(2) greedy_def)
  from impossible_group_blocks_dish[OF p this] obtain x where
    "x \<in> set (menuItems s')" "mi_id x = ''i9''" "\<forall>sh. sh_item sh = item_view_of x \<longrightarrow> \<not> sheet_valid sh" by blast
  moreover from this(3) have "\<not> sheet_valid (open_sheet (item_view_of x))" by (simp add: open_sheet_def)
  ultimately show ?thesis using d(1) p by blast
qed

end
