(* ===== verification/StaffScreen.thy ===== *)
theory StaffScreen
  imports Staff
begin

section \<open>The account screens\<close>

text \<open>
  \<open>src/components/admin/StaffPanel.tsx\<close>, \<open>src/components/PasswordChangeDialog.tsx\<close> and
  \<open>src/app/login/LoginForm.tsx\<close>: the list of accounts with its buttons, the form that adds or
  edits an account, the dialog for one's own password and the login form. A request is split into
  what is sent and what a reply leaves; a reply is \<open>None\<close> when \<open>fetch\<close> itself fails. The panel and
  its form do not catch that failure, so the lines after the await do not run.
\<close>

subsection \<open>The form\<close>

datatype staff_text = Email_taken_text | Last_admin_text | Deactivate_self_text | Demote_self_text
  | Invalid_text | Rate_limited_text | Wrong_password_text | Failed_text

definition staffErrorText :: "string \<Rightarrow> staff_text" where
  "staffErrorText code = (if code = ''email_taken'' then Email_taken_text
     else if code = ''last_admin'' then Last_admin_text
     else if code = ''cannot_deactivate_self'' then Deactivate_self_text
     else if code = ''cannot_demote_self'' then Demote_self_text
     else if code = ''invalid'' then Invalid_text
     else if code = ''rate_limited'' then Rate_limited_text
     else if code = ''wrong_password'' then Wrong_password_text
     else Failed_text)"

record staff_form =
  sf_isSelf :: bool
  sf_email :: jstr
  sf_name :: jstr
  sf_role :: role
  sf_password :: jstr
  sf_error :: "staff_text option"
  sf_busy :: bool

definition blank_form :: staff_form where
  "blank_form = \<lparr>sf_isSelf = False, sf_email = [], sf_name = [], sf_role = Desk, sf_password = [],
     sf_error = None, sf_busy = False\<rparr>"

definition form_of :: "id \<Rightarrow> staff_row \<Rightarrow> staff_form" where
  "form_of self u = \<lparr>sf_isSelf = (sr_id u = self), sf_email = sr_email u, sf_name = sr_name u, sf_role = sr_role u,
     sf_password = [], sf_error = None, sf_busy = False\<rparr>"

text \<open>The role of one's own account is a disabled selection.\<close>

definition pick_role :: "role \<Rightarrow> staff_form \<Rightarrow> staff_form" where
  "pick_role r f = (if sf_isSelf f then f else f\<lparr>sf_role := r\<rparr>)"

definition form_values :: "staff_form \<Rightarrow> staff_create" where
  "form_values f = \<lparr>sn_email = sf_email f, sn_name = sf_name f, sn_role = sf_role f, sn_password = sf_password f\<rparr>"

definition form_submit :: "staff_form \<Rightarrow> staff_create option \<times> staff_form" where
  "form_submit f = (if sf_busy f then (None, f) else (Some (form_values f), f\<lparr>sf_busy := True\<rparr>))"

definition form_failed :: "string \<Rightarrow> staff_form \<Rightarrow> staff_form" where
  "form_failed code f = f\<lparr>sf_busy := False, sf_error := Some (staffErrorText code)\<rparr>"

text \<open>Cancel, Escape and the backdrop: dead while the form is busy. \<open>None\<close> is a closed form.\<close>

definition form_close :: "staff_form \<Rightarrow> staff_form option" where
  "form_close f = (if sf_busy f then Some f else None)"

subsection \<open>The panel\<close>

record staff_panel =
  sp_data :: "(staff_row list \<times> id) option"
  sp_busy :: "id option"
  sp_adding :: "staff_form option"
  sp_editing :: "(staff_row \<times> staff_form) option"
  sp_error :: "staff_text option"
  sp_reloads :: nat

definition panel_rows :: "staff_panel \<Rightarrow> staff_row list" where
  "panel_rows p = (case sp_data p of None \<Rightarrow> [] | Some (rs, _) \<Rightarrow> rs)"

definition panel_self :: "staff_panel \<Rightarrow> id" where
  "panel_self p = (case sp_data p of None \<Rightarrow> [] | Some (_, i) \<Rightarrow> i)"

definition panel_admins :: "staff_panel \<Rightarrow> nat" where
  "panel_admins p = countWhere (\<lambda>u. sr_role u = Admin \<and> sr_active u) (panel_rows p)"

datatype staff_button = Edit_account | Sign_out_account | Switch_account

definition account_buttons :: "staff_panel \<Rightarrow> staff_row \<Rightarrow> staff_button list" where
  "account_buttons p u = (if sp_busy p = Some (sr_id u) then []
     else [Edit_account, Sign_out_account] @ (if sr_id u \<noteq> panel_self p then [Switch_account] else []))"

definition no_update :: staff_update where
  "no_update = \<lparr>up_name = None, up_role = None, up_active = None, up_password = None, up_signOutEverywhere = None\<rparr>"

definition button_body :: "staff_button \<Rightarrow> staff_row \<Rightarrow> staff_update option" where
  "button_body b u = (case b of Edit_account \<Rightarrow> None
     | Sign_out_account \<Rightarrow> Some (no_update\<lparr>up_signOutEverywhere := Some True\<rparr>)
     | Switch_account \<Rightarrow> Some (no_update\<lparr>up_active := Some (\<not> sr_active u)\<rparr>))"

definition act_send :: "id \<Rightarrow> staff_panel \<Rightarrow> staff_panel" where
  "act_send i p = p\<lparr>sp_busy := Some i, sp_error := None\<rparr>"

definition act_reply :: "unit response option \<Rightarrow> staff_panel \<Rightarrow> staff_panel" where
  "act_reply r p =
     (case r of
        None \<Rightarrow> p
      | Some (Ok _) \<Rightarrow> p\<lparr>sp_busy := None, sp_reloads := sp_reloads p + 1\<rparr>
      | Some (Fail _ code _) \<Rightarrow> p\<lparr>sp_busy := None, sp_error := Some (staffErrorText code)\<rparr>
      | Some Crash \<Rightarrow> p\<lparr>sp_busy := None, sp_error := Some Failed_text\<rparr>)"

definition open_add :: "staff_panel \<Rightarrow> staff_panel" where
  "open_add p = p\<lparr>sp_adding := Some blank_form, sp_error := None\<rparr>"

definition add_submit :: "staff_panel \<Rightarrow> staff_create option \<times> staff_panel" where
  "add_submit p =
     (case sp_adding p of
        None \<Rightarrow> (None, p)
      | Some f \<Rightarrow> (let (v, f') = form_submit f in (v, p\<lparr>sp_adding := Some f'\<rparr>)))"

definition add_reply :: "id response option \<Rightarrow> staff_panel \<Rightarrow> staff_panel" where
  "add_reply r p =
     (case r of
        None \<Rightarrow> p
      | Some (Ok _) \<Rightarrow> p\<lparr>sp_adding := None, sp_reloads := sp_reloads p + 1\<rparr>
      | Some (Fail _ code _) \<Rightarrow> p\<lparr>sp_adding := map_option (form_failed code) (sp_adding p)\<rparr>
      | Some Crash \<Rightarrow> p\<lparr>sp_adding := map_option (form_failed []) (sp_adding p)\<rparr>)"

definition open_edit_account :: "staff_row \<Rightarrow> staff_panel \<Rightarrow> staff_panel" where
  "open_edit_account u p = p\<lparr>sp_editing := Some (u, form_of (panel_self p) u), sp_error := None\<rparr>"

text \<open>What an edit sends: the name and the role always, the password when one was typed.\<close>

definition edit_patch :: "staff_create \<Rightarrow> staff_update" where
  "edit_patch v = \<lparr>up_name = Some (sn_name v), up_role = Some (sn_role v), up_active = None,
     up_password = (if sn_password v = [] then None else Some (sn_password v)), up_signOutEverywhere = None\<rparr>"

definition edit_submit :: "staff_panel \<Rightarrow> (id \<times> staff_update) option \<times> staff_panel" where
  "edit_submit p =
     (case sp_editing p of
        None \<Rightarrow> (None, p)
      | Some (u, f) \<Rightarrow> (let (v, f') = form_submit f
          in (map_option (\<lambda>v. (sr_id u, edit_patch v)) v, p\<lparr>sp_editing := Some (u, f')\<rparr>)))"

definition edit_reply :: "unit response option \<Rightarrow> staff_panel \<Rightarrow> staff_panel" where
  "edit_reply r p =
     (case r of
        None \<Rightarrow> p
      | Some (Ok _) \<Rightarrow> p\<lparr>sp_editing := None, sp_reloads := sp_reloads p + 1\<rparr>
      | Some (Fail _ code _) \<Rightarrow> p\<lparr>sp_editing := map_option (map_prod id (form_failed code)) (sp_editing p)\<rparr>
      | Some Crash \<Rightarrow> p\<lparr>sp_editing := map_option (map_prod id (form_failed [])) (sp_editing p)\<rparr>)"

definition close_edit :: "staff_panel \<Rightarrow> staff_panel" where
  "close_edit p = p\<lparr>sp_editing := (case sp_editing p of None \<Rightarrow> None
     | Some (u, f) \<Rightarrow> map_option (\<lambda>f. (u, f)) (form_close f))\<rparr>"

subsection \<open>One's own password\<close>

datatype password_text = Mismatch_text | Wrong_current_text | Too_many_text | Not_changed_text

record password_dialog =
  pd_current :: jstr
  pd_next :: jstr
  pd_confirm :: jstr
  pd_error :: "password_text option"
  pd_done :: bool
  pd_busy :: bool

definition password_submit :: "password_dialog \<Rightarrow> password_change option \<times> password_dialog" where
  "password_submit d =
     (if pd_busy d then (None, d)
      else if pd_next d \<noteq> pd_confirm d then (None, d\<lparr>pd_error := Some Mismatch_text\<rparr>)
      else (Some \<lparr>pc_currentPassword = pd_current d, pc_newPassword = pd_next d\<rparr>,
        d\<lparr>pd_busy := True, pd_error := None\<rparr>))"

definition password_reply :: "string response option \<Rightarrow> password_dialog \<Rightarrow> password_dialog" where
  "password_reply r d0 =
     (let d = d0\<lparr>pd_busy := False\<rparr>
      in case r of
           Some (Ok _) \<Rightarrow> d\<lparr>pd_done := True\<rparr>
         | Some (Fail _ code _) \<Rightarrow> d\<lparr>pd_error := Some (if code = ''wrong_password'' then Wrong_current_text
             else if code = ''rate_limited'' then Too_many_text else Not_changed_text)\<rparr>
         | _ \<Rightarrow> d\<lparr>pd_error := Some Not_changed_text\<rparr>)"

subsection \<open>The login form\<close>

datatype login_text = Too_many_logins | No_server | Invalid_credentials

record login_form =
  lf_email :: jstr
  lf_password :: jstr
  lf_error :: "login_text option"
  lf_busy :: bool
  lf_landed :: "role option"

definition login_submit :: "login_form \<Rightarrow> (jstr \<times> jstr) \<times> login_form" where
  "login_submit f = ((lf_email f, lf_password f), f\<lparr>lf_busy := True, lf_error := None\<rparr>)"

text \<open>The landing page is named by the server from the role: the admin's or the desk's.\<close>

definition login_reply :: "(string \<times> role) response option \<Rightarrow> login_form \<Rightarrow> login_form" where
  "login_reply r f0 =
     (let f = f0\<lparr>lf_busy := False\<rparr>
      in case r of
           None \<Rightarrow> f\<lparr>lf_error := Some No_server\<rparr>
         | Some (Ok (_, role)) \<Rightarrow> f\<lparr>lf_landed := Some role\<rparr>
         | Some (Fail st _ _) \<Rightarrow> f\<lparr>lf_error := Some (if st = 429 then Too_many_logins else Invalid_credentials)\<rparr>
         | Some Crash \<Rightarrow> f\<lparr>lf_error := Some Invalid_credentials\<rparr>)"

subsection \<open>Saving an account signs it out\<close>

lemma PATCH_staff_Ok:
  assumes "PATCH_staff pf target cookie body s = (Ok (), s')"
  obtains st :: staff_claims and c i where "requireStaff pf Admin cookie s = (Some st, s\<lparr>accountCache := c\<rparr>)" "body = Some i"
    "updateStaff pf (sc_venueId st) target (sc_sub st) i (s\<lparr>accountCache := c\<rparr>) = (Done (), s')"
  using assms
  by (cases rule: requireStaff_cases[of pf Admin cookie s])
    (auto simp: PATCH_staff_def split: option.splits if_splits prod.splits outcome.splits)

lemma saved_row:
  assumes "PATCH_staff pf target cookie (Some i) s = (Ok (), s')"
    and "findFirst (\<lambda>u. su_id u = target) (staffUsers s) = Some u"
  shows "findFirst (\<lambda>u. su_id u = target) (staffUsers s') = Some (apply_update pf i u)"
    and "map_of (accountCache s') target = None" and "now s' = now s"
proof -
  obtain st :: staff_claims and c i' where b: "Some i = Some i'"
    and "updateStaff pf (sc_venueId st) target (sc_sub st) i' (s\<lparr>accountCache := c\<rparr>) = (Done (), s')"
    using assms(1) by (rule PATCH_staff_Ok)
  then have "updateStaff pf (sc_venueId st) target (sc_sub st) i (s\<lparr>accountCache := c\<rparr>) = (Done (), s')" by simp
  from updateStaff_Done(1-3)[OF this] show "findFirst (\<lambda>u. su_id u = target) (staffUsers s') = Some (apply_update pf i u)"
    "map_of (accountCache s') target = None" "now s' = now s"
    using assms(2) findFirst_SomeD[OF assms(2)] by (simp_all add: findFirst_updateMany_key delete_conv)
qed

lemma old_token_refused:
  assumes "findFirst (\<lambda>u. su_id u = sc_sub c) (staffUsers s') = Some u'" and "map_of (accountCache s') (sc_sub c) = None"
    and "pf_jwtVerify pf (now s') tok = Some c" and "token_version c \<noteq> su_tokenVersion u'"
  shows "fst (getStaff pf (Some tok) s') = None"
  using getStaff_fresh[of tok pf s' c u'] assms by (cases "tok = [] \<or> sc_sub c = []") (auto simp: getStaff_def)


definition a1_row :: staff_row where
  "a1_row = \<lparr>sr_id = ''a1'', sr_email = lit ''a1'', sr_name = lit ''a1'', sr_role = Admin, sr_active = True,
     sr_createdAt = 0\<rparr>"

definition renaming_oneself :: staff_panel where
  "renaming_oneself = \<lparr>sp_data = Some ([a1_row], ''a1''), sp_busy = None, sp_adding = None,
     sp_editing = Some (a1_row, (form_of ''a1'' a1_row)\<lparr>sf_name := lit ''Ayse''\<rparr>), sp_error = None, sp_reloads = 0\<rparr>"

definition rename_a1 :: staff_update where
  "rename_a1 = \<lparr>up_name = Some (lit ''Ayse''), up_role = Some Admin, up_active = None, up_password = None,
     up_signOutEverywhere = None\<rparr>"


subsection \<open>A reply that never comes\<close>

inductive edit_step :: "staff_panel \<Rightarrow> staff_panel \<Rightarrow> bool" where
  type_name: "sp_editing p = Some (u, f) \<Longrightarrow> edit_step p (p\<lparr>sp_editing := Some (u, f\<lparr>sf_name := t\<rparr>)\<rparr>)"
| type_password: "sp_editing p = Some (u, f) \<Longrightarrow> edit_step p (p\<lparr>sp_editing := Some (u, f\<lparr>sf_password := t\<rparr>)\<rparr>)"
| choose_role: "sp_editing p = Some (u, f) \<Longrightarrow> edit_step p (p\<lparr>sp_editing := Some (u, pick_role r f)\<rparr>)"
| press_save: "edit_step p (snd (edit_submit p))"
| press_close: "edit_step p (close_edit p)"

definition waiting_form :: "staff_panel \<Rightarrow> bool" where
  "waiting_form p \<longleftrightarrow> (case sp_editing p of None \<Rightarrow> False | Some (_, f) \<Rightarrow> sf_busy f)"

inductive_cases edit_stepE: "edit_step p q"

interpretation waiting: machine_invariant waiting_form edit_step waiting_form
proof
  fix p q assume "edit_step p q" "waiting_form p"
  then show "waiting_form q"
    by (elim edit_stepE)
      (auto simp: waiting_form_def pick_role_def edit_submit_def form_submit_def close_edit_def form_close_def
        split: option.splits)
qed

text \<open>
  A lost reply locks the account form. The panel does not catch a failed fetch, so when the
  connection drops during a save the form stays busy: no typing, no press of Save and no attempt
  to close it (Cancel, Escape, the backdrop) ever closes it or sends anything again, and no error
  is shown. Only loading the page again helps.
\<close>

theorem lost_reply_locks_the_form:
  assumes "edit_submit p = (Some sent, p1)" and "edit_step\<^sup>*\<^sup>* (edit_reply None p1) q"
  shows "sp_editing q \<noteq> None \<and> fst (edit_submit q) = None \<and>
    map_option (sf_error \<circ> snd) (sp_editing (edit_reply None p1)) = map_option (sf_error \<circ> snd) (sp_editing p)"
proof -
  have "waiting_form (edit_reply None p1)"
    using assms(1)
    by (auto simp: edit_submit_def edit_reply_def form_submit_def waiting_form_def split: option.splits prod.splits if_splits)
  then have "waiting_form q" by (rule waiting.inv_steps[OF assms(2)])
  moreover have "map_option (sf_error \<circ> snd) (sp_editing (edit_reply None p1)) = map_option (sf_error \<circ> snd) (sp_editing p)"
    using assms(1) by (auto simp: edit_submit_def edit_reply_def form_submit_def split: option.splits if_splits)
  ultimately show ?thesis
    by (auto simp: waiting_form_def edit_submit_def form_submit_def split: option.splits)
qed

theorem lost_reply_locks_the_form_witness:
  "sp_editing (close_edit (edit_reply None (snd (edit_submit renaming_oneself)))) \<noteq> None"
proof -
  obtain x where "edit_submit renaming_oneself = (Some x, snd (edit_submit renaming_oneself))"
    by (simp add: edit_submit_def renaming_oneself_def form_submit_def form_of_def)
  from lost_reply_locks_the_form[OF this r_into_rtranclp[of edit_step, OF press_close]] show ?thesis by blast
qed

subsection \<open>A new password\<close>

text \<open>
  The password dialog changes the password it shows. When the dialog reports success, the two
  texts typed were the same, and the account signs in with that text from then on, whatever else
  was stored; the role decides the page it lands on.
\<close>

theorem changed_password_signs_in:
  assumes "password_submit d = (Some i, d')" and "POST_password pf req (Some tok) (Some i) s = (Ok fresh, s')"
    and "pf_jwtVerify pf (now s) tok = Some c" and row: "findFirst (\<lambda>u. su_id u = sc_sub c) (staffUsers s) = Some u"
    and "distinct (map su_email (staffUsers s))" and "su_active u"
    and bcrypt: "pf_bcryptCompare pf (pd_next d) (pf_bcryptHash pf (pd_next d))"
  shows "pd_next d = pd_confirm d \<and> pd_done (password_reply (Some (Ok fresh)) d') \<and>
    (\<exists>token. loginStaff pf (su_email u) (pd_next d) s' = Some (token, su_role u) \<and>
       lf_landed (login_reply (Some (Ok (token, su_role u))) f) = Some (su_role u))"
proof -
  have d: "pd_next d = pd_confirm d" "pc_newPassword i = pd_next d"
    using assms(1) by (auto simp: password_submit_def split: if_splits)
  from POST_password_Ok[OF assms(2-3) row] d(2) have users: "staffUsers s' = updateMany (\<lambda>x. su_id x = sc_sub c)
      (\<lambda>x. x\<lparr>su_passwordHash := pf_bcryptHash pf (pd_next d), su_tokenVersion := su_tokenVersion x + 1\<rparr>) (staffUsers s)"
    by simp
  have u: "u \<in> set (staffUsers s)" "su_id u = sc_sub c" using findFirst_SomeD[OF row] by simp_all
  have "findFirst (\<lambda>x. su_email x = su_email u) (staffUsers s') =
      Some (u\<lparr>su_passwordHash := pf_bcryptHash pf (pd_next d), su_tokenVersion := su_tokenVersion u + 1\<rparr>)"
    using findFirst_key[OF assms(5) u(1)] u(2) by (simp add: users findFirst_updateMany_key)
  then show ?thesis using d(1) assms(6) bcrypt by (simp add: loginStaff_def password_reply_def login_reply_def)
qed

definition new_password :: password_dialog where
  "new_password = \<lparr>pd_current = lit ''h'', pd_next = replicate 8 97, pd_confirm = replicate 8 97, pd_error = None,
     pd_done = False, pd_busy = False\<rparr>"

theorem changed_password_signs_in_witness:
  "\<exists>token. loginStaff toy_platform (su_email (sample_staff ''a1'' Admin)) (replicate 8 97)
     (snd (POST_password toy_platform bare_request (Some ''a1-0'') (Some toy_change) sample)) = Some (token, Admin)"
proof -
  let ?r = "POST_password toy_platform bare_request (Some ''a1-0'') (Some toy_change) sample"
  have "fst ?r = Ok ''a1-1''"
    by (simp add: POST_password_def getStaff_def toy_platform_def toy_verify_def toy_claims_def accountState_def
        sample_defs state_of_user_def token_version_def rateLimit_def toy_change_def valid_password_change_def
        PASSWORD_MIN_def changeOwnPassword_def invalidateStaffCache_def createStaffToken_def toy_token_def
        MAX_KEYS_def case_prod_unfold Let_def)
  then have r: "?r = (Ok ''a1-1'', snd ?r)" by (simp add: prod_eq_iff)
  have sent: "password_submit new_password = (Some toy_change, new_password\<lparr>pd_busy := True\<rparr>)"
    by (simp add: password_submit_def new_password_def toy_change_def)
  have claims: "pf_jwtVerify toy_platform (now sample) ''a1-0'' = Some (toy_claims ''a1'' Admin 0)"
    by (simp add: toy_platform_def toy_verify_def)
  have row: "findFirst (\<lambda>u. su_id u = sc_sub (toy_claims ''a1'' Admin 0)) (staffUsers sample) = Some (sample_staff ''a1'' Admin)"
    by (simp add: toy_claims_def sample_defs)
  have mails: "distinct (map su_email (staffUsers sample))" "su_active (sample_staff ''a1'' Admin)"
    by (simp_all add: sample_defs)
  have bcrypt: "pf_bcryptCompare toy_platform (pd_next new_password) (pf_bcryptHash toy_platform (pd_next new_password))"
    by (simp add: toy_platform_def new_password_def lit_def)
  from changed_password_signs_in[OF sent r claims row mails bcrypt] show ?thesis
    by (auto simp: new_password_def sample_staff_def)
qed

end
