(* ===== verification/DeskScreen.thy ===== *)
theory DeskScreen
  imports Live
begin

section \<open>The desk's screen\<close>

text \<open>
  \<open>src/components/DeskBoard.tsx\<close>: the board staff work on, its order cards, the bill and
  rejection dialogs and the correction dialog. A React state is a field of the record \<open>desk\<close>;
  a handler that awaits the server is what it does before the request leaves and what it does
  with the reply, which is \<open>None\<close> when the request or its answer was lost. A reload the code
  starts is appended to \<open>ds_loads\<close>; its reply is a step of its own. Markup, labels and the sound
  itself are left out, and an error text is the error it stands for.
\<close>

subsection \<open>State\<close>

datatype desk_load = Load_board | Load_tables

text \<open>What a settlement or a correction can be refused with, as the screen words it.\<close>

datatype settle_text = Kitchen_busy | Table_settled | Settle_failed
datatype edit_text = Not_editable_text | Conflict_text | Empties_text | No_change_text
  | Unknown_line_text | Save_failed

record edit_dialog =
  dg_order :: board_order
  dg_qty :: "(id \<times> int) list"
  dg_error :: "edit_text option"
  dg_busy :: bool

record desk =
  ds_orders :: "board_order list"
  ds_showAll :: bool
  ds_rejecting :: "id option"
  ds_reason :: jstr
  ds_customReason :: jstr
  ds_now :: time
  ds_bills :: "bill_row list"
  ds_settling :: "bill option"
  ds_showSplit :: bool
  ds_settleBusy :: bool
  ds_settleError :: "settle_text option"
  ds_changingPassword :: bool
  ds_editing :: "edit_dialog option"
  ds_amendmentNotice :: bool
  ds_connected :: bool
  ds_loadError :: bool
  ds_login :: bool
  ds_beeps :: nat
  ds_loads :: "desk_load list"

definition first_desk :: "time \<Rightarrow> desk" where
  "first_desk t = \<lparr>ds_orders = [], ds_showAll = False, ds_rejecting = None, ds_reason = [],
     ds_customReason = [], ds_now = t, ds_bills = [], ds_settling = None, ds_showSplit = False,
     ds_settleBusy = False, ds_settleError = None, ds_changingPassword = False, ds_editing = None,
     ds_amendmentNotice = False, ds_connected = True, ds_loadError = False, ds_login = False,
     ds_beeps = 0, ds_loads = [Load_board, Load_tables]\<rparr>"

definition reload :: "desk_load list \<Rightarrow> desk \<Rightarrow> desk" where
  "reload ls d = d\<lparr>ds_loads := ds_loads d @ ls\<rparr>"

definition DONE :: "order_status list" where
  "DONE = [Served, Rejected, Cancelled]"

definition OTHER :: jstr where
  "OTHER = lit ''Di'' @ [287] @ lit ''er / Other''"

definition REJECT_REASONS :: "jstr list" where
  "REJECT_REASONS = [lit ''Stokta yok / Item unavailable'',
     lit ''Mutfak '' @ [231] @ lit ''ok yo'' @ [287] @ lit ''un / Kitchen overloaded'', OTHER]"

subsection \<open>Loading and the stream\<close>

definition load_reply :: "board_order list response option \<Rightarrow> desk \<Rightarrow> desk" where
  "load_reply r d =
     (case r of
        Some (Ok os) \<Rightarrow> d\<lparr>ds_orders := os, ds_loadError := False\<rparr>
      | Some (Fail code _ _) \<Rightarrow> if code = 401 then d\<lparr>ds_login := True\<rparr> else d\<lparr>ds_loadError := True\<rparr>
      | _ \<Rightarrow> d\<lparr>ds_loadError := True\<rparr>)"

definition loadBills_reply :: "bill_row list response option \<Rightarrow> desk \<Rightarrow> desk" where
  "loadBills_reply r d = (case r of Some (Ok bs) \<Rightarrow> d\<lparr>ds_bills := bs\<rparr> | _ \<Rightarrow> d)"

definition desk_message :: "message \<Rightarrow> desk \<Rightarrow> desk" where
  "desk_message m d =
     (case m of
        Connected \<Rightarrow> d\<lparr>ds_connected := True\<rparr>
      | Hint ty \<Rightarrow>
          (let d1 = (if ty = ''order.created'' \<or> ty = ''bill.requested'' then d\<lparr>ds_beeps := ds_beeps d + 1\<rparr> else d);
               d2 = (if ty = ''order.created'' \<or> ty = ''order.updated'' then reload [Load_board, Load_tables] d1 else d1)
           in if ty = ''bill.requested'' \<or> ty = ''bill.updated'' \<or> ty = ''visit.closed''
              then reload [Load_tables] d2 else d2)
      | _ \<Rightarrow> d)"

definition stream_opened :: "desk \<Rightarrow> desk" where
  "stream_opened d = d\<lparr>ds_connected := True\<rparr>"

definition stream_failed :: "desk \<Rightarrow> desk" where
  "stream_failed d = d\<lparr>ds_connected := False\<rparr>"

definition tick :: "time \<Rightarrow> desk \<Rightarrow> desk" where
  "tick t d = d\<lparr>ds_now := t\<rparr>"

definition poll :: "desk \<Rightarrow> desk" where
  "poll d = reload [Load_board, Load_tables] d"

subsection \<open>Bills\<close>

definition openBill_send :: "desk \<Rightarrow> desk" where
  "openBill_send d = d\<lparr>ds_settleError := None, ds_showSplit := False\<rparr>"

definition openBill_reply :: "bill response option \<Rightarrow> desk \<Rightarrow> desk" where
  "openBill_reply r d = (case r of Some (Ok b) \<Rightarrow> d\<lparr>ds_settling := Some b\<rparr> | _ \<Rightarrow> d)"

definition settle_send :: "payment_method \<Rightarrow> bool \<Rightarrow> desk \<Rightarrow> (id \<times> settle_body) option \<times> desk" where
  "settle_send m force d =
     (case ds_settling d of
        None \<Rightarrow> (None, d)
      | Some b \<Rightarrow> (Some (b_visitId b, \<lparr>sb_paymentMethod = m, sb_paidAmountKurus = None, sb_force = Some force\<rparr>),
          d\<lparr>ds_settleBusy := True, ds_settleError := None\<rparr>))"

definition settle_text_of :: "string \<Rightarrow> settle_text" where
  "settle_text_of err = (if err = ''orders_in_flight'' then Kitchen_busy
     else if err = ''already_closed'' then Table_settled else Settle_failed)"

definition settle_reply :: "int response option \<Rightarrow> desk \<Rightarrow> desk" where
  "settle_reply r d0 =
     (let d = d0\<lparr>ds_settleBusy := False\<rparr>
      in case r of
           Some (Ok _) \<Rightarrow> reload [Load_board, Load_tables] (d\<lparr>ds_settling := None\<rparr>)
         | Some (Fail _ err _) \<Rightarrow>
             (let d1 = d\<lparr>ds_settleError := Some (settle_text_of err)\<rparr>
              in if err = ''already_closed'' then reload [Load_tables] d1 else d1)
         | _ \<Rightarrow> d\<lparr>ds_settleError := Some Settle_failed\<rparr>)"

text \<open>
  The buttons of the bill dialog while no request is on its way: cash, card, and, below the text
  about the kitchen only, closing anyway.
\<close>

definition settle_buttons :: "desk \<Rightarrow> (payment_method \<times> bool) list" where
  "settle_buttons d =
     (if ds_settling d = None \<or> ds_settleBusy d then []
      else [(Cash, False), (Card, False)] @ (if ds_settleError d = Some Kitchen_busy then [(Cash, True)] else []))"

definition dismiss_reply :: "desk \<Rightarrow> desk" where
  "dismiss_reply d = reload [Load_tables] d"

text \<open>A table's card: whether its bill was asked for, and for how many minutes.\<close>

definition bill_requested :: "bill_row \<Rightarrow> bool" where
  "bill_requested b \<longleftrightarrow> br_status b = BillRequested"

definition waiting_min :: "time \<Rightarrow> bill_row \<Rightarrow> int" where
  "waiting_min t b = (case br_billRequestedAt b of None \<Rightarrow> 0 | Some at \<Rightarrow> (t - at) div 60000)"

subsection \<open>Setting a status\<close>

definition optimistic :: "order_status \<Rightarrow> jstr option \<Rightarrow> board_order \<Rightarrow> board_order" where
  "optimistic st reason c = c\<lparr>bo_status := st, bo_rejectReason := reason\<rparr>"

definition transition_send :: "id \<Rightarrow> order_status \<Rightarrow> jstr option \<Rightarrow> desk \<Rightarrow> status_body \<times> desk" where
  "transition_send i st reason d =
     (\<lparr>pb_status = Some st, pb_rejectReason = reason\<rparr>,
      d\<lparr>ds_orders := updateMany (\<lambda>c. bo_id c = i) (optimistic st reason) (ds_orders d)\<rparr>)"

definition transition_reply :: "order_status response option \<Rightarrow> desk \<Rightarrow> desk" where
  "transition_reply r d =
     (let d1 = reload [Load_board] d in case r of None \<Rightarrow> d1\<lparr>ds_loadError := True\<rparr> | Some _ \<Rightarrow> d1)"

definition finalReason :: "desk \<Rightarrow> jstr" where
  "finalReason d = (if ds_reason d = OTHER then trim (ds_customReason d) else ds_reason d)"

definition open_reject :: "id \<Rightarrow> desk \<Rightarrow> desk" where
  "open_reject i d = d\<lparr>ds_rejecting := Some i, ds_reason := [], ds_customReason := []\<rparr>"

text \<open>The button of the rejection dialog, disabled while there is no reason.\<close>

definition reject_press :: "desk \<Rightarrow> (id \<times> status_body) option \<times> desk" where
  "reject_press d =
     (case ds_rejecting d of
        None \<Rightarrow> (None, d)
      | Some i \<Rightarrow> if finalReason d = [] then (None, d)
          else (let (body, d') = transition_send i Rejected (Some (finalReason d)) d
                in (Some (i, body), d'\<lparr>ds_rejecting := None\<rparr>)))"

subsection \<open>The cards\<close>

definition active_cards :: "desk \<Rightarrow> board_order list" where
  "active_cards d = filter (\<lambda>c. bo_status c \<notin> set DONE) (ds_orders d)"

definition done_cards :: "desk \<Rightarrow> board_order list" where
  "done_cards d = filter (\<lambda>c. bo_status c \<in> set DONE) (ds_orders d)"

definition shown_cards :: "desk \<Rightarrow> board_order list" where
  "shown_cards d = (if ds_showAll d then active_cards d @ done_cards d else active_cards d)"

definition age_min :: "time \<Rightarrow> board_order \<Rightarrow> int" where
  "age_min t c = (t - bo_createdAt c) div 60000"

definition urgent :: "time \<Rightarrow> board_order \<Rightarrow> bool" where
  "urgent t c \<longleftrightarrow> 10 \<le> age_min t c \<and> bo_status c \<in> {Received, Accepted, Preparing}"

datatype card_button = Set_status order_status | Ask_reason | Correct

definition card_buttons :: "order_status \<Rightarrow> card_button list" where
  "card_buttons st =
     (if st = Received then [Set_status Accepted, Ask_reason] else []) @
     (if st = Accepted then [Set_status Preparing, Set_status Ready, Ask_reason] else []) @
     (if st = Preparing then [Set_status Ready, Ask_reason] else []) @
     (if st = Ready then [Set_status Served] else []) @
     (if st \<in> {Received, Accepted, Preparing, Ready} then [Correct] else [])"

subsection \<open>The correction dialog\<close>

definition item_id :: "id \<times> jstr \<times> int \<times> jstr \<times> jstr list \<Rightarrow> id" where
  "item_id i = fst i"

definition item_qty :: "id \<times> jstr \<times> int \<times> jstr \<times> jstr list \<Rightarrow> int" where
  "item_qty i = fst (snd (snd i))"

definition fresh_dialog :: "board_order \<Rightarrow> edit_dialog" where
  "fresh_dialog c = \<lparr>dg_order = c, dg_qty = map (\<lambda>i. (item_id i, item_qty i)) (bo_items c),
     dg_error = None, dg_busy = False\<rparr>"

definition open_edit :: "board_order \<Rightarrow> desk \<Rightarrow> desk" where
  "open_edit c d = d\<lparr>ds_editing := Some (fresh_dialog c)\<rparr>"

definition qty_of :: "edit_dialog \<Rightarrow> id \<Rightarrow> int" where
  "qty_of g i = (case map_of (dg_qty g) i of None \<Rightarrow> 0 | Some q \<Rightarrow> q)"

text \<open>The two buttons of a line; each is disabled at its end.\<close>

inductive dialog_step :: "edit_dialog \<Rightarrow> edit_dialog \<Rightarrow> bool" where
  dg_less: "i \<in> set (bo_items (dg_order g)) \<Longrightarrow> qty_of g (item_id i) \<noteq> 0 \<Longrightarrow>
    dialog_step g (g\<lparr>dg_qty := AList.update (item_id i) (max 0 (qty_of g (item_id i) - 1)) (dg_qty g)\<rparr>)"
| dg_more: "i \<in> set (bo_items (dg_order g)) \<Longrightarrow> qty_of g (item_id i) < item_qty i \<Longrightarrow>
    dialog_step g (g\<lparr>dg_qty := AList.update (item_id i) (min (item_qty i) (qty_of g (item_id i) + 1)) (dg_qty g)\<rparr>)"

definition changed :: "edit_dialog \<Rightarrow> bool" where
  "changed g \<longleftrightarrow> filter (\<lambda>i. qty_of g (item_id i) \<noteq> item_qty i) (bo_items (dg_order g)) \<noteq> []"

definition edit_lines :: "edit_dialog \<Rightarrow> edit_line list" where
  "edit_lines g = map (\<lambda>i. \<lparr>el_itemId = item_id i, el_qty = qty_of g (item_id i)\<rparr>) (bo_items (dg_order g))"

definition save_send :: "edit_dialog \<Rightarrow> (id \<times> edit_line list) option \<times> edit_dialog" where
  "save_send g =
     (if dg_busy g \<or> \<not> changed g then (None, g)
      else (Some (bo_id (dg_order g), edit_lines g), g\<lparr>dg_busy := True, dg_error := None\<rparr>))"

definition edit_text_of :: "string \<Rightarrow> edit_text" where
  "edit_text_of err = (if err = ''not_editable'' then Not_editable_text
     else if err = ''conflict'' then Conflict_text
     else if err = ''empties_order'' then Empties_text
     else if err = ''no_change'' then No_change_text
     else if err = ''unknown_line'' then Unknown_line_text else Save_failed)"

text \<open>The reply to a save: the dialog is closed, or shows a text. The notice goes after six seconds.\<close>

definition fail_edit :: "edit_text \<Rightarrow> desk \<Rightarrow> desk" where
  "fail_edit t d = d\<lparr>ds_editing := map_option (\<lambda>g. g\<lparr>dg_busy := False, dg_error := Some t\<rparr>) (ds_editing d)\<rparr>"

definition saveEdit_reply :: "edit_ok response option \<Rightarrow> desk \<Rightarrow> desk" where
  "saveEdit_reply r d =
     (case r of
        Some (Ok k) \<Rightarrow>
          (let d1 = reload [Load_board, Load_tables] (d\<lparr>ds_editing := None\<rparr>)
           in if eo_amendmentPrinted k then d1\<lparr>ds_settleError := None, ds_amendmentNotice := True\<rparr> else d1)
      | Some (Fail _ err _) \<Rightarrow> fail_edit (edit_text_of err)
          (if err = ''conflict'' \<or> err = ''not_editable'' then reload [Load_board] d else d)
      | _ \<Rightarrow> fail_edit Save_failed d)"

definition notice_over :: "desk \<Rightarrow> desk" where
  "notice_over d = d\<lparr>ds_amendmentNotice := False\<rparr>"

subsection \<open>The buttons and the table of transitions\<close>

text \<open>The statuses a card can ask for, and the edit button, agree with the server's tables.\<close>

lemma buttons_match_table:
  "st' \<in> set (transitions st) \<longleftrightarrow>
     Set_status st' \<in> set (card_buttons st) \<or> (st' = Rejected \<and> Ask_reason \<in> set (card_buttons st))"
  "Correct \<in> set (card_buttons st) \<longleftrightarrow> st \<in> set EDITABLE_STATUSES"
  "st \<in> set DONE \<longleftrightarrow> st \<notin> {Received, Accepted, Preparing, Ready}"
  by (cases st; cases st'; simp add: card_buttons_def EDITABLE_STATUSES_def IN_FLIGHT_STATUSES_def DONE_def)+

subsection \<open>Sorted tables under an update\<close>

lemma map_orderBy: "(\<And>x. k (g x) = k x) \<Longrightarrow> map g (orderBy k xs) = orderBy k (map g xs)"
proof -
  assume k: "\<And>x. k (g x) = k x"
  have ins: "map g (insort_key k a ys) = insort_key k (g a) (map g ys)" for a ys
    by (induction ys) (simp_all add: k)
  show ?thesis by (induction xs) (simp_all add: orderBy_def ins)
qed

lemma filter_orderBy: "filter p (orderBy k xs) = orderBy k (filter p xs)"
  by (simp add: orderBy_def filter_sort)

lemma filter_map_commute:
  "(\<And>x. x \<in> set xs \<Longrightarrow> p (g x) \<Longrightarrow> q x \<longleftrightarrow> q (g x)) \<Longrightarrow>
   filter p (map g (filter q xs)) = filter p (filter q (map g xs))"
  by (induction xs) auto

subsection \<open>What the screen shows at once is what the reload shows\<close>

definition card_key :: "board_order \<Rightarrow> id \<times> order_status \<times> jstr option" where
  "card_key c = (bo_id c, bo_status c, bo_rejectReason c)"

definition order_key :: "order \<Rightarrow> id \<times> order_status \<times> jstr option" where
  "order_key o' = (ord_id o', ord_status o', ord_rejectReason o')"

lemma board_keys: "map card_key (map (board_order_of s f) xs) = map order_key xs"
  by (simp add: card_key_def order_key_def board_order_of_def)

lemma active_keys:
  "map card_key (filter (\<lambda>c. bo_status c \<notin> set DONE) (map (board_order_of s f) xs)) =
   map order_key (filter (\<lambda>o'. ord_status o' \<notin> set DONE) xs)"
  by (induction xs) (simp_all add: card_key_def order_key_def board_order_of_def)

lemma optimistic_keys:
  assumes "ord_rejectReason (desk_status st b x) = reason"
  shows "map card_key (filter (\<lambda>c. bo_status c \<notin> set DONE)
      (updateMany (\<lambda>c. bo_id c = i) (optimistic st reason) (map (board_order_of s f) xs))) =
    map order_key (filter (\<lambda>o'. ord_status o' \<notin> set DONE) (updateMany (\<lambda>o'. ord_id o' = i) (desk_status st b) xs))"
proof -
  have "ord_rejectReason (desk_status st b y) = reason" for y
    using assms by (simp add: desk_status_def)
  then show ?thesis
    by (induction xs) (simp_all add: card_key_def order_key_def board_order_of_def optimistic_def desk_status_def)
qed

lemma board_active:
  "filter (\<lambda>c. bo_status c \<notin> set DONE) (desk_board listAll ven s) =
   filter (\<lambda>c. bo_status c \<notin> set DONE) (map (board_order_of s (session_first
     (orderBy ord_createdAt (filter (on_board listAll (now s) ven) (orders s))) []))
     (orderBy ord_createdAt (filter (on_board listAll (now s) ven) (orders s))))"
  by (simp add: desk_board_def Let_def)

lemma active_after_update:
  assumes "\<And>x. x \<in> set rows \<Longrightarrow> ord_id x = i \<Longrightarrow> ord_status x \<in> {Received, Accepted, Preparing, Ready}"
  shows "filter (\<lambda>o'. ord_status o' \<notin> set DONE)
      (updateMany (\<lambda>o'. ord_id o' = i) (desk_status st b) (orderBy ord_createdAt (filter (on_board listAll t ven) rows))) =
    filter (\<lambda>o'. ord_status o' \<notin> set DONE)
      (orderBy ord_createdAt (filter (on_board listAll t ven) (updateMany (\<lambda>o'. ord_id o' = i) (desk_status st b) rows)))"
proof -
  let ?g = "\<lambda>o'. if ord_id o' = i then desk_status st b o' else o'"
  let ?act = "\<lambda>o'. ord_status o' \<notin> set DONE"
  have "filter ?act (map ?g (filter (on_board listAll t ven) rows)) = filter ?act (filter (on_board listAll t ven) (map ?g rows))"
    by (rule filter_map_commute)
      (use assms in \<open>auto simp: on_board_def desk_status_def buttons_match_table(3) split: if_splits\<close>)
  moreover have "map ?g (orderBy ord_createdAt xs) = orderBy ord_createdAt (map ?g xs)" for xs
    by (rule map_orderBy) (simp add: desk_status_def)
  ultimately show ?thesis unfolding updateMany_def by (simp add: filter_orderBy)
qed

lemma board_cache [simp]: "desk_board listAll ven (s\<lparr>accountCache := c\<rparr>) = desk_board listAll ven s"
proof -
  have "board_order_of (s\<lparr>accountCache := c\<rparr>) f o' = board_order_of s f o'" for f o'
    by (simp add: board_order_of_def latest_delivery_def table_name_def edits_of_order_def)
  then show ?thesis by (simp add: desk_board_def Let_def)
qed

lemma enqueue_now [simp]: "now (enqueuePosDelivery lf newId oid am s) = now s"
  using enqueue_state[of lf newId oid am s] by auto

lemma desk_write_now: "now (snd (desk_write lf newId ven oid st b s)) = now s"
  by (simp add: desk_write_def Let_def enqueuePosDeliveryInBackground_def split: option.split)

lemma findFirst_only:
  assumes "distinct (map ord_id os)" and "x \<in> set os" and "p x" and "\<And>y. p y \<Longrightarrow> ord_id y = ord_id x"
  shows "findFirst p os = Some x"
proof -
  obtain y where y: "findFirst p os = Some y" using findFirst_Some_ex[OF assms(2), of p] assms(3) by blast
  then have "y \<in> set os" "ord_id y = ord_id x" using findFirst_SomeD[OF y] assms(4) by auto
  then show ?thesis using y assms(1,2) by (metis distinct_map inj_onD)
qed

text \<open>What a press on the card of an order sends: a status, and for a refusal a reason.\<close>

fun press_offered :: "order_status \<Rightarrow> order_status \<Rightarrow> jstr option \<Rightarrow> bool" where
  "press_offered old st None = (Set_status st \<in> set (card_buttons old))"
| "press_offered old st (Some r) = (Ask_reason \<in> set (card_buttons old) \<and> st = Rejected \<and> r \<noteq> [])"

lemma press_read:
  assumes "press_offered (ord_status x) st reason" and "distinct (map ord_id (orders s))"
    and "x \<in> set (orders s)" and "ord_venueId x = ven"
  shows "desk_read ven (ord_id x) \<lparr>pb_status = Some st, pb_rejectReason = reason\<rparr> s = Done st"
    and "ord_status x \<in> {Received, Accepted, Preparing, Ready}"
    and "ord_rejectReason (desk_status st \<lparr>pb_status = Some st, pb_rejectReason = reason\<rparr> y) =
      map_option (take 200) reason"
proof -
  have f: "findFirst (\<lambda>o'. ord_id o' = ord_id x \<and> ord_venueId o' = ven) (orders s) = Some x"
    by (rule findFirst_only) (use assms in auto)
  have legal: "st \<in> set (transitions (ord_status x))"
    using assms(1) by (cases reason) (auto simp: buttons_match_table(1))
  have notrej: "reason = None \<Longrightarrow> st \<noteq> Rejected"
    using assms(1) by (cases "ord_status x") (auto simp: card_buttons_def)
  show "desk_read ven (ord_id x) \<lparr>pb_status = Some st, pb_rejectReason = reason\<rparr> s = Done st"
    using f legal notrej assms(1) by (cases reason) (auto simp: desk_read_def reason_given_def)
  show "ord_status x \<in> {Received, Accepted, Preparing, Ready}"
    using legal by (cases "ord_status x") auto
  show "ord_rejectReason (desk_status st \<lparr>pb_status = Some st, pb_rejectReason = reason\<rparr> y) = map_option (take 200) reason"
    using notrej assms(1) by (cases reason) (auto simp: desk_status_def reason_given_def)
qed

text \<open>
  C29: What the screen shows at once is what the reload shows. When the desk presses a button that
  the card of an order offers, on a board that is up to date and signed in, the server accepts
  the request with the status asked for, and the active cards the screen drew before the answer
  agree, in identity, status and reason and in their order, with those of the board that is
  loaded afterwards (a reason has at most 200 characters, where the server cuts it). No button of
  a card can be refused.
\<close>

theorem optimistic_board_is_reloaded:
  assumes "requireStaff pf Desk cookie s = (Some staff, s1)"
    and "distinct (map ord_id (orders s))" and "x \<in> set (orders s)" and "ord_venueId x = sc_venueId staff"
    and "press_offered (ord_status x) st reason" and "length (case reason of None \<Rightarrow> [] | Some r \<Rightarrow> r) \<le> 200"
    and "ds_orders d = desk_board listAll (sc_venueId staff) s"
    and "transition_send (ord_id x) st reason d = (body, d')"
    and "PATCH_desk_order pf lf newId (ord_id x) body cookie s = (answer, s2)"
  shows "answer = Ok st \<and>
    map card_key (filter (\<lambda>c. bo_status c \<notin> set DONE) (desk_board listAll (sc_venueId staff) s2)) =
    map card_key (active_cards d')"
proof -
  let ?ven = "sc_venueId staff" and ?i = "ord_id x"
  obtain c where s1: "s1 = s\<lparr>accountCache := c\<rparr>"
    using assms(1) requireStaff_cases[of pf Desk cookie s] by (metis prod.inject)
  have b: "body = \<lparr>pb_status = Some st, pb_rejectReason = reason\<rparr>"
    and d': "ds_orders d' = updateMany (\<lambda>c. bo_id c = ?i) (optimistic st reason) (ds_orders d)"
    using assms(8) by (auto simp: transition_send_def)
  have pr: "desk_read ?ven ?i body s1 = Done st" "ord_status x \<in> {Received, Accepted, Preparing, Ready}"
      "\<And>y. ord_rejectReason (desk_status st body y) = map_option (take 200) reason"
    using press_read[OF assms(5), of s1 ?ven] press_read(3)[OF assms(5), of s ?ven] assms(2-4)
    by (simp_all add: s1 b)
  have reason: "ord_rejectReason (desk_status st body y) = reason" for y
    using pr(3) assms(6) by (cases reason) simp_all
  have ans: "answer = fst (desk_write lf newId ?ven ?i st body s1)" "s2 = snd (desk_write lf newId ?ven ?i st body s1)"
    using assms(9) by (auto simp: PATCH_desk_order_def assms(1) pr(1))
  have ok: "answer = Ok st"
    unfolding ans(1) by (rule desk_write_fst) (use assms(3) in \<open>auto simp: s1 list_ex_iff\<close>)
  have w: "desk_write lf newId ?ven ?i st body s1 = (Ok st, s2)"
    using ok ans by (metis prod.collapse)
  have os2: "orders s2 = updateMany (\<lambda>o'. ord_id o' = ?i) (desk_status st body) (orders s)"
    using desk_write_Ok(1)[OF w] by (simp add: s1)
  have now2: "now s2 = now s" using desk_write_now[of lf newId ?ven ?i st body s1] ans(2) s1 by simp
  have flight: "\<And>y. y \<in> set (orders s) \<Longrightarrow> ord_id y = ?i \<Longrightarrow> ord_status y \<in> {Received, Accepted, Preparing, Ready}"
    using assms(2,3) pr(2) by (metis distinct_map inj_onD)
  have "map card_key (active_cards d') = map order_key (filter (\<lambda>o'. ord_status o' \<notin> set DONE)
      (updateMany (\<lambda>o'. ord_id o' = ?i) (desk_status st body)
        (orderBy ord_createdAt (filter (on_board listAll (now s) ?ven) (orders s)))))"
    unfolding active_cards_def d' assms(7) desk_board_def Let_def by (rule optimistic_keys) (rule reason)
  also have "\<dots> = map order_key (filter (\<lambda>o'. ord_status o' \<notin> set DONE)
      (orderBy ord_createdAt (filter (on_board listAll (now s2) ?ven) (orders s2))))"
    unfolding os2 now2 using active_after_update[OF flight] by simp
  also have "\<dots> = map card_key (filter (\<lambda>c. bo_status c \<notin> set DONE) (desk_board listAll ?ven s2))"
    unfolding board_active active_keys ..
  finally show ?thesis using ok by simp
qed

theorem optimistic_board_is_reloaded_witness:
  "let d = (first_desk 0)\<lparr>ds_orders := desk_board False ''v1'' sample\<rparr>;
       (body, d') = transition_send ''o1'' Rejected (Some (hd REJECT_REASONS)) d;
       (answer, s2) = PATCH_desk_order toy_platform toy_locale ''p2'' ''o1'' body (Some ''d1-0'') sample
   in answer = Ok Rejected \<and>
     map card_key (filter (\<lambda>c. bo_status c \<notin> set DONE) (desk_board False ''v1'' s2)) = map card_key (active_cards d')"
proof -
  let ?x = "sample_order ''o1'' ''s1'' 1 Received 2500 [sample_line ''l1'' 1000 2, sample_line ''l2'' 500 1]"
  let ?d = "(first_desk 0)\<lparr>ds_orders := desk_board False ''v1'' sample\<rparr>"
  let ?t = "transition_send ''o1'' Rejected (Some (hd REJECT_REASONS)) ?d"
  obtain c where r: "requireStaff toy_platform Desk (Some ''d1-0'') sample = (Some toy_desk, sample\<lparr>accountCache := c\<rparr>)"
    using toy_requires(2)[of sample] by (auto simp: sample_fields)
  have id: "ord_id ?x = ''o1''" by (simp add: sample_order_def)
  have v: "sc_venueId toy_desk = ''v1''" by (simp add: toy_desk_def)
  have dist: "distinct (map ord_id (orders sample))" "?x \<in> set (orders sample)" "ord_venueId ?x = sc_venueId toy_desk"
    by (simp_all add: sample_fields sample_order_def v)
  have press: "press_offered (ord_status ?x) Rejected (Some (hd REJECT_REASONS))"
      "length (case Some (hd REJECT_REASONS) of None \<Rightarrow> [] | Some r \<Rightarrow> r) \<le> 200"
    by (simp_all add: sample_order_def card_buttons_def REJECT_REASONS_def lit_def)
  have board: "ds_orders ?d = desk_board False (sc_venueId toy_desk) sample" by (simp add: v)
  have sent: "transition_send (ord_id ?x) Rejected (Some (hd REJECT_REASONS)) ?d = (fst ?t, snd ?t)"
    by (simp add: id)
  show ?thesis
    using optimistic_board_is_reloaded[OF r dist press board sent prod.collapse[symmetric],
        of toy_locale "''p2''", unfolded id v]
    by (simp only: Let_def split_beta)
qed

subsection \<open>What the correction dialog sends\<close>

definition card_ok :: "board_order \<Rightarrow> bool" where
  "card_ok c \<longleftrightarrow> distinct (map item_id (bo_items c)) \<and> bo_items c \<noteq> [] \<and> length (bo_items c) \<le> 30 \<and>
     list_all (\<lambda>i. 1 \<le> item_qty i \<and> item_qty i \<le> 20) (bo_items c)"

definition opened :: "board_order \<Rightarrow> edit_dialog \<Rightarrow> bool" where
  "opened c g \<longleftrightarrow> card_ok c \<and> g = fresh_dialog c"

definition dialog_inv :: "board_order \<Rightarrow> edit_dialog \<Rightarrow> bool" where
  "dialog_inv c g \<longleftrightarrow> card_ok c \<and> dg_order g = c \<and>
     list_all (\<lambda>i. 0 \<le> qty_of g (item_id i) \<and> qty_of g (item_id i) \<le> item_qty i) (bo_items c)"

lemma opened_inv: "opened c g \<Longrightarrow> dialog_inv c g"
proof -
  assume o: "opened c g"
  have "qty_of g (item_id i) = item_qty i" if "i \<in> set (bo_items c)" for i
  proof -
    have "distinct (map fst (map (\<lambda>i. (item_id i, item_qty i)) (bo_items c)))"
      using o by (simp add: opened_def card_ok_def o_def)
    moreover have "(item_id i, item_qty i) \<in> set (map (\<lambda>i. (item_id i, item_qty i)) (bo_items c))"
      using that by simp
    ultimately show ?thesis using o by (simp add: opened_def fresh_dialog_def qty_of_def map_of_is_SomeI)
  qed
  then show ?thesis using o by (fastforce simp: dialog_inv_def opened_def fresh_dialog_def card_ok_def list_all_iff)
qed

lemma qty_of_update:
  "qty_of (g\<lparr>dg_qty := AList.update k v (dg_qty g)\<rparr>) i = (if i = k then v else qty_of g i)"
  by (simp add: qty_of_def update_conv')

lemma dialog_keeps:
  assumes "dialog_step g g'" and "dialog_inv c g"
  shows "dialog_inv c g'"
  using assms(1)
proof (cases rule: dialog_step.cases)
  case (dg_less i)
  then show ?thesis using assms(2) by (auto simp: dialog_inv_def list_all_iff qty_of_update)
next
  case (dg_more i)
  have i: "i \<in> set (bo_items c)" using assms(2) dg_more by (simp add: dialog_inv_def)
  have same: "j = i" if "j \<in> set (bo_items c)" "item_id j = item_id i" for j
    using assms(2) that i by (auto simp: dialog_inv_def card_ok_def distinct_map dest: inj_onD)
  then show ?thesis using assms(2) dg_more i by (force simp: dialog_inv_def list_all_iff qty_of_update)
qed

interpretation dialogs: machine_invariant "opened c" dialog_step "dialog_inv c" for c
  by unfold_locales (auto intro: opened_inv dialog_keeps)

subsection \<open>The server on what the dialog sends\<close>

lemma live_by_id_live:
  assumes "distinct (map oi_id (live_items o'))" and "i \<in> set (live_items o')"
  shows "live_by_id o' (oi_id i) = Some i"
proof -
  have "distinct (map fst (rev (map (\<lambda>x. (oi_id x, x)) (live_items o'))))"
    using assms(1) by (simp add: rev_map[symmetric] o_def)
  moreover have "(oi_id i, i) \<in> set (rev (map (\<lambda>x. (oi_id x, x)) (live_items o')))" using assms(2) by simp
  ultimately show ?thesis by (simp add: live_by_id_def)
qed

lemma collect_lowered:
  assumes "\<forall>i \<in> set L. live_by_id o' (oi_id i) = Some i \<and> q (oi_id i) \<le> oi_qty i"
  shows "\<exists>es. collect_edits o' (map (\<lambda>i. \<lparr>el_itemId = oi_id i, el_qty = q (oi_id i)\<rparr>) L) (cs, es0) =
    Some (cs @ map (\<lambda>i. \<lparr>lc_name = oi_nameSnapshot i, lc_fromQty = oi_qty i, lc_toQty = q (oi_id i)\<rparr>)
      (filter (\<lambda>i. q (oi_id i) \<noteq> oi_qty i) L), es)"
  using assms
proof (induction L arbitrary: cs es0)
  case (Cons a L)
  then show ?case
    using Cons.IH[of "cs @ [\<lparr>lc_name = oi_nameSnapshot a, lc_fromQty = oi_qty a, lc_toQty = q (oi_id a)\<rparr>]"
        "es0 @ [\<lparr>ed_id = oi_id a, ed_fromQty = oi_qty a, ed_toQty = q (oi_id a)\<rparr>]"] Cons.IH[of cs es0]
    by auto
qed simp

lemma collect_raised:
  assumes "l \<in> set ls" and "live_by_id o' (el_itemId l) = Some i" and "oi_qty i < el_qty l"
  shows "collect_edits o' ls acc = None"
  using assms(1)
proof (induction ls arbitrary: acc)
  case (Cons k ls)
  show ?case
  proof (cases "k = l")
    case True
    then show ?thesis using assms(2,3) by (cases acc) simp
  next
    case False
    then show ?thesis using Cons by (cases acc) (auto split: option.split)
  qed
qed simp

lemma findFirst_line:
  "distinct (map oi_id L) \<Longrightarrow> i \<in> set L \<Longrightarrow>
   findFirst (\<lambda>l. el_itemId l = oi_id i) (map (\<lambda>i. \<lparr>el_itemId = oi_id i, el_qty = q (oi_id i)\<rparr>) L) =
   Some \<lparr>el_itemId = oi_id i, el_qty = q (oi_id i)\<rparr>"
  by (induction L) (auto simp: image_iff)

lemma card_items: "bo_items (board_order_of s f o') =
   map (\<lambda>i. (oi_id i, oi_nameSnapshot i, oi_qty i, oi_note i, map cm_name (oi_modifiers i))) (live_items o')"
  by (simp add: board_order_of_def)

lemma dialog_lines:
  assumes "dialog_inv (board_order_of s f o') g"
  shows "edit_lines g = map (\<lambda>i. \<lparr>el_itemId = oi_id i, el_qty = qty_of g (oi_id i)\<rparr>) (live_items o')"
    and "distinct (map oi_id (live_items o'))"
    and "\<forall>i \<in> set (live_items o'). 0 \<le> qty_of g (oi_id i) \<and> qty_of g (oi_id i) \<le> oi_qty i \<and> oi_qty i \<le> 20"
    and "changed g \<longleftrightarrow> filter (\<lambda>i. qty_of g (oi_id i) \<noteq> oi_qty i) (live_items o') \<noteq> []"
    and "1 \<le> length (live_items o') \<and> length (live_items o') \<le> 30"
  using assms
  by (auto simp: dialog_inv_def edit_lines_def card_items item_id_def item_qty_def card_ok_def changed_def o_def
      list_all_iff filter_map Suc_le_eq)

lemma edit_read_lines:
  assumes inv: "dialog_inv (board_order_of s f o') g" and ch: "changed g"
    and found: "findFirst (\<lambda>x. ord_id x = ord_id o' \<and> ord_venueId x = ven) (orders s) = Some o'"
    and flight: "ord_status o' \<in> set EDITABLE_STATUSES"
  shows "edit_read (ord_id o') ven (edit_lines g) s =
    (if list_all (\<lambda>i. qty_of g (oi_id i) = 0) (live_items o') then Refused Empties_order
     else edit_read (ord_id o') ven (edit_lines g) s) \<and>
    (list_all (\<lambda>i. qty_of g (oi_id i) = 0) (live_items o') \<or>
     (\<exists>plan. edit_read (ord_id o') ven (edit_lines g) s = Done plan \<and>
        ep_totalKurus plan = sum_list (map (\<lambda>i. oi_unitPriceKurus i * qty_of g (oi_id i)) (live_items o'))))"
proof -
  note d = dialog_lines[OF inv]
  let ?L = "live_items o'" and ?q = "\<lambda>i. qty_of g (oi_id i)"
  have by_id: "live_by_id o' (oi_id i) = Some i" if "i \<in> set ?L" for i
    using live_by_id_live[OF d(2) that] .
  have known: "\<not> list_ex (\<lambda>l. live_by_id o' (el_itemId l) = None) (edit_lines g)"
    using by_id by (auto simp: d(1) list_ex_iff)
  obtain es cs where coll: "collect_edits o' (edit_lines g) ([], []) = Some (cs, es)" and cs: "cs \<noteq> []"
  proof -
    have "\<forall>i \<in> set ?L. live_by_id o' (oi_id i) = Some i \<and> qty_of g (oi_id i) \<le> oi_qty i"
      using by_id d(3) by simp
    from collect_lowered[OF this, of "[]" "[]"] obtain es where
      "collect_edits o' (edit_lines g) ([], []) = Some (map (\<lambda>i. \<lparr>lc_name = oi_nameSnapshot i, lc_fromQty = oi_qty i,
         lc_toQty = ?q i\<rparr>) (filter (\<lambda>i. ?q i \<noteq> oi_qty i) ?L), es)"
      unfolding d(1) by auto
    then show thesis using that ch d(4) by simp
  qed
  have new: "new_qty (edit_lines g) i = ?q i" if "i \<in> set ?L" for i
    using findFirst_line[OF d(2) that, of "qty_of g"] by (simp add: new_qty_def d(1))
  have rem: "remaining_items (edit_lines g) o' = filter (\<lambda>i. 0 < ?q i) ?L"
    unfolding remaining_items_def by (rule filter_cong) (simp_all add: new)
  have empty: "remaining_items (edit_lines g) o' = [] \<longleftrightarrow> list_all (\<lambda>i. ?q i = 0) ?L"
    using d(3) by (force simp: rem filter_empty_conv list_all_iff)
  have sum: "sum_list (map (\<lambda>i. oi_unitPriceKurus i * new_qty (edit_lines g) i) (remaining_items (edit_lines g) o')) =
      sum_list (map (\<lambda>i. oi_unitPriceKurus i * ?q i) ?L)"
  proof -
    have "sum_list (map (\<lambda>i. oi_unitPriceKurus i * ?q i) (filter (\<lambda>i. 0 < ?q i) L)) =
        sum_list (map (\<lambda>i. oi_unitPriceKurus i * ?q i) L)" if "set L \<subseteq> set ?L" for L
      using that d(3) by (induction L) force+
    from this[OF subset_refl] have all: "sum_list (map (\<lambda>i. oi_unitPriceKurus i * ?q i) (filter (\<lambda>i. 0 < ?q i) ?L)) =
        sum_list (map (\<lambda>i. oi_unitPriceKurus i * ?q i) ?L)" .
    have eq: "map (\<lambda>i. oi_unitPriceKurus i * new_qty (edit_lines g) i) (filter (\<lambda>i. 0 < ?q i) ?L) =
        map (\<lambda>i. oi_unitPriceKurus i * ?q i) (filter (\<lambda>i. 0 < ?q i) ?L)"
      by (rule map_cong) (auto simp: new)
    show ?thesis unfolding rem eq by (rule all)
  qed
  show ?thesis
    using flight known coll cs empty sum
    by (simp add: edit_read_def found Let_def)
qed

text \<open>
  C30: The correction dialog never sends what the server calls invalid. From a board that is up to
  date, whatever minus and plus buttons are pressed, a save that leaves the dialog names the
  order, satisfies the server's schema, and is either planned, with a total that is the price of
  the quantities on screen, or, exactly when every line is at zero, refused because it would
  empty the order; it is never refused as an unknown line, as unchanged or as not editable.
\<close>

theorem dialog_sends_valid_corrections:
  assumes "reachable (opened (board_order_of s f o')) dialog_step g"
    and "save_send g = (Some (oid, ls), g')"
    and "findFirst (\<lambda>x. ord_id x = ord_id o' \<and> ord_venueId x = ven) (orders s) = Some o'"
    and "Correct \<in> set (card_buttons (ord_status o'))"
  shows "oid = ord_id o' \<and> valid_edit ls \<and>
    (if list_all (\<lambda>i. qty_of g (oi_id i) = 0) (live_items o') then edit_read oid ven ls s = Refused Empties_order
     else \<exists>plan. edit_read oid ven ls s = Done plan \<and>
       ep_totalKurus plan = sum_list (map (\<lambda>i. oi_unitPriceKurus i * qty_of g (oi_id i)) (live_items o')))"
proof -
  have inv: "dialog_inv (board_order_of s f o') g" using dialogs.inv_reachable[OF assms(1)] .
  have sent: "changed g" "ls = edit_lines g" "oid = bo_id (dg_order g)"
    using assms(2) by (auto simp: save_send_def split: if_splits)
  have oid: "oid = ord_id o'" using inv sent(3) by (simp add: dialog_inv_def board_order_of_def)
  have "valid_edit ls"
    using dialog_lines[OF inv] by (auto simp: sent(2) valid_edit_def list_all_iff)
  moreover have "ord_status o' \<in> set EDITABLE_STATUSES" using assms(4) buttons_match_table(2) by blast
  ultimately show ?thesis using edit_read_lines[OF inv sent(1) assms(3)] oid sent(2) by metis
qed

subsection \<open>A dialog that has gone stale\<close>

text \<open>
  A stale dialog is told that a line is unknown, and is not refreshed. The dialog sends every
  line, touched or not, with the quantity it was opened with. When another correction has lowered
  or removed a line in the meantime, the save is refused as an unknown line, not as a conflict;
  the screen answers that text without the reload that it starts after a conflict, and keeps the
  dialog open on the same stale order.
\<close>

theorem stale_dialog_is_not_refreshed:
  assumes "save_send g = (Some (oid, ls), g')" and "i \<in> set (bo_items (dg_order g))"
    and "requireStaff pf Desk cookie s = (Some staff, s1)"
    and "findFirst (\<lambda>x. ord_id x = oid \<and> ord_venueId x = sc_venueId staff) (orders s) = Some x"
    and "ord_status x \<in> set EDITABLE_STATUSES" and "valid_edit ls"
    and "case live_by_id x (item_id i) of None \<Rightarrow> True | Some y \<Rightarrow> oi_qty y < qty_of g (item_id i)"
    and "PATCH_desk_items pf lf newId oid (Some ls) cookie s = (answer, s2)" and "ds_editing d = Some g'"
  shows "answer = Fail 409 ''unknown_line'' [] \<and>
    ds_loads (saveEdit_reply (Some answer) d) = ds_loads d \<and>
    (\<exists>h. ds_editing (saveEdit_reply (Some answer) d) = Some h \<and> dg_order h = dg_order g \<and>
      dg_error h = Some Unknown_line_text) \<and>
    ds_loads (saveEdit_reply (Some (Fail 409 ''conflict'' [])) d) = ds_loads d @ [Load_board]"
proof -
  obtain c where s1: "s1 = s\<lparr>accountCache := c\<rparr>"
    using assms(3) requireStaff_cases[of pf Desk cookie s] by (metis prod.inject)
  have ls: "ls = edit_lines g" and g': "dg_order g' = dg_order g"
    using assms(1) by (auto simp: save_send_def split: if_splits)
  let ?l = "\<lparr>el_itemId = item_id i, el_qty = qty_of g (item_id i)\<rparr>"
  have l: "?l \<in> set ls" using assms(2) by (auto simp: ls edit_lines_def)
  have "edit_read oid (sc_venueId staff) ls s1 = Refused Unknown_line"
  proof (cases "list_ex (\<lambda>l. live_by_id x (el_itemId l) = None) ls")
    case True
    then show ?thesis using assms(4,5) by (simp add: edit_read_def s1)
  next
    case False
    then obtain y where "live_by_id x (item_id i) = Some y" using l by (force simp: list_ex_iff)
    then have "collect_edits x ls ([], []) = None"
      using assms(7) by (intro collect_raised[OF l, of x y]) simp_all
    then show ?thesis using assms(4,5) False by (simp add: edit_read_def s1)
  qed
  then have "answer = Fail 409 ''unknown_line'' []"
    using assms(8) by (auto simp: PATCH_desk_items_def assms(3,6) editOrder_def)
  then show ?thesis
    using assms(9) g' by (simp add: saveEdit_reply_def fail_edit_def edit_text_of_def reload_def)
qed

subsection \<open>Two tills and one ticket\<close>

definition o1_order :: order where
  "o1_order = sample_order ''o1'' ''s1'' 1 Received 2500 [sample_line ''l1'' 1000 2, sample_line ''l2'' 500 1]"

definition o1_card :: board_order where
  "o1_card = board_order_of sample [] o1_order"

definition one_less :: edit_dialog where
  "one_less = (fresh_dialog o1_card)\<lparr>dg_qty := AList.update ''l1'' 1 (dg_qty (fresh_dialog o1_card))\<rparr>"

lemma o1_card_ok: "opened o1_card (fresh_dialog o1_card)"
  by (simp add: opened_def card_ok_def o1_card_def o1_order_def card_items live_items_def sample_order_def
      sample_line_def item_id_def item_qty_def)

lemma one_less_reachable: "reachable (opened o1_card) dialog_step one_less"
proof -
  let ?i = "(''l1'', oi_nameSnapshot (sample_line ''l1'' 1000 2), 2 :: int, [] :: jstr, [] :: jstr list)"
  have i: "?i \<in> set (bo_items (dg_order (fresh_dialog o1_card)))"
    by (simp add: fresh_dialog_def o1_card_def o1_order_def card_items live_items_def sample_order_def sample_line_def)
  have q: "qty_of (fresh_dialog o1_card) (item_id ?i) = 2"
    by (simp add: qty_of_def fresh_dialog_def o1_card_def o1_order_def card_items live_items_def sample_order_def
        sample_line_def item_id_def item_qty_def)
  have "dialog_step (fresh_dialog o1_card) one_less"
    using dg_less[OF i] q by (simp add: one_less_def item_id_def)
  with reach_init[of "opened o1_card", OF o1_card_ok] show ?thesis
    by (rule reach_step)
qed

definition one_less_lines :: "edit_line list" where
  "one_less_lines = [\<lparr>el_itemId = ''l1'', el_qty = 1\<rparr>, \<lparr>el_itemId = ''l2'', el_qty = 1\<rparr>]"

lemma one_less_sent: "save_send one_less = (Some (''o1'', one_less_lines), one_less\<lparr>dg_busy := True, dg_error := None\<rparr>)"
  by (simp add: save_send_def changed_def edit_lines_def one_less_lines_def one_less_def fresh_dialog_def o1_card_def
      o1_order_def card_items live_items_def sample_order_def sample_line_def item_id_def item_qty_def qty_of_def
      board_order_of_def)

theorem dialog_sends_valid_corrections_witness:
  "\<exists>plan. edit_read ''o1'' ''v1'' one_less_lines sample = Done plan \<and> ep_totalKurus plan = 1500"
proof -
  have f: "findFirst (\<lambda>x. ord_id x = ord_id o1_order \<and> ord_venueId x = ''v1'') (orders sample) = Some o1_order"
    by (simp add: o1_order_def sample_fields sample_order_def)
  have b: "Correct \<in> set (card_buttons (ord_status o1_order))"
    by (simp add: o1_order_def sample_order_def card_buttons_def)
  from dialog_sends_valid_corrections[OF one_less_reachable[unfolded o1_card_def] one_less_sent f b]
  show ?thesis
    by (simp add: o1_order_def live_items_def sample_order_def sample_line_def one_less_def fresh_dialog_def
        o1_card_def card_items item_id_def item_qty_def qty_of_def)
qed

text \<open>Another till has taken the second line off the ticket; this one still shows it.\<close>

definition line_removed :: server where
  "line_removed = snd (editOrder ''o1'' ''v1'' (''d1'', lit ''d1'')
     [\<lparr>el_itemId = ''l1'', el_qty = 2\<rparr>, \<lparr>el_itemId = ''l2'', el_qty = 0\<rparr>] sample)"

definition o1_after :: order where
  "o1_after = sample_order ''o1'' ''s1'' 1 Received 2000
     [sample_line ''l1'' 1000 2, (sample_line ''l2'' 500 1)\<lparr>oi_qty := 0, oi_voidedAt := Some 120000\<rparr>]"

lemma line_removed_order:
  "findFirst (\<lambda>x. ord_id x = ''o1'' \<and> ord_venueId x = ''v1'') (orders line_removed) = Some o1_after"
  "staffUsers line_removed = staffUsers sample" "accountCache line_removed = []"
  by (simp_all add: line_removed_def editOrder_def edit_read_def edit_write_def sample_fields sample_order_def
      sample_line_def live_by_id_def live_items_def EDITABLE_STATUSES_def IN_FLIGHT_STATUSES_def remaining_items_def
      new_qty_def map_items_def edit_matches_def set_line_def int4_def o1_after_def countWhere_def sample_delivery_def
      publish_def)

theorem stale_dialog_is_not_refreshed_witness:
  "fst (PATCH_desk_items toy_platform toy_locale ''p2'' ''o1'' (Some one_less_lines) (Some ''d1-0'') line_removed) =
   Fail 409 ''unknown_line'' []"
proof -
  let ?p = "PATCH_desk_items toy_platform toy_locale ''p2'' ''o1'' (Some one_less_lines) (Some ''d1-0'') line_removed"
  let ?i = "(''l2'', oi_nameSnapshot (sample_line ''l2'' 500 1), 1 :: int, [] :: jstr, [] :: jstr list)"
  obtain c where r: "requireStaff toy_platform Desk (Some ''d1-0'') line_removed =
      (Some toy_desk, line_removed\<lparr>accountCache := c\<rparr>)"
    using toy_requires(2)[of line_removed] line_removed_order by auto
  have i: "?i \<in> set (bo_items (dg_order one_less))"
    by (simp add: one_less_def fresh_dialog_def o1_card_def o1_order_def card_items live_items_def sample_order_def
        sample_line_def)
  have f: "findFirst (\<lambda>x. ord_id x = ''o1'' \<and> ord_venueId x = sc_venueId toy_desk) (orders line_removed) = Some o1_after"
    using line_removed_order(1) by (simp add: toy_desk_def)
  have st: "ord_status o1_after \<in> set EDITABLE_STATUSES"
    by (simp add: o1_after_def sample_order_def EDITABLE_STATUSES_def IN_FLIGHT_STATUSES_def)
  have v: "valid_edit one_less_lines" by (simp add: valid_edit_def one_less_lines_def)
  have gone: "case live_by_id o1_after (item_id ?i) of None \<Rightarrow> True | Some y \<Rightarrow> oi_qty y < qty_of one_less (item_id ?i)"
    by (simp add: live_by_id_def live_items_def o1_after_def sample_order_def sample_line_def item_id_def)
  show ?thesis
    using stale_dialog_is_not_refreshed[OF one_less_sent i r f st v gone prod.collapse[symmetric],
        of "(first_desk 0)\<lparr>ds_editing := Some (one_less\<lparr>dg_busy := True, dg_error := None\<rparr>)\<rparr>" toy_locale "''p2''"]
    by simp
qed

subsection \<open>Closing a table while the kitchen works\<close>

text \<open>
  A table settled from this screen while an order of its visit is in the kitchen is recorded
  as paid in cash. The plain cash and card buttons are refused by the server then, and the only
  button that forces the settlement, offered after such a refusal, sends cash whichever method
  was pressed first; so a card payment cannot be recorded on that path.
\<close>

theorem forced_settlement_is_cash:
  assumes "(m, f) \<in> set (settle_buttons d)" and "settle_send m f d = (Some (vid, body), d')"
    and "POST_settle pf vid (Some body) cookie s = (Ok k, s2)"
    and "x \<in> set (orders s)" and "ord_visitId x = Some vid" and "ord_status x \<in> set IN_FLIGHT_STATUSES"
  shows "m = Cash \<and> f \<and> ds_settleError d = Some Kitchen_busy \<and>
    (\<exists>v \<in> set (visits s2). tv_id v = vid \<and> tv_status v = Closed \<and> tv_paymentMethod v = Some Cash)"
proof -
  have body: "body = \<lparr>sb_paymentMethod = m, sb_paidAmountKurus = None, sb_force = Some f\<rparr>"
    using assms(2) by (auto simp: settle_send_def split: option.splits)
  obtain staff c where r: "requireStaff pf Desk cookie s = (Some staff, s\<lparr>accountCache := c\<rparr>)"
    and done_: "settleVisit vid (sc_venueId staff) (input_of_body (sc_sub staff) body) (s\<lparr>accountCache := c\<rparr>) = (Done k, s2)"
    using assms(3) requireStaff_cases[of pf Desk cookie s]
    by (auto simp: POST_settle_def split: prod.splits option.splits outcome.splits if_splits)
  have "f"
  proof (rule ccontr)
    assume "\<not> f"
    then have "\<not> si_force (input_of_body (sc_sub staff) body)" by (simp add: body input_of_body_def)
    moreover have "countWhere (\<lambda>o'. ord_visitId o' = Some vid \<and> ord_status o' \<in> set IN_FLIGHT_STATUSES) (orders s) > 0"
      using assms(4-6) by (auto simp: countWhere_def filter_empty_conv)
    ultimately show False
      using done_ by (auto simp: settleVisit_def settle_read_def split: option.splits if_splits)
  qed
  then have m: "m = Cash" "ds_settleError d = Some Kitchen_busy"
    using assms(1) by (auto simp: settle_buttons_def split: if_splits)
  from done_ obtain v where v: "findFirst (\<lambda>v. tv_id v = vid \<and> tv_venueId v = sc_venueId staff) (visits s) = Some v"
      "tv_status v \<noteq> Closed"
    using settle_Done_iff[of vid "sc_venueId staff" "input_of_body (sc_sub staff) body" "s\<lparr>accountCache := c\<rparr>" k]
    by auto
  let ?v = "close_settled (now s) (input_of_body (sc_sub staff) body) k v"
  have "?v \<in> set (visits s2)"
    using settle_Done_state(1)[OF done_] findFirst_SomeD[OF v(1)] v(2)
    by (force simp: set_updateMany closing_def)
  moreover have "tv_id ?v = vid" "tv_status ?v = Closed" "tv_paymentMethod ?v = Some Cash"
    using findFirst_SomeD[OF v(1)] by (simp_all add: close_settled_def input_of_body_def body m)
  ultimately show ?thesis using \<open>f\<close> m by blast
qed

definition refused_desk :: desk where
  "refused_desk = (first_desk 0)\<lparr>ds_settling := Some sample_bill, ds_settleError := Some Kitchen_busy\<rparr>"

lemma buildBill_cache [simp]: "buildBill vid (s\<lparr>accountCache := c\<rparr>) = buildBill vid s"
  by (simp add: buildBill_def Let_def split_beta split: option.split)

lemma bill_visit: "buildBill vid s = Some b \<Longrightarrow> b_visitId b = vid"
  by (auto simp: buildBill_def Let_def split_beta dest!: findFirst_SomeD split: option.splits)

theorem forced_settlement_is_cash_witness:
  "\<exists>body d' k s2. settle_send Cash True refused_desk = (Some (''w1'', body), d') \<and>
     POST_settle toy_platform ''w1'' (Some body) (Some ''d1-0'') sample = (Ok k, s2) \<and>
     (\<exists>v \<in> set (visits s2). tv_id v = ''w1'' \<and> tv_paymentMethod v = Some Cash)"
proof -
  let ?b = "\<lparr>sb_paymentMethod = Cash, sb_paidAmountKurus = None, sb_force = Some True\<rparr>"
  let ?x = "sample_order ''o1'' ''s1'' 1 Received 2500 [sample_line ''l1'' 1000 2, sample_line ''l2'' 500 1]"
  let ?in = "input_of_body ''d1'' ?b"
  have w: "b_visitId sample_bill = ''w1''"
    using bill_visit[OF sample_bill] .
  have sent: "settle_send Cash True refused_desk = (Some (''w1'', ?b), snd (settle_send Cash True refused_desk))"
    by (simp add: settle_send_def refused_desk_def w)
  obtain c where r: "requireStaff toy_platform Desk (Some ''d1-0'') sample = (Some toy_desk, sample\<lparr>accountCache := c\<rparr>)"
    using toy_requires(2)[of sample] by (auto simp: sample_fields)
  have "fst (settleVisit ''w1'' ''v1'' ?in (sample\<lparr>accountCache := c\<rparr>)) = Done 2800"
    unfolding settle_Done_iff buildBill_cache sample_bill_total
    by (simp add: sample_fields sample_visit_def int4_def input_of_body_def)
  then have set: "settleVisit ''w1'' ''v1'' ?in (sample\<lparr>accountCache := c\<rparr>) =
      (Done 2800, snd (settleVisit ''w1'' ''v1'' ?in (sample\<lparr>accountCache := c\<rparr>)))"
    by (simp add: prod_eq_iff)
  have staff: "sc_venueId toy_desk = ''v1''" "sc_sub toy_desk = ''d1''" by (simp_all add: toy_desk_def)
  obtain s2 where post: "POST_settle toy_platform ''w1'' (Some ?b) (Some ''d1-0'') sample = (Ok 2800, s2)"
  proof -
    obtain t where t: "settleVisit ''w1'' ''v1'' ?in (sample\<lparr>accountCache := c\<rparr>) = (Done 2800, t)"
      using set by blast
    have "POST_settle toy_platform ''w1'' (Some ?b) (Some ''d1-0'') sample = (Ok 2800, t)"
      unfolding POST_settle_def r by (simp add: staff valid_settle_def t)
    then show thesis by (rule that)
  qed
  have button: "(Cash, True) \<in> set (settle_buttons refused_desk)"
    by (simp add: settle_buttons_def refused_desk_def first_desk_def)
  have x: "?x \<in> set (orders sample)" "ord_visitId ?x = Some ''w1''" "ord_status ?x \<in> set IN_FLIGHT_STATUSES"
    by (simp_all add: sample_fields sample_order_def IN_FLIGHT_STATUSES_def)
  from forced_settlement_is_cash[OF button sent post x] sent post show ?thesis by blast
qed

end
