(* ===== verification/Dialogs.thy ===== *)
theory Dialogs
  imports DeskScreen
begin

section \<open>Dialogs and the keyboard\<close>

text \<open>
  \<open>src/components/Dialog.tsx\<close> and \<open>src/components/customer/Sheet.tsx\<close>: the focus trap every dialog
  installs, the dialog with its backdrop and the yes/no question, and the rejection dialog of the
  desk as a client of the trap. An element of a page is a number. What the trap installs is an
  effect of React: it runs when the dialog appears and, cleaned up first, again at every rendering
  at which the close function is another one than before; two closures made at two renderings are
  different, so a close function is a number as well. What the browser does with a Tab the trap
  leaves alone is a parameter.
\<close>

subsection \<open>The focus trap\<close>

record dialog_element =
  de_id :: nat
  de_autofocus :: bool
  de_focusable :: bool
  de_visible :: bool

record dialog_dom =
  dd_root :: nat
  dd_elements :: "dialog_element list"

record focus_trap =
  ft_active :: nat
  ft_previous :: nat
  ft_close :: "nat option"

definition focus_on :: "dialog_element \<Rightarrow> nat \<Rightarrow> nat" where
  "focus_on e active = (if de_focusable e \<and> de_visible e then de_id e else active)"

definition trap_focus :: "dialog_dom \<Rightarrow> nat \<Rightarrow> nat" where
  "trap_focus pg active =
     (case findFirst de_autofocus (dd_elements pg) of
        Some e \<Rightarrow> focus_on e active
      | None \<Rightarrow> (case findFirst de_focusable (dd_elements pg) of
            Some e \<Rightarrow> focus_on e active
          | None \<Rightarrow> dd_root pg))"

definition trap_run :: "dialog_dom \<Rightarrow> nat option \<Rightarrow> nat \<Rightarrow> focus_trap" where
  "trap_run pg close active = \<lparr>ft_active = trap_focus pg active, ft_previous = active, ft_close = close\<rparr>"

definition trap_cleanup :: "focus_trap \<Rightarrow> nat" where
  "trap_cleanup t = ft_previous t"

definition trap_render :: "dialog_dom \<Rightarrow> nat option \<Rightarrow> focus_trap \<Rightarrow> focus_trap" where
  "trap_render pg close t = (if close = ft_close t then t else trap_run pg close (trap_cleanup t))"

datatype key = Escape_key | Tab_key bool | Other_key

definition trap_items :: "dialog_dom \<Rightarrow> nat list" where
  "trap_items pg = map de_id (filter (\<lambda>e. de_focusable e \<and> de_visible e) (dd_elements pg))"

text \<open>A key: whether the dialog asks to be closed, and where the focus is afterwards.\<close>

definition trap_key :: "(bool \<Rightarrow> nat \<Rightarrow> nat) \<Rightarrow> dialog_dom \<Rightarrow> key \<Rightarrow> focus_trap \<Rightarrow> bool \<times> focus_trap" where
  "trap_key browse pg k t =
     (case k of
        Escape_key \<Rightarrow> (ft_close t \<noteq> None, t)
      | Other_key \<Rightarrow> (False, t)
      | Tab_key shift \<Rightarrow>
          (let items = trap_items pg
           in if items = [] then (False, t)
              else if shift \<and> ft_active t = hd items then (False, t\<lparr>ft_active := last items\<rparr>)
              else if \<not> shift \<and> ft_active t = last items then (False, t\<lparr>ft_active := hd items\<rparr>)
              else (False, t\<lparr>ft_active := browse shift (ft_active t)\<rparr>)))"

subsection \<open>Dialog, sheet and question\<close>

text \<open>The close function a dialog hands to its trap and its backdrop; a sheet always has one.\<close>

definition dialog_close :: "bool \<Rightarrow> nat \<Rightarrow> nat option" where
  "dialog_close busy onClose = (if busy then None else Some onClose)"

definition backdrop_press :: "bool \<Rightarrow> nat \<Rightarrow> bool" where
  "backdrop_press busy onClose = (dialog_close busy onClose \<noteq> None)"

definition sheet_close :: "nat \<Rightarrow> nat option" where
  "sheet_close onClose = Some onClose"

definition confirm_dom :: "bool \<Rightarrow> dialog_dom" where
  "confirm_dom busy = \<lparr>dd_root = 0, dd_elements =
     [\<lparr>de_id = 1, de_autofocus = False, de_focusable = \<not> busy, de_visible = True\<rparr>,
      \<lparr>de_id = 2, de_autofocus = True, de_focusable = \<not> busy, de_visible = True\<rparr>]\<rparr>"

subsection \<open>The rejection dialog of the desk\<close>

definition CUSTOM_INPUT :: nat where "CUSTOM_INPUT = 4"

definition plain_element :: "nat \<Rightarrow> dialog_element" where
  "plain_element i = \<lparr>de_id = i, de_autofocus = False, de_focusable = True, de_visible = True\<rparr>"

text \<open>The three radio buttons, the text box of the last of them, Cancel and Reject.\<close>

definition reject_dom :: "desk \<Rightarrow> dialog_dom" where
  "reject_dom d = \<lparr>dd_root = 0, dd_elements = map plain_element [1, 2, 3] @
     (if ds_reason d = OTHER then [plain_element CUSTOM_INPUT] else []) @
     [plain_element 5, (plain_element 6)\<lparr>de_focusable := finalReason d \<noteq> []\<rparr>]\<rparr>"

text \<open>
  A character typed at the keyboard: in the box it is appended, on a radio button a space chooses
  its reason; a change renders the desk again, with a new close function.
\<close>

definition rerendered :: "desk \<Rightarrow> focus_trap \<Rightarrow> desk \<times> focus_trap" where
  "rerendered d t = (d, trap_render (reject_dom d) (map_option Suc (ft_close t)) t)"

definition choose_reason :: "nat \<Rightarrow> desk \<Rightarrow> focus_trap \<Rightarrow> desk \<times> focus_trap" where
  "choose_reason k d t =
     (if ds_reason d = REJECT_REASONS ! k then (d, t) else rerendered (d\<lparr>ds_reason := REJECT_REASONS ! k\<rparr>) t)"

definition type_char :: "nat \<Rightarrow> desk \<times> focus_trap \<Rightarrow> desk \<times> focus_trap" where
  "type_char c dt =
     (case dt of (d, t) \<Rightarrow>
        if ft_active t = CUSTOM_INPUT \<and> ds_reason d = OTHER
        then rerendered (d\<lparr>ds_customReason := ds_customReason d @ [c]\<rparr>) t
        else if c = 32 \<and> ft_active t \<in> {1, 2, 3} then choose_reason (ft_active t - 1) d t
        else (d, t))"

subsection \<open>The trap keeps the focus\<close>

inductive trap_step :: "(bool \<Rightarrow> nat \<Rightarrow> nat) \<Rightarrow> dialog_dom \<Rightarrow> focus_trap \<Rightarrow> focus_trap \<Rightarrow> bool"
  for browse pg where
  press: "trap_step browse pg t (snd (trap_key browse pg k t))"
| render: "trap_step browse pg t (trap_render pg c t)"

text \<open>A browser that moves to the neighbour in document order.\<close>

definition in_order :: "(bool \<Rightarrow> nat \<Rightarrow> nat) \<Rightarrow> nat list \<Rightarrow> bool" where
  "in_order browse items \<longleftrightarrow> (\<forall>i < length items - 1.
     browse False (items ! i) = items ! Suc i \<and> browse True (items ! Suc i) = items ! i)"

lemma browse_stays:
  assumes "in_order browse items" and "x \<in> set items" and "if shift then x \<noteq> hd items else x \<noteq> last items"
  shows "browse shift x \<in> set items"
proof -
  obtain i where i: "i < length items" "x = items ! i" using assms(2) by (auto simp: in_set_conv_nth)
  show ?thesis
  proof (cases shift)
    case True
    then obtain j where j: "i = Suc j" using assms(3) i by (cases i) (auto simp: hd_conv_nth)
    then have "browse True (items ! Suc j) = items ! j" using assms(1) i(1) by (simp add: in_order_def)
    then show ?thesis using True i j by simp
  next
    case False
    then have last: "x \<noteq> last items" using assms(3) by simp
    have "Suc i < length items"
    proof (rule ccontr)
      assume "\<not> Suc i < length items"
      then have "i = length items - 1" "items \<noteq> []" using i(1) by auto
      then show False using last i(2) by (simp add: last_conv_nth)
    qed
    then have "browse False (items ! i) = items ! Suc i" using assms(1) unfolding in_order_def by simp
    then show ?thesis using False i \<open>Suc i < length items\<close> by simp
  qed
qed

definition all_usable :: "dialog_dom \<Rightarrow> bool" where
  "all_usable pg \<longleftrightarrow> dd_elements pg \<noteq> [] \<and> list_all (\<lambda>e. de_focusable e \<and> de_visible e) (dd_elements pg)"

lemma trap_focus_inside:
  assumes "all_usable pg"
  shows "trap_focus pg a \<in> set (trap_items pg)"
proof -
  obtain e0 where "findFirst de_focusable (dd_elements pg) = Some e0"
    using assms by (cases "dd_elements pg") (simp_all add: all_usable_def)
  moreover have "focus_on e a \<in> set (trap_items pg)" if "e \<in> set (dd_elements pg)" for e
    using that assms by (auto simp: focus_on_def trap_items_def all_usable_def list_all_iff)
  ultimately show ?thesis
    by (auto simp: trap_focus_def split: option.split dest!: findFirst_SomeD)
qed

text \<open>
  A dialog keeps the keyboard. While every control of a dialog can be used, and with a browser
  that moves through them in document order, the focus stays on a control of the dialog whatever
  keys are pressed and however often the screen behind it is drawn again; and when the dialog goes
  away the focus is back on what had it when the dialog opened.
\<close>

theorem dialog_keeps_focus:
  assumes "all_usable pg" and "in_order browse (trap_items pg)"
    and "(trap_step browse pg)\<^sup>*\<^sup>* (trap_run pg c opener) t"
  shows "ft_active t \<in> set (trap_items pg) \<and> trap_cleanup t = opener"
  using assms(3)
proof (induction rule: rtranclp_induct)
  case base
  then show ?case using trap_focus_inside[OF assms(1)] by (simp add: trap_run_def trap_cleanup_def)
next
  case (step t u)
  from step.hyps(2) show ?case
  proof cases
    case (press k)
    have ne: "trap_items pg \<noteq> []" using step.IH by auto
    note stays = browse_stays[OF assms(2), of "ft_active t"]
    show ?thesis
    proof (cases k)
      case (Tab_key shift)
      then show ?thesis
        using step.IH ne stays[of True] stays[of False]
        by (cases shift) (auto simp: press trap_key_def trap_cleanup_def Let_def)
    qed (use step.IH in \<open>simp_all add: press trap_key_def\<close>)
  next
    case (render c')
    then show ?thesis
      using step.IH trap_focus_inside[OF assms(1)] by (simp add: trap_render_def trap_run_def trap_cleanup_def)
  qed
qed

theorem dialog_keeps_focus_witness:
  "ft_active (snd (trap_key (\<lambda>shift i. if shift then i - 1 else i + 1) (confirm_dom False) (Tab_key False)
     (trap_run (confirm_dom False) (Some 0) 9))) \<in> {1, 2}"
proof -
  have u: "all_usable (confirm_dom False)" by (simp add: all_usable_def confirm_dom_def)
  have o': "in_order (\<lambda>shift i. if shift then i - 1 else i + 1) (trap_items (confirm_dom False))"
    by (simp add: in_order_def trap_items_def confirm_dom_def)
  note s = trap_step.press[of "\<lambda>shift i. if shift then i - 1 else i + 1" "confirm_dom False"
      "trap_run (confirm_dom False) (Some 0) 9" "Tab_key False"]
  from dialog_keeps_focus[OF u o' r_into_rtranclp[of "trap_step _ _", OF s]] show ?thesis
    by (simp add: trap_items_def confirm_dom_def)
qed

subsection \<open>Typing a reason\<close>

lemma reject_focus: "trap_focus (reject_dom d) a = 1"
  by (simp add: trap_focus_def reject_dom_def plain_element_def focus_on_def)

lemma rerendered_focus:
  assumes "ft_close t = Some c"
  shows "fst (rerendered d t) = d" "ft_active (snd (rerendered d t)) = 1" "ft_close (snd (rerendered d t)) = Some (Suc c)"
  using assms by (simp_all add: rerendered_def trap_render_def trap_run_def reject_focus)

definition off_the_box :: "jstr \<Rightarrow> desk \<times> focus_trap \<Rightarrow> bool" where
  "off_the_box r dt \<longleftrightarrow> ft_active (snd dt) = 1 \<and> ft_close (snd dt) \<noteq> None \<and> ds_customReason (fst dt) = r \<and>
     ds_reason (fst dt) \<in> {OTHER, REJECT_REASONS ! 0}"

lemma typing_off_the_box: "off_the_box r dt \<Longrightarrow> off_the_box r (type_char c dt)"
  by (cases dt) (auto simp: off_the_box_def type_char_def choose_reason_def CUSTOM_INPUT_def rerendered_focus)

lemma typing_on: "off_the_box r dt \<Longrightarrow> off_the_box r (fold type_char cs dt)"
  by (induction cs arbitrary: dt) (simp_all add: typing_off_the_box)

text \<open>
  C34: A reason of one's own cannot be typed. Every key renders the desk again, the rejection dialog
  gets a new close function, its trap is installed again and puts the focus on the first radio
  button. So of whatever is typed into the empty box only the first character arrives, the reason
  sent is that character or the first of the offered reasons, and from then on the keyboard is on
  the radio buttons.
\<close>

theorem typed_reason_is_lost:
  assumes "ft_active t = CUSTOM_INPUT" and "ft_close t = Some k" and "ds_reason d = OTHER"
    and "ds_customReason d = []" and "cs \<noteq> []"
  shows "ds_customReason (fst (fold type_char cs (d, t))) = take 1 cs \<and>
    finalReason (fst (fold type_char cs (d, t))) \<in> {trim (take 1 cs), REJECT_REASONS ! 0} \<and>
    ft_active (snd (fold type_char cs (d, t))) = 1"
proof -
  obtain c cs' where cs: "cs = c # cs'" using assms(5) by (cases cs) auto
  have "off_the_box [c] (type_char c (d, t))"
    using assms(1-4) by (simp add: off_the_box_def type_char_def rerendered_focus)
  then have "off_the_box [c] (fold type_char cs (d, t))" using typing_on by (simp add: cs)
  then show ?thesis by (auto simp: off_the_box_def cs finalReason_def)
qed

definition rejecting_o1 :: desk where
  "rejecting_o1 = (open_reject ''o1'' (first_desk 0))\<lparr>ds_reason := OTHER\<rparr>"

theorem typed_reason_is_lost_witness:
  "ds_customReason (fst (fold type_char (lit ''closed'')
     (rejecting_o1, \<lparr>ft_active = CUSTOM_INPUT, ft_previous = 9, ft_close = Some 0\<rparr>))) = lit ''c''"
proof -
  have "lit ''closed'' \<noteq> []" "take 1 (lit ''closed'') = lit ''c''" by (simp_all add: lit_def)
  with typed_reason_is_lost[of "\<lparr>ft_active = CUSTOM_INPUT, ft_previous = 9, ft_close = Some 0\<rparr>" 0 rejecting_o1 "lit ''closed''"]
  show ?thesis by (simp add: rejecting_o1_def open_reject_def)
qed

end
