(* ===== verification/SettingsScreens.thy ===== *)
theory SettingsScreens
  imports Venue
begin

section \<open>The settings screens\<close>

text \<open>
  \<open>src/components/admin/VenuePanel.tsx\<close>, \<open>BridgeKeyPanel.tsx\<close> and \<open>DangerZonePanel.tsx\<close>. The two
  panels above share one cached answer of the venue route: a change either of them announces loads
  it again, and an answer that differs from the cached one replaces it for both. A reply is \<open>None\<close>
  when \<open>fetch\<close> itself fails; the venue form and the danger zone do not catch that.
\<close>

subsection \<open>Venue form and bridge keys\<close>

record venue_form =
  vf_name :: jstr
  vf_currency :: string
  vf_defaultLocale :: string
  vf_posAdapter :: string

record settings_tab =
  st_page :: "venue_page option"
  st_form :: "venue_form option"
  st_saved :: bool
  st_failed :: bool
  st_busy :: bool
  st_label :: jstr
  st_issued :: "string option"
  st_keyBusy :: bool
  st_removing :: "bridge_key_view option"
  st_keyFailed :: "string option"
  st_reloads :: nat

definition first_settings :: settings_tab where
  "first_settings = \<lparr>st_page = None, st_form = None, st_saved = False, st_failed = False, st_busy = False,
     st_label = [], st_issued = None, st_keyBusy = False, st_removing = None, st_keyFailed = None, st_reloads = 0\<rparr>"

definition form_of_page :: "venue_page \<Rightarrow> venue_form" where
  "form_of_page v = \<lparr>vf_name = vp_name v, vf_currency = vp_currency v, vf_defaultLocale = vp_defaultLocale v,
     vf_posAdapter = vp_posAdapter v\<rparr>"

text \<open>A loaded answer: the cache keeps the old one when nothing in it changed, else the form is seeded again.\<close>

definition settings_loaded :: "venue_page \<Rightarrow> settings_tab \<Rightarrow> settings_tab" where
  "settings_loaded v t = (if st_page t = Some v then t
     else t\<lparr>st_page := Some v, st_form := Some (form_of_page v)\<rparr>)"

definition edit_venue :: "(venue_form \<Rightarrow> venue_form) \<Rightarrow> settings_tab \<Rightarrow> settings_tab" where
  "edit_venue f t = t\<lparr>st_form := map_option f (st_form t)\<rparr>"

definition settings_of :: "venue_form \<Rightarrow> venue_settings" where
  "settings_of f = \<lparr>vs_name = Some (vf_name f), vs_currency = Some (vf_currency f),
     vs_defaultLocale = Some (vf_defaultLocale f), vs_posAdapter = Some (vf_posAdapter f)\<rparr>"

definition venue_save :: "settings_tab \<Rightarrow> venue_settings option \<times> settings_tab" where
  "venue_save t =
     (case st_form t of
        None \<Rightarrow> (None, t)
      | Some f \<Rightarrow> if st_busy t then (None, t)
          else (Some (settings_of f), t\<lparr>st_busy := True, st_failed := False\<rparr>))"

definition venue_saved :: "unit response option \<Rightarrow> settings_tab \<Rightarrow> settings_tab" where
  "venue_saved r t =
     (case r of
        None \<Rightarrow> t
      | Some (Ok _) \<Rightarrow> t\<lparr>st_busy := False, st_saved := True\<rparr>
      | Some _ \<Rightarrow> t\<lparr>st_busy := False, st_failed := True\<rparr>)"

definition key_create :: "settings_tab \<Rightarrow> jstr \<times> settings_tab" where
  "key_create t = (st_label t, t\<lparr>st_keyBusy := True, st_keyFailed := None\<rparr>)"

definition key_created :: "(id \<times> string) response option \<Rightarrow> settings_tab \<Rightarrow> settings_tab" where
  "key_created r t0 =
     (let t = t0\<lparr>st_keyBusy := False\<rparr>
      in case r of
           Some (Ok (_, key)) \<Rightarrow> t\<lparr>st_issued := Some key, st_label := [], st_reloads := st_reloads t + 1\<rparr>
         | _ \<Rightarrow> t\<lparr>st_keyFailed := Some ''create''\<rparr>)"

definition key_remove :: "settings_tab \<Rightarrow> id option \<times> settings_tab" where
  "key_remove t =
     (case st_removing t of
        None \<Rightarrow> (None, t)
      | Some k \<Rightarrow> if st_keyBusy t then (None, t) else (Some (bv_id k), t\<lparr>st_keyBusy := True\<rparr>))"

definition key_removed :: "unit response option \<Rightarrow> settings_tab \<Rightarrow> settings_tab" where
  "key_removed r t0 =
     (let t = t0\<lparr>st_keyBusy := False, st_removing := None\<rparr>;
          t1 = (case r of Some (Ok _) \<Rightarrow> t | _ \<Rightarrow> t\<lparr>st_keyFailed := Some ''remove''\<rparr>)
      in t1\<lparr>st_reloads := st_reloads t1 + 1\<rparr>)"

definition key_noted :: "settings_tab \<Rightarrow> settings_tab" where
  "key_noted t = t\<lparr>st_issued := None\<rparr>"

subsection \<open>The danger zone\<close>

datatype rotate_text = Rotated nat | No_match | Rotation_failed

record danger_zone =
  dz_open :: bool
  dz_confirm :: jstr
  dz_expected :: jstr
  dz_result :: "rotate_text option"
  dz_busy :: bool

definition rotate_press :: "danger_zone \<Rightarrow> jstr option \<times> danger_zone" where
  "rotate_press z = (if \<not> dz_open z \<or> dz_busy z \<or> dz_confirm z = [] then (None, z)
     else (Some (dz_confirm z), z\<lparr>dz_busy := True, dz_result := None\<rparr>))"

definition expected_of :: "(string \<times> field) list \<Rightarrow> jstr" where
  "expected_of fs = (case map_of fs ''expected'' of Some (FText t) \<Rightarrow> t | _ \<Rightarrow> [])"

definition rotate_reply :: "nat response option \<Rightarrow> danger_zone \<Rightarrow> danger_zone" where
  "rotate_reply r z =
     (case r of
        None \<Rightarrow> z
      | Some (Ok n) \<Rightarrow> z\<lparr>dz_busy := False, dz_result := Some (Rotated n), dz_confirm := []\<rparr>
      | Some (Fail _ code fs) \<Rightarrow>
          if code = ''confirmation_required''
          then z\<lparr>dz_busy := False, dz_expected := expected_of fs, dz_result := Some No_match\<rparr>
          else z\<lparr>dz_busy := False, dz_result := Some Rotation_failed\<rparr>
      | Some Crash \<Rightarrow> z\<lparr>dz_busy := False, dz_result := Some Rotation_failed\<rparr>)"

subsection \<open>A new key and an unsaved form\<close>

text \<open>
  Making a bridge key throws away what was typed into the venue form. The two panels share
  one answer of the server. When a key has been made the list of keys in that answer is longer, so
  the whole answer counts as new and the form is seeded with the stored settings again, whatever
  was typed and not yet saved; the key itself is shown as intended.
\<close>

theorem new_key_discards_edits:
  assumes "GET_venue pf cookie s = (Ok page, s1)" and "st_page t = Some page"
    and "POST_bridge_keys pf newId hex (Some (fst (key_create t))) cookie s1 = (Ok (i, key), s2)"
    and "GET_venue pf cookie s2 = (Ok page', s3)"
  shows "st_form (settings_loaded page' (key_created (Some (Ok (i, key))) (snd (key_create t)))) =
      Some (form_of_page page) \<and>
    st_issued (settings_loaded page' (key_created (Some (Ok (i, key))) (snd (key_create t)))) = Some key"
proof -
  obtain st where r: "requireStaff pf Admin cookie s = (Some st, s1)"
    using assms(1) by (auto simp: GET_venue_def split: prod.splits option.splits)
  have r1: "requireStaff pf Admin cookie s1 = (Some st, s1)"
    by (rule requireStaff_again[OF r]) simp_all
  obtain row where s2: "s2 = s1\<lparr>bridgeKeys := bridgeKeys s1 @ [row]\<rparr>" "bk_venueId row = sc_venueId st"
    using assms(3) by (auto simp: POST_bridge_keys_def r1 createBridgeKey_def Let_def split: if_splits)
  have r2: "requireStaff pf Admin cookie s2 = (Some st, s2)"
    by (rule requireStaff_again[OF r]) (simp_all add: s2(1))
  obtain v where v: "findFirst (\<lambda>v. ven_id v = sc_venueId st) (venues s1) = Some v"
    using assms(1) by (auto simp: GET_venue_def r split: option.splits)
  have ven: "venues s2 = venues s1" by (simp add: s2(1))
  have page: "form_of_page page' = form_of_page page" "vp_bridgeKeys page = listBridgeKeys (sc_venueId st) s1"
      "vp_bridgeKeys page' = listBridgeKeys (sc_venueId st) s2"
    using assms(1,4) v ven by (auto simp: GET_venue_def r r2 form_of_page_def)
  have "length (vp_bridgeKeys page') = Suc (length (vp_bridgeKeys page))"
    using s2 by (simp add: page(2,3) listBridgeKeys_def)
  then have "page' \<noteq> page" by auto
  then show ?thesis
    using assms(2) page(1) by (simp add: settings_loaded_def key_created_def key_create_def)
qed

definition sample_page :: venue_page where
  "sample_page = (case fst (GET_venue toy_platform (Some ''a1-0'') sample) of Ok p \<Rightarrow> p | _ \<Rightarrow> undefined)"

definition renaming_venue :: settings_tab where
  "renaming_venue = edit_venue (\<lambda>f. f\<lparr>vf_name := lit ''Yeni''\<rparr>) (settings_loaded sample_page first_settings)"

theorem new_key_discards_edits_witness:
  "\<exists>page'. fst (GET_venue toy_platform (Some ''a1-0'') (snd (POST_bridge_keys toy_platform ''k1'' ''ab'' (Some [])
      (Some ''a1-0'') (snd (GET_venue toy_platform (Some ''a1-0'') sample))))) = Ok page' \<and>
    map_option vf_name (st_form renaming_venue) = Some (lit ''Yeni'') \<and>
    st_form (settings_loaded page' (key_created (Some (Ok (''k1'', ''bridge-ab''))) (snd (key_create renaming_venue)))) =
      Some (form_of_page sample_page)"
proof -
  obtain c where r: "requireStaff toy_platform Admin (Some ''a1-0'') sample = (Some toy_admin, sample\<lparr>accountCache := c\<rparr>)"
    using toy_requires(1)[of sample] by (auto simp: sample_fields)
  let ?s1 = "sample\<lparr>accountCache := c\<rparr>"
  obtain v where v: "findFirst (\<lambda>v. ven_id v = sc_venueId toy_admin) (venues sample) = Some v"
    by (simp add: sample_defs toy_admin_def)
  have g1: "GET_venue toy_platform (Some ''a1-0'') sample = (Ok sample_page, ?s1)"
    by (simp add: sample_page_def GET_venue_def r v)
  have r1: "requireStaff toy_platform Admin (Some ''a1-0'') ?s1 = (Some toy_admin, ?s1)"
    by (rule requireStaff_again[OF r]) simp_all
  define s2 where "s2 = snd (POST_bridge_keys toy_platform ''k1'' ''ab'' (Some []) (Some ''a1-0'') ?s1)"
  have p: "POST_bridge_keys toy_platform ''k1'' ''ab'' (Some []) (Some ''a1-0'') ?s1 = (Ok (''k1'', ''bridge-ab''), s2)"
    by (simp add: s2_def prod_eq_iff POST_bridge_keys_def r1 createBridgeKey_def Let_def sample_fields newBridgeKey_def
        BRIDGE_KEY_PREFIX_def)
  have s2: "now s2 = now ?s1" "accountCache s2 = accountCache ?s1" "venues s2 = venues sample"
    by (simp_all add: s2_def POST_bridge_keys_def r1 createBridgeKey_def Let_def sample_fields)
  have r2: "requireStaff toy_platform Admin (Some ''a1-0'') s2 = (Some toy_admin, s2)"
    by (rule requireStaff_again[OF r]) (use s2 in simp_all)
  obtain page' where g2: "GET_venue toy_platform (Some ''a1-0'') s2 = (Ok page', s2)"
    using v by (simp add: GET_venue_def r2 s2(3))
  have t: "st_page renaming_venue = Some sample_page" "fst (key_create renaming_venue) = []"
      "map_option vf_name (st_form renaming_venue) = Some (lit ''Yeni'')"
    by (simp_all add: renaming_venue_def edit_venue_def settings_loaded_def first_settings_def key_create_def)
  from new_key_discards_edits[OF g1 t(1), of "''k1''" "''ab''" "''k1''" "''bridge-ab''" s2 page' s2] p g2 g1 t
  show ?thesis by simp
qed

subsection \<open>The text that confirms a rotation\<close>

text \<open>
  The secret is rotated only by typing the venue's code. Whatever is pressed in the danger
  zone, nothing is sent while the text is empty; a text other than the code of the venue leaves
  every venue, table and session as it was and shows the code to type, and the code itself, typed,
  rotates the secret unless a table's version is exhausted.
\<close>

theorem rotation_needs_the_code:
  assumes "rotate_press z = (Some typed, z')" and "POST_qr_secret pf secret (Some typed) cookie s = (r, s')"
    and "fst (requireStaff pf Admin cookie s) = Some st"
    and "findFirst (\<lambda>v. ven_id v = sc_venueId st) (venues s) = Some v"
  shows "typed \<noteq> [] \<and> (if typed = ven_slug v
    then (\<exists>n. r = Ok n \<and> dz_result (rotate_reply (Some r) z') = Some (Rotated n) \<and> dz_confirm (rotate_reply (Some r) z') = []) \<or>
      (r = Crash \<and> dz_result (rotate_reply (Some r) z') = Some Rotation_failed)
    else venues s' = venues s \<and> tables s' = tables s \<and> sessions s' = sessions s \<and>
      dz_result (rotate_reply (Some r) z') = Some No_match \<and> dz_expected (rotate_reply (Some r) z') = ven_slug v)"
proof -
  obtain c where req: "requireStaff pf Admin cookie s = (Some st, s\<lparr>accountCache := c\<rparr>)"
    using assms(3) by (cases rule: requireStaff_cases[of pf Admin cookie s]) auto
  have typed: "typed \<noteq> []" using assms(1) by (auto simp: rotate_press_def split: if_splits)
  show ?thesis
  proof (cases "typed = ven_slug v")
    case True
    then show ?thesis
      using assms(2,4) typed
      by (auto simp: POST_qr_secret_def req rotateQrSecret_def rotate_reply_def split: if_splits)
  next
    case False
    then have "r = Fail 409 ''confirmation_required'' [(''expected'', FText (ven_slug v))]" "s' = s\<lparr>accountCache := c\<rparr>"
      using assms(2,4) by (auto simp: POST_qr_secret_def req)
    then show ?thesis using False typed by (simp add: rotate_reply_def expected_of_def)
  qed
qed

definition careless :: danger_zone where
  "careless = \<lparr>dz_open = True, dz_confirm = lit ''yes'', dz_expected = [], dz_result = None, dz_busy = False\<rparr>"

theorem rotation_needs_the_code_witness:
  "tables (snd (POST_qr_secret toy_platform ''k'' (Some (lit ''yes'')) (Some ''a1-0'') sample)) = tables sample \<and>
   dz_expected (rotate_reply (Some (fst (POST_qr_secret toy_platform ''k'' (Some (lit ''yes'')) (Some ''a1-0'') sample)))
     (snd (rotate_press careless))) = lit ''heaven''"
proof -
  have sent: "rotate_press careless = (Some (lit ''yes''), snd (rotate_press careless))"
    by (simp add: rotate_press_def careless_def lit_def)
  obtain c where r: "requireStaff toy_platform Admin (Some ''a1-0'') sample = (Some toy_admin, sample\<lparr>accountCache := c\<rparr>)"
    using toy_requires(1)[of sample] by (auto simp: sample_fields)
  obtain v where v: "findFirst (\<lambda>v. ven_id v = sc_venueId toy_admin) (venues sample) = Some v" "ven_slug v = lit ''heaven''"
    by (simp add: sample_defs toy_admin_def)
  have "lit ''yes'' \<noteq> lit ''heaven''" by (simp add: lit_def)
  with rotation_needs_the_code[OF sent surjective_pairing, where pf = toy_platform and secret = "''k''" and
      cookie = "Some ''a1-0''" and s = sample and st = toy_admin and v = v] r v
  show ?thesis by simp
qed

end
