(* ===== verification/FloorScreens.thy ===== *)
theory FloorScreens
  imports Venue Reporting
begin

section \<open>The screens for tables, orders and the printer\<close>

text \<open>
  \<open>src/components/admin/TablesTab.tsx\<close>, \<open>OrdersTab.tsx\<close> and \<open>PosHealthPanel.tsx\<close>. Requests are
  split into what is sent and what a reply leaves; a reply is \<open>None\<close> when \<open>fetch\<close> fails. The pages
  of the order list are fetched by SWR, which asks for one page after the other with the key the
  tab computes from the page before.
\<close>

subsection \<open>Tables\<close>

datatype table_failure = Add_failed | Update_failed | Regenerate_failed | Rename_failed

record tables_tab =
  tt_data :: "table_row list option"
  tt_newName :: jstr
  tt_qrFor :: "table_row option"
  tt_regenFor :: "table_row option"
  tt_renaming :: "(table_row \<times> jstr) option"
  tt_busy :: bool
  tt_error :: "table_failure option"
  tt_reloads :: nat

definition first_tables :: tables_tab where
  "first_tables = \<lparr>tt_data = None, tt_newName = [], tt_qrFor = None, tt_regenFor = None, tt_renaming = None,
     tt_busy = False, tt_error = None, tt_reloads = 0\<rparr>"

definition tables_of :: "tables_tab \<Rightarrow> table_row list" where
  "tables_of t = (case tt_data t of None \<Rightarrow> [] | Some rs \<Rightarrow> rs)"

definition table_call :: "tables_tab \<Rightarrow> tables_tab" where
  "table_call t = t\<lparr>tt_busy := True, tt_error := None\<rparr>"

definition table_called :: "table_failure \<Rightarrow> 'a response option \<Rightarrow> tables_tab \<Rightarrow> bool \<times> tables_tab" where
  "table_called what r t =
     (case r of
        Some (Ok _) \<Rightarrow> (True, t\<lparr>tt_busy := False, tt_reloads := tt_reloads t + 1\<rparr>)
      | _ \<Rightarrow> (False, t\<lparr>tt_busy := False, tt_error := Some what\<rparr>))"

definition addTable_send :: "tables_tab \<Rightarrow> jstr option \<times> tables_tab" where
  "addTable_send t = (if trim (tt_newName t) = [] then (None, t) else (Some (trim (tt_newName t)), table_call t))"

definition addTable_reply :: "id response option \<Rightarrow> tables_tab \<Rightarrow> tables_tab" where
  "addTable_reply r t = (let (ok, t') = table_called Add_failed r t in if ok then t'\<lparr>tt_newName := []\<rparr> else t')"

definition no_patch :: table_patch where
  "no_patch = \<lparr>tp_regenerateQr = False, tp_name = None, tp_active = None\<rparr>"

definition switch_table :: "table_row \<Rightarrow> table_patch" where
  "switch_table r = no_patch\<lparr>tp_active := Some (\<not> tr_active r)\<rparr>"

definition regen_patch :: table_patch where
  "regen_patch = no_patch\<lparr>tp_regenerateQr := True\<rparr>"

definition regen_reply :: "unit response option \<Rightarrow> tables_tab \<Rightarrow> tables_tab" where
  "regen_reply r t = (snd (table_called Regenerate_failed r t))\<lparr>tt_regenFor := None\<rparr>"

definition open_rename :: "table_row \<Rightarrow> tables_tab \<Rightarrow> tables_tab" where
  "open_rename r t = t\<lparr>tt_renaming := Some (r, tr_name r)\<rparr>"

definition rename_submit :: "tables_tab \<Rightarrow> (id \<times> table_patch) option \<times> tables_tab" where
  "rename_submit t =
     (case tt_renaming t of
        None \<Rightarrow> (None, t)
      | Some (r, name) \<Rightarrow>
          if tt_busy t \<or> trim name = [] then (None, t)
          else (Some (tr_id r, no_patch\<lparr>tp_name := Some (trim name)\<rparr>), table_call t))"

definition rename_reply :: "unit response option \<Rightarrow> tables_tab \<Rightarrow> tables_tab" where
  "rename_reply r t =
     (let (ok, t') = table_called Rename_failed r t in if ok then t'\<lparr>tt_renaming := None\<rparr> else t')"

definition shown_occupied :: "table_row \<Rightarrow> bool" where
  "shown_occupied r \<longleftrightarrow> tr_activeSessions r \<noteq> []"

text \<open>The button that ends the sessions of a table: one request after the other, replies unread.\<close>

definition end_sessions :: "platform \<Rightarrow> string option \<Rightarrow> table_row \<Rightarrow> server \<Rightarrow> server" where
  "end_sessions pf cookie r s =
     fold (\<lambda>x s. snd (DELETE_session pf (fst x) cookie s)) (tr_activeSessions r) s"

definition sessions_ended :: "tables_tab \<Rightarrow> tables_tab" where
  "sessions_ended t = t\<lparr>tt_busy := False, tt_reloads := tt_reloads t + 1\<rparr>"

subsection \<open>The order list\<close>

datatype status_filter = All_orders | Completed_orders | Cancelled_orders

type_synonym orders_page = "log_order list \<times> id option"

record orders_tab =
  ot_days :: rat
  ot_filter :: status_filter
  ot_pages :: "orders_page list option"
  ot_size :: nat

definition first_orders :: orders_tab where
  "first_orders = \<lparr>ot_days = 7, ot_filter = All_orders, ot_pages = None, ot_size = 1\<rparr>"

text \<open>The key of a page: \<open>None\<close> past the end, else the cursor it asks with.\<close>

definition page_key :: "nat \<Rightarrow> orders_page option \<Rightarrow> id option option" where
  "page_key index prev =
     (if index > 0 \<and> (case prev of None \<Rightarrow> True | Some p \<Rightarrow> snd p = None \<or> snd p = Some []) then None
      else Some (if index = 0 then None else (case prev of None \<Rightarrow> None | Some p \<Rightarrow> snd p)))"

fun load_pages :: "(id option \<Rightarrow> orders_page) \<Rightarrow> nat \<Rightarrow> nat \<Rightarrow> orders_page option \<Rightarrow> orders_page list" where
  "load_pages fetch index 0 prev = []"
| "load_pages fetch index (Suc n) prev =
     (case page_key index prev of
        None \<Rightarrow> []
      | Some cursor \<Rightarrow> (let pg = fetch cursor in pg # load_pages fetch (Suc index) n (Some pg)))"

definition tab_orders :: "orders_tab \<Rightarrow> log_order list" where
  "tab_orders t = (case ot_pages t of None \<Rightarrow> [] | Some ps \<Rightarrow> concat (map fst ps))"

definition has_more :: "orders_tab \<Rightarrow> bool" where
  "has_more t = (case ot_pages t of None \<Rightarrow> False
     | Some ps \<Rightarrow> ps \<noteq> [] \<and> snd (last ps) \<noteq> None \<and> snd (last ps) \<noteq> Some [])"

definition load_more :: "orders_tab \<Rightarrow> orders_tab" where
  "load_more t = t\<lparr>ot_size := ot_size t + 1\<rparr>"

definition shows_status :: "status_filter \<Rightarrow> order_status \<Rightarrow> bool" where
  "shows_status f st = (case f of All_orders \<Rightarrow> True
     | Completed_orders \<Rightarrow> st \<in> {Served, Ready} | Cancelled_orders \<Rightarrow> st \<in> {Rejected, Cancelled})"

definition display_orders :: "orders_tab \<Rightarrow> log_order list" where
  "display_orders t = filter (\<lambda>o'. shows_status (ot_filter t) (lo_status o')) (tab_orders t)"

datatype paid_text = Card_text | Cash_text | Not_paid_text

definition paid_cell :: "log_order \<Rightarrow> paid_text" where
  "paid_cell o' = (if lo_paymentStatus o' = Paid
     then (if lo_paymentMethod o' = Some Card then Card_text else Cash_text) else Not_paid_text)"

subsection \<open>The printer panel\<close>

definition queued :: "pos_health \<Rightarrow> nat" where
  "queued h = ph_pending h + ph_claimed h"

definition minutesSinceSent :: "time \<Rightarrow> pos_health \<Rightarrow> int option" where
  "minutesSinceSent t h = map_option (\<lambda>sent. (t - sent) div 60000) (ph_lastSentAt h)"

definition agentLikelyDown :: "time \<Rightarrow> pos_health \<Rightarrow> bool" where
  "agentLikelyDown t h \<longleftrightarrow> queued h > 0 \<and>
     (case minutesSinceSent t h of None \<Rightarrow> True | Some m \<Rightarrow> m \<ge> 5)"

definition printer_alert :: "time \<Rightarrow> pos_health \<Rightarrow> bool" where
  "printer_alert t h \<longleftrightarrow> ph_failed h > 0 \<or> ph_stuck h \<noteq> [] \<or> agentLikelyDown t h"

subsection \<open>Ending the sessions of a table\<close>

lemma revoke_twice [simp]: "revoke t (revoke t x) = revoke t x"
  by (simp add: revoke_def)

lemma updateMany_revoke:
  "updateMany (\<lambda>x. ts_id x \<in> I) (revoke t) (updateMany (\<lambda>x. ts_id x = i) (revoke t) xs) =
   updateMany (\<lambda>x. ts_id x \<in> insert i I) (revoke t) xs"
  by (induction xs) (auto simp: revoke_def)

lemma DELETE_session_known:
  assumes "requireStaff pf Admin cookie s = (Some st, s)" and "x \<in> set (sessions s)" "ts_id x = i" "ts_venueId x = sc_venueId st"
  obtains s' where "snd (DELETE_session pf i cookie s) = s'" "now s' = now s" "accountCache s' = accountCache s"
    "tables s' = tables s" "sessions s' = updateMany (\<lambda>x. ts_id x = i) (revoke (now s)) (sessions s)"
proof -
  obtain y where "findFirst (\<lambda>x. ts_id x = i \<and> ts_venueId x = sc_venueId st) (sessions s) = Some y"
    using findFirst_Some_ex[OF assms(2), of "\<lambda>x. ts_id x = i \<and> ts_venueId x = sc_venueId st"] assms(3,4) by auto
  then show thesis using that by (simp add: DELETE_session_def assms(1) publish_def)
qed

lemma ended_sessions:
  assumes "requireStaff pf Admin cookie s = (Some st, s)"
    and "\<forall>(i, _, _) \<in> set as. \<exists>x \<in> set (sessions s). ts_id x = i \<and> ts_venueId x = sc_venueId st"
  shows "now (fold (\<lambda>x s. snd (DELETE_session pf (fst x) cookie s)) as s) = now s \<and>
    sessions (fold (\<lambda>x s. snd (DELETE_session pf (fst x) cookie s)) as s) =
      updateMany (\<lambda>x. ts_id x \<in> fst ` set as) (revoke (now s)) (sessions s)"
  using assms
proof (induction as arbitrary: s)
  case Nil
  then show ?case by (simp add: updateMany_id)
next
  case (Cons a as)
  obtain i c l where a: "a = (i, c, l)" by (cases a)
  obtain x where x: "x \<in> set (sessions s)" "ts_id x = i" "ts_venueId x = sc_venueId st" using Cons.prems(2) by (auto simp: a)
  obtain s' where s': "snd (DELETE_session pf i cookie s) = s'" "now s' = now s" "accountCache s' = accountCache s"
      "sessions s' = updateMany (\<lambda>x. ts_id x = i) (revoke (now s)) (sessions s)"
    using DELETE_session_known[OF Cons.prems(1) x] by metis
  have "requireStaff pf Admin cookie s' = (Some st, s')"
    by (rule requireStaff_again[OF Cons.prems(1)]) (simp_all add: s')
  moreover have "\<forall>(i, _, _) \<in> set as. \<exists>x \<in> set (sessions s'). ts_id x = i \<and> ts_venueId x = sc_venueId st"
  proof (clarify)
    fix j c l assume "(j, c, l) \<in> set as"
    then obtain y where "y \<in> set (sessions s)" "ts_id y = j" "ts_venueId y = sc_venueId st"
      using Cons.prems(2) by force
    then show "\<exists>x \<in> set (sessions s'). ts_id x = j \<and> ts_venueId x = sc_venueId st"
      by (intro bexI[of _ "if ts_id y = i then revoke (now s) y else y"]) (auto simp: s'(4) set_updateMany revoke_def)
  qed
  ultimately have "now (fold (\<lambda>x s. snd (DELETE_session pf (fst x) cookie s)) as s') = now s' \<and>
    sessions (fold (\<lambda>x s. snd (DELETE_session pf (fst x) cookie s)) as s') =
      updateMany (\<lambda>x. ts_id x \<in> fst ` set as) (revoke (now s')) (sessions s')"
    by (rule Cons.IH)
  then show ?case by (simp add: a s' updateMany_revoke[of "fst ` set as", simplified])
qed

text \<open>
  Ending the sessions of a table empties the table and nothing else. After the button has gone
  through the sessions the list shows for a table, no session of it is live any more, so a reload
  shows it empty, and the sessions of the other tables are as they were.
\<close>

theorem ending_sessions_empties_table:
  assumes "GET_tables pf hmac origin cookie s = (Ok rows, s1)" and "r \<in> set rows"
    and "distinct (map ts_id (sessions s))"
    and "\<forall>x \<in> set (sessions s). \<forall>t \<in> set (tables s). ts_tableId x = tab_id t \<longrightarrow> ts_venueId x = tab_venueId t"
  shows "filter (listed_session (now s) (tr_id r)) (sessions (end_sessions pf cookie r s1)) = [] \<and>
    now (end_sessions pf cookie r s1) = now s \<and>
    filter (\<lambda>x. ts_tableId x \<noteq> tr_id r) (sessions (end_sessions pf cookie r s1)) =
      filter (\<lambda>x. ts_tableId x \<noteq> tr_id r) (sessions s)"
proof -
  obtain st where r0: "requireStaff pf Admin cookie s = (Some st, s1)"
    using assms(1) by (auto simp: GET_tables_def split: prod.splits option.splits)
  then obtain c where s1: "s1 = s\<lparr>accountCache := c\<rparr>" using requireStaff_SomeD by blast
  obtain secret tb where tb: "tb \<in> set (tables s)" "tab_venueId tb = sc_venueId st"
      "r = table_row_of hmac origin secret s1 tb"
    using assms(1,2) by (auto simp: GET_tables_def r0 s1 split: option.splits)
  let ?live = "filter (listed_session (now s) (tab_id tb)) (sessions s)"
  have act: "fst ` set (tr_activeSessions r) = ts_id ` set ?live" "tr_id r = tab_id tb"
    by (simp_all add: tb(3) table_row_of_def s1 image_image)
  have known: "\<forall>(i, _, _) \<in> set (tr_activeSessions r). \<exists>x \<in> set (sessions s1). ts_id x = i \<and> ts_venueId x = sc_venueId st"
    using assms(4) tb(1,2) by (auto simp: tb(3) table_row_of_def s1 listed_session_def)
  have again: "requireStaff pf Admin cookie s1 = (Some st, s1)" by (rule requireStaff_again[OF r0]) simp_all
  note e = ended_sessions[OF again known, folded end_sessions_def]
  have mine: "ts_tableId x = tab_id tb" if x: "x \<in> set (sessions s)" "ts_id x \<in> ts_id ` set ?live" for x
  proof -
    obtain y where y: "y \<in> set (sessions s)" "ts_id y = ts_id x" "ts_tableId y = tab_id tb"
      using x(2) by (auto simp: listed_session_def)
    then have "y = x" using assms(3) x(1) by (auto simp: distinct_map inj_on_def)
    then show ?thesis using y(3) by simp
  qed
  have all: "ts_id x \<in> ts_id ` set ?live" if "x \<in> set (sessions s)" "listed_session (now s) (tab_id tb) x" for x
    using that by auto
  have ss: "sessions (end_sessions pf cookie r s1) =
      updateMany (\<lambda>x. ts_id x \<in> ts_id ` set ?live) (revoke (now s)) (sessions s)"
    using e by (simp add: act(1) s1)
  have "filter (listed_session (now s) (tr_id r)) (sessions (end_sessions pf cookie r s1)) = []"
    unfolding ss act(2) using all by (auto simp: filter_empty_conv set_updateMany listed_session_def revoke_def)
  moreover have "filter (\<lambda>x. ts_tableId x \<noteq> tr_id r) (sessions (end_sessions pf cookie r s1)) =
      filter (\<lambda>x. ts_tableId x \<noteq> tr_id r) (sessions s)"
    unfolding ss act(2) updateMany_def filter_map comp_def
    using mine by (auto simp: revoke_def intro!: map_idI filter_cong)
  ultimately show ?thesis using e by (simp add: s1)
qed

theorem ending_sessions_empties_table_witness:
  "\<exists>rows r. fst (GET_tables toy_platform (\<lambda>_ _. []) [] (Some ''a1-0'') sample) = Ok rows \<and> r \<in> set rows \<and> shown_occupied r \<and>
     filter (listed_session (now sample) (tr_id r))
       (sessions (end_sessions toy_platform (Some ''a1-0'') r (snd (GET_tables toy_platform (\<lambda>_ _. []) [] (Some ''a1-0'') sample)))) = []"
proof -
  obtain c where r: "requireStaff toy_platform Admin (Some ''a1-0'') sample = (Some toy_admin, sample\<lparr>accountCache := c\<rparr>)"
    using toy_requires(1)[of sample] by (auto simp: sample_fields)
  obtain v where v: "findFirst (\<lambda>v. ven_id v = sc_venueId toy_admin) (venues sample) = Some v"
    by (simp add: sample_defs toy_admin_def)
  obtain t where t: "t \<in> set (tables sample)" "tab_venueId t = sc_venueId toy_admin" "tab_id t = ''t1''"
    by (simp add: sample_defs toy_admin_def)
  let ?row = "table_row_of (\<lambda>_ _. []) [] (ven_qrSecret v) (sample\<lparr>accountCache := c\<rparr>)"
  obtain rows where g: "GET_tables toy_platform (\<lambda>_ _. []) [] (Some ''a1-0'') sample = (Ok rows, sample\<lparr>accountCache := c\<rparr>)"
      "?row t \<in> set rows"
    using t(1,2) by (simp add: GET_tables_def r v)
  have "shown_occupied (?row t)" by (simp add: shown_occupied_def table_row_of_def t(3) listed_session_def sample_defs)
  moreover have "distinct (map ts_id (sessions sample))"
      "\<forall>x \<in> set (sessions sample). \<forall>t \<in> set (tables sample). ts_tableId x = tab_id t \<longrightarrow> ts_venueId x = tab_venueId t"
    by (simp_all add: sample_defs)
  ultimately show ?thesis using ending_sessions_empties_table[OF g] g by auto
qed

subsection \<open>The list and the log\<close>

text \<open>What the route answers to the tab for a cursor, and the tab once its pages are there.\<close>

definition fetched_page :: "platform \<Rightarrow> string option \<Rightarrow> server \<Rightarrow> rat \<Rightarrow> id option \<Rightarrow> orders_page" where
  "fetched_page pf cookie s days cursor =
     (case fst (GET_admin_orders pf (Fin days) Not_finite cursor cookie s) of
        Ok (_, next', os) \<Rightarrow> (os, next') | _ \<Rightarrow> ([], None))"

definition orders_loaded :: "platform \<Rightarrow> string option \<Rightarrow> server \<Rightarrow> orders_tab \<Rightarrow> orders_tab" where
  "orders_loaded pf cookie s t =
     t\<lparr>ot_pages := Some (load_pages (fetched_page pf cookie s (ot_days t)) 0 (ot_size t) None)\<rparr>"

definition order_log :: "id \<Rightarrow> rat \<Rightarrow> server \<Rightarrow> order list" where
  "order_log ven days s = rev (orderBy log_key (filter (in_days ven (days_of (Fin days) 7) (now s)) (orders s)))"

lemma log_order_of_cache [simp]: "log_order_of (s\<lparr>accountCache := c\<rparr>) = log_order_of s"
  by (rule ext) (simp add: log_order_of_def visit_of_order_def cong: option.case_cong)

lemma fetched_page_from:
  assumes "fst (requireStaff pf Admin cookie s) = Some st" and ids: "distinct (map ord_id (orders s))"
    and "order_log (sc_venueId st) days s = pre @ suf" and "\<forall>o' \<in> set (orders s). ord_id o' \<noteq> []"
    and cursor: "cursor = (if pre = [] then None else Some (ord_id (last pre)))"
  shows "fetched_page pf cookie s days cursor = (map (log_order_of s) (take 50 suf),
    if length suf \<le> 50 then None else Some (ord_id (last (take 50 suf))))"
proof -
  obtain c where r: "requireStaff pf Admin cookie s = (Some st, s\<lparr>accountCache := c\<rparr>)"
    using assms(1) by (cases rule: requireStaff_cases[of pf Admin cookie s]) auto
  have "some_cursor cursor = cursor"
  proof (cases "pre = []")
    case False
    then have "last pre \<in> set (order_log (sc_venueId st) days s)" using assms(3) by simp
    then have "last pre \<in> set (orders s)" by (simp add: order_log_def)
    then show ?thesis using assms(4) cursor by (auto simp: some_cursor_def)
  qed (simp add: cursor some_cursor_def)
  moreover have "log_rows (sc_venueId st) (days_of (Fin days) 7) (now s) cursor n (orders s) = take n suf" for n
    using log_rows_from[OF ids] assms(3) cursor by (simp add: order_log_def)
  moreover have "nat (pageLimit Not_finite) = 50" by (simp add: pageLimit_def ORDER_PAGE_SIZE_def)
  ultimately have answer: "fetched_page pf cookie s days cursor =
      (case splitPage ord_id (take 51 suf) 50 of None \<Rightarrow> ([], None)
       | Some (os, next') \<Rightarrow> (map (log_order_of s) os, next'))"
    by (simp add: fetched_page_def GET_admin_orders_def r split: option.split)
  show ?thesis
  proof (cases "length suf \<le> 50")
    case False
    then have "splitPage ord_id (take 51 suf) 50 = Some (take 50 suf, Some (ord_id (last (take 50 suf))))"
      by (auto simp: splitPage_def Let_def)
    then show ?thesis using False by (simp add: answer)
  qed (simp add: answer splitPage_def)
qed

lemma load_pages_from:
  assumes "fst (requireStaff pf Admin cookie s) = Some st" and "distinct (map ord_id (orders s))"
    and "\<forall>o' \<in> set (orders s). ord_id o' \<noteq> []"
    and "order_log (sc_venueId st) days s = pre @ suf"
    and "if index = 0 then pre = [] else pre \<noteq> [] \<and>
      (\<exists>os. prev = Some (os, if suf = [] then None else Some (ord_id (last pre))))"
  shows "concat (map fst (load_pages (fetched_page pf cookie s days) index n prev)) = map (log_order_of s) (take (50 * n) suf)"
    and "0 < n \<and> (index = 0 \<or> suf \<noteq> []) \<Longrightarrow> (let ps = load_pages (fetched_page pf cookie s days) index n prev in
      ps \<noteq> [] \<and> (snd (last ps) = None \<longleftrightarrow> length suf \<le> 50 * n) \<and> snd (last ps) \<noteq> Some [])"
proof -
  let ?L = "map (log_order_of s)" and ?fetch = "fetched_page pf cookie s days"
  let ?next = "\<lambda>suf. if length suf \<le> 50 then None else Some (ord_id (last (take 50 suf)))"
  have both: "concat (map fst (load_pages ?fetch index n prev)) = ?L (take (50 * n) suf) \<and>
    (0 < n \<and> (index = 0 \<or> suf \<noteq> []) \<longrightarrow> (let ps = load_pages ?fetch index n prev in
      ps \<noteq> [] \<and> (snd (last ps) = None \<longleftrightarrow> length suf \<le> 50 * n) \<and> snd (last ps) \<noteq> Some []))"
    using assms(4,5)
  proof (induction n arbitrary: index prev pre suf)
    case (Suc n)
    show ?case
    proof (cases "0 < index \<and> suf = []")
      case True
      then show ?thesis using Suc.prems(2) by (auto simp: page_key_def)
    next
      case False
      let ?cursor = "if pre = [] then None else Some (ord_id (last pre))"
      have logged: "x \<in> set (orders s)" if "x \<in> set (pre @ suf)" for x
        using that by (simp add: order_log_def flip: Suc.prems(1))
      have key: "page_key index prev = Some ?cursor"
        using Suc.prems(2) False logged[of "last pre"] assms(3) by (auto simp: page_key_def split: if_splits)
      note page = fetched_page_from[OF assms(1,2) Suc.prems(1) assms(3) refl]
      let ?pg = "(?L (take 50 suf), ?next suf)"
      have loaded: "load_pages ?fetch index (Suc n) prev = ?pg # load_pages ?fetch (Suc index) n (Some ?pg)"
        by (simp add: key page Let_def)
      show ?thesis
      proof (cases "length suf \<le> 50")
        case True
        then have "load_pages ?fetch (Suc index) n (Some ?pg) = []" by (cases n) (simp_all add: page_key_def)
        then show ?thesis using True by (simp add: loaded Let_def del: load_pages.simps)
      next
        case long: False
        have ne: "take 50 suf \<noteq> []" "drop 50 suf \<noteq> []" using long by auto
        have "last (take 50 suf) \<in> set suf" using ne(1) by (meson in_set_takeD last_in_set)
        then have id: "ord_id (last (take 50 suf)) \<noteq> []" using logged[of "last (take 50 suf)"] assms(3) by auto
        have "order_log (sc_venueId st) days s = (pre @ take 50 suf) @ drop 50 suf" using Suc.prems(1) by simp
        moreover have "if Suc index = 0 then pre @ take 50 suf = [] else pre @ take 50 suf \<noteq> [] \<and>
            (\<exists>os. Some ?pg = Some (os, if drop 50 suf = [] then None else Some (ord_id (last (pre @ take 50 suf)))))"
          using ne long by simp
        ultimately have ih: "concat (map fst (load_pages ?fetch (Suc index) n (Some ?pg))) = ?L (take (50 * n) (drop 50 suf)) \<and>
            (0 < n \<and> (Suc index = 0 \<or> drop 50 suf \<noteq> []) \<longrightarrow> (let ps = load_pages ?fetch (Suc index) n (Some ?pg) in
              ps \<noteq> [] \<and> (snd (last ps) = None \<longleftrightarrow> length (drop 50 suf) \<le> 50 * n) \<and> snd (last ps) \<noteq> Some []))"
          by (rule Suc.IH)
        have "take (50 * Suc n) suf = take 50 suf @ take (50 * n) (drop 50 suf)"
          using take_add[of 50 "50 * n" suf] by simp
        moreover have "length (drop 50 suf) \<le> 50 * n \<longleftrightarrow> length suf \<le> 50 * Suc n" using long by auto
        ultimately show ?thesis
          using ih ne(2) id long unfolding loaded Let_def by (cases n) (simp_all del: load_pages.simps(2))
      qed
    qed
  qed (use assms(5) in simp)
  show "concat (map fst (load_pages ?fetch index n prev)) = ?L (take (50 * n) suf)" using both ..
  show "0 < n \<and> (index = 0 \<or> suf \<noteq> []) \<Longrightarrow> (let ps = load_pages ?fetch index n prev in
      ps \<noteq> [] \<and> (snd (last ps) = None \<longleftrightarrow> length suf \<le> 50 * n) \<and> snd (last ps) \<noteq> Some [])"
    using both by blast
qed

text \<open>
  C40: The order list of the screen is the order log. However often more is asked for, the list is
  the newest orders of the chosen days, fifty for each page, in the order of the log, without gap
  or repetition; the button for more is shown exactly while orders are missing; and each filter
  shows exactly the orders of that list with the statuses it names.
\<close>

theorem order_list_is_the_log:
  assumes "fst (requireStaff pf Admin cookie s) = Some st" and "distinct (map ord_id (orders s))"
    and "\<forall>o' \<in> set (orders s). ord_id o' \<noteq> []" and "0 < ot_size t"
  shows "tab_orders (orders_loaded pf cookie s t) =
      map (log_order_of s) (take (50 * ot_size t) (order_log (sc_venueId st) (ot_days t) s)) \<and>
    (has_more (orders_loaded pf cookie s t) \<longleftrightarrow> 50 * ot_size t < length (order_log (sc_venueId st) (ot_days t) s)) \<and>
    display_orders (orders_loaded pf cookie s t) = map (log_order_of s)
      (filter (\<lambda>o'. shows_status (ot_filter t) (ord_status o')) (take (50 * ot_size t) (order_log (sc_venueId st) (ot_days t) s)))"
proof -
  note pages = load_pages_from[OF assms(1-3), of "ot_days t" "[]" "order_log (sc_venueId st) (ot_days t) s" 0 None "ot_size t"]
  have shown: "tab_orders (orders_loaded pf cookie s t) =
      map (log_order_of s) (take (50 * ot_size t) (order_log (sc_venueId st) (ot_days t) s))"
    using pages(1) by (simp add: tab_orders_def orders_loaded_def)
  moreover have "has_more (orders_loaded pf cookie s t) \<longleftrightarrow> 50 * ot_size t < length (order_log (sc_venueId st) (ot_days t) s)"
    using pages(2) assms(4) by (auto simp: has_more_def orders_loaded_def Let_def)
  moreover have "ot_filter (orders_loaded pf cookie s t) = ot_filter t" by (simp add: orders_loaded_def)
  ultimately show ?thesis
    by (simp add: display_orders_def shown filter_map comp_def log_order_of_def)
qed

theorem order_list_is_the_log_witness:
  "tab_orders (orders_loaded toy_platform (Some ''a1-0'') sample first_orders) =
     map (log_order_of sample) (order_log ''v1'' 7 sample) \<and>
   \<not> has_more (orders_loaded toy_platform (Some ''a1-0'') sample first_orders)"
proof -
  obtain c where "requireStaff toy_platform Admin (Some ''a1-0'') sample = (Some toy_admin, sample\<lparr>accountCache := c\<rparr>)"
    using toy_requires(1)[of sample] by (auto simp: sample_fields)
  then have r: "fst (requireStaff toy_platform Admin (Some ''a1-0'') sample) = Some toy_admin" by simp
  have ids: "distinct (map ord_id (orders sample))" "\<forall>o' \<in> set (orders sample). ord_id o' \<noteq> []"
    by (simp_all add: sample_defs)
  have "length (order_log ''v1'' 7 sample) \<le> length (orders sample)" by (simp add: order_log_def)
  also have "\<dots> \<le> 50" by (simp add: sample_defs)
  finally show ?thesis
    using order_list_is_the_log[OF r ids, of first_orders] by (simp add: first_orders_def toy_admin_def)
qed

subsection \<open>When the printer panel raises the alarm\<close>

lemma first_descending:
  "(case orderByDesc k xs of [] \<Rightarrow> None | x # _ \<Rightarrow> Some (k x)) = (if xs = [] then None else Some (Max (k ` set xs)))"
proof (cases "orderByDesc k xs")
  case Nil
  then have "set xs = {}" using set_orderByDesc[of k xs] by simp
  then show ?thesis by (simp add: orderByDesc_def)
next
  case (Cons x ys)
  have ne: "set xs = set (x # ys)" using set_orderByDesc[of k xs] Cons by simp
  then have "xs \<noteq> []" by auto
  have "sorted (map (\<lambda>r. - k r) (x # ys))" unfolding Cons[symmetric] by (simp add: orderByDesc_def)
  then have "\<forall>y \<in> set xs. k y \<le> k x" unfolding ne by auto
  then have "Max (k ` set xs) = k x" using ne by (intro Max_eqI) auto
  then show ?thesis using \<open>xs \<noteq> []\<close> by (simp add: Cons)
qed

text \<open>
  When the panel calls for attention. The printer panel shows its alarm exactly when a delivery
  of the venue has failed, is stuck, or waits while nothing was printed in the last five minutes.
  The last condition does not ask how long the delivery has been waiting: after five quiet minutes
  the alarm is raised by the next order, while its ticket is on the way.
\<close>

theorem printer_alarm_iff:
  "printer_alert t (pos_health_of ven s) \<longleftrightarrow>
    (\<exists>d \<in> set (posDeliveries s). pd_venueId d = ven \<and> (pd_status d = Failed \<or> stuck (now s - CLAIM_TIMEOUT_MS) d)) \<or>
    ((\<exists>d \<in> set (posDeliveries s). pd_venueId d = ven \<and> pd_status d \<in> {Pending, Claimed}) \<and>
     (\<forall>d \<in> set (posDeliveries s). pd_venueId d = ven \<and> pd_status d = Sent \<longrightarrow> pd_updatedAt d \<le> t - 300000))"
proof -
  let ?mine = "filter (\<lambda>d. pd_venueId d = ven) (posDeliveries s)"
  let ?sent = "filter (\<lambda>d. pd_status d = Sent) ?mine"
  have h: "ph_lastSentAt (pos_health_of ven s) = (if ?sent = [] then None else Some (Max (pd_updatedAt ` set ?sent)))"
    unfolding pos_health_of_def Let_def pos_health.simps by (rule first_descending)
  have m: "5 \<le> (t - x) div 60000 \<longleftrightarrow> x \<le> t - 300000" for x :: int by auto
  have late: "(case minutesSinceSent t (pos_health_of ven s) of None \<Rightarrow> True | Some m \<Rightarrow> m \<ge> 5) \<longleftrightarrow>
      (\<forall>d \<in> set ?sent. pd_updatedAt d \<le> t - 300000)"
  proof (cases "?sent = []")
    case True
    then show ?thesis by (simp add: minutesSinceSent_def h)
  next
    case False
    then have "set ?sent \<noteq> {}" by (simp only: set_empty not_False_eq_True)
    then have "Max (pd_updatedAt ` set ?sent) \<le> t - 300000 \<longleftrightarrow> (\<forall>x \<in> pd_updatedAt ` set ?sent. x \<le> t - 300000)"
      by (intro Max_le_iff) simp_all
    then show ?thesis using False by (simp only: minutesSinceSent_def h if_False option.map option.case m ball_simps)
  qed
  have q: "queued (pos_health_of ven s) > 0 \<longleftrightarrow> (\<exists>d \<in> set ?mine. pd_status d \<in> {Pending, Claimed})"
    by (auto simp: queued_def pos_health_of_def Let_def countWhere_pos_iff)
  have f: "ph_failed (pos_health_of ven s) > 0 \<longleftrightarrow> (\<exists>d \<in> set ?mine. pd_status d = Failed)"
    by (simp add: pos_health_of_def Let_def countWhere_pos_iff)
  have st: "ph_stuck (pos_health_of ven s) \<noteq> [] \<longleftrightarrow> (\<exists>d \<in> set ?mine. stuck (now s - CLAIM_TIMEOUT_MS) d)"
    by (auto simp: pos_health_of_def Let_def filter_empty_conv)
  have or: "(\<exists>d \<in> A. P d \<and> (Q d \<or> R d)) \<longleftrightarrow> (\<exists>d \<in> A. P d \<and> Q d) \<or> (\<exists>d \<in> A. P d \<and> R d)"
    for A :: "pos_delivery set" and P Q R by blast
  have mine: "(\<exists>d \<in> set ?mine. P d) \<longleftrightarrow> (\<exists>d \<in> set (posDeliveries s). pd_venueId d = ven \<and> P d)" for P
    by (simp add: conj_commute conj_left_commute) blast
  have sent: "(\<forall>d \<in> set ?sent. P d) \<longleftrightarrow>
      (\<forall>d \<in> set (posDeliveries s). pd_venueId d = ven \<and> pd_status d = Sent \<longrightarrow> P d)" for P
    by auto
  show ?thesis unfolding printer_alert_def agentLikelyDown_def q f st late mine sent or by (simp only: disj_assoc)
qed

definition quiet_kitchen :: server where
  "quiet_kitchen = sample\<lparr>posDeliveries :=
     [(sample_delivery ''p1'' ''o2'')\<lparr>pd_status := Sent, pd_updatedAt := 0\<rparr>,
      (sample_delivery ''p2'' ''o1'')\<lparr>pd_status := Pending, pd_createdAt := 400000, pd_updatedAt := 400000\<rparr>], now := 400000\<rparr>"

theorem printer_alarm_iff_witness:
  "printer_alert 400000 (pos_health_of ''v1'' quiet_kitchen) \<and>
   ph_stuck (pos_health_of ''v1'' quiet_kitchen) = [] \<and> ph_failed (pos_health_of ''v1'' quiet_kitchen) = 0"
proof -
  have "printer_alert 400000 (pos_health_of ''v1'' quiet_kitchen)"
    unfolding printer_alarm_iff by (simp add: quiet_kitchen_def sample_delivery_def)
  then show ?thesis
    by (simp add: pos_health_of_def Let_def quiet_kitchen_def sample_delivery_def countWhere_def stuck_def stale_claim_def
        CLAIM_TIMEOUT_MS_def)
qed

end
