(* ===== verification/Pages.thy ===== *)
theory Pages
  imports Scan Menu Upkeep
begin

section \<open>The pages and the start of the server\<close>

text \<open>
  The server components under \<open>src/app\<close>: the landing page, the table page, the staff pages and
  the sheet of printed table codes with \<open>src/components/QrSheet.tsx\<close>, and
  \<open>src/instrumentation.ts\<close>. A page is a redirect or what it shows; an exception is
  \<open>Page_throws\<close>. The environment has been read by then and is an argument, and so are
  \<open>toUpperCase\<close> and the encoder that draws a QR code. \<open>db.venue.findFirst\<close> without a condition
  is the first row.
\<close>

datatype 'a page = Redirected string | Shown 'a | Page_throws

subsection \<open>The table page\<close>

datatype wall_variant = Wall_invalid | Wall_expired

datatype table_view = Rescan_wall wall_variant | Guest_app string customer_menu

definition TablePage ::
  "string \<Rightarrow> jstr option \<Rightarrow> string option \<Rightarrow> server \<Rightarrow> table_view page \<times> server" where
  "TablePage code err cookie s =
     (case getActiveSession cookie (Some code) s of
        (None, s1) \<Rightarrow>
          (Shown (Rescan_wall (if err = Some (lit ''invalid'') then Wall_invalid else Wall_expired)), s1)
      | (Some session, s1) \<Rightarrow>
          (case menuForSession session s1 of
             (Done m, s2) \<Rightarrow> (Shown (Guest_app code m), s2)
           | (_, s2) \<Rightarrow> (Page_throws, s2)))"

text \<open>The texts of the wall by their keys, and whether it says that the order is saved.\<close>

definition wall_texts :: "wall_variant \<Rightarrow> string \<times> string \<times> bool" where
  "wall_texts v =
     ((if v = Wall_invalid then ''invalidQrTitle'' else ''sessionExpiredTitle''),
      (if v = Wall_invalid then ''invalidQrBody'' else ''sessionExpiredBody''), v \<noteq> Wall_invalid)"

text \<open>Where a scan sends the phone, and the cookie it has then.\<close>

definition follow_scan ::
  "string \<Rightarrow> scan_result \<Rightarrow> string option \<Rightarrow> server \<Rightarrow> table_view page \<times> server" where
  "follow_scan code r cookie s =
     (case r of
        Wall \<Rightarrow> TablePage code (Some (lit ''invalid'')) cookie s
      | Landing token \<Rightarrow> TablePage code None (Some token) s
      | Scan_throws \<Rightarrow> (Page_throws, s))"

subsection \<open>The staff pages\<close>

record staff_view =
  sv_staffName :: jstr
  sv_currency :: string

definition venue_currency :: "id \<Rightarrow> server \<Rightarrow> string" where
  "venue_currency venueId s =
     (case findFirst (\<lambda>v. ven_id v = venueId) (venues s) of None \<Rightarrow> ''TRY'' | Some v \<Rightarrow> ven_currency v)"

definition AdminPage :: "platform \<Rightarrow> string option \<Rightarrow> server \<Rightarrow> staff_view page \<times> server" where
  "AdminPage pf cookie s =
     (case getStaff pf cookie s of
        (None, s1) \<Rightarrow> (Redirected ''/login'', s1)
      | (Some staff, s1) \<Rightarrow>
          if sc_role staff \<noteq> Admin then (Redirected ''/desk'', s1)
          else (Shown \<lparr>sv_staffName = sc_name staff, sv_currency = venue_currency (sc_venueId staff) s1\<rparr>, s1))"

definition DeskPage :: "platform \<Rightarrow> string option \<Rightarrow> server \<Rightarrow> staff_view page \<times> server" where
  "DeskPage pf cookie s =
     (case getStaff pf cookie s of
        (None, s1) \<Rightarrow> (Redirected ''/login'', s1)
      | (Some staff, s1) \<Rightarrow>
          (Shown \<lparr>sv_staffName = sc_name staff, sv_currency = venue_currency (sc_venueId staff) s1\<rparr>, s1))"

text \<open>The login page shows the form, the unit value.\<close>

definition LoginPage :: "platform \<Rightarrow> string option \<Rightarrow> server \<Rightarrow> unit page \<times> server" where
  "LoginPage pf cookie s =
     (case getStaff pf cookie s of
        (Some staff, s1) \<Rightarrow> (Redirected (if sc_role staff = Admin then ''/admin'' else ''/desk''), s1)
      | (None, s1) \<Rightarrow> (Shown (), s1))"

subsection \<open>The landing page\<close>

record home_view =
  hv_title :: jstr
  hv_scanLinks :: "(id \<times> jstr \<times> jstr) list option"

definition DEFAULT_TITLE :: jstr where
  "DEFAULT_TITLE = lit ''MASADAN S'' @ [304] @ lit ''PAR'' @ [304, 350]"

definition scan_links :: "mac \<Rightarrow> jstr \<Rightarrow> venue \<Rightarrow> server \<Rightarrow> (id \<times> jstr \<times> jstr) list" where
  "scan_links hmac origin v s =
     map (\<lambda>t. (tab_id t, tab_name t, tableQrUrl hmac origin (ven_qrSecret v) (tab_code t) (tab_qrVersion t)))
       (filter (\<lambda>t. tab_venueId t = ven_id v \<and> tab_active t) (tables s))"

definition Home :: "bool \<Rightarrow> mac \<Rightarrow> (jstr \<Rightarrow> jstr) \<Rightarrow> env \<Rightarrow> server \<Rightarrow> home_view" where
  "Home production hmac toUpperCase e s =
     (let venue = findFirst (\<lambda>_. True) (venues s);
          devVenue = (if production then None else findFirst (\<lambda>_. True) (venues s))
      in \<lparr>hv_title = (case venue of None \<Rightarrow> DEFAULT_TITLE | Some v \<Rightarrow> toUpperCase (ven_name v)),
          hv_scanLinks = map_option (\<lambda>v. scan_links hmac (baseUrl e) v s) devVenue\<rparr>)"

subsection \<open>The sheet of table codes\<close>

datatype card_size = Large_cards | Medium_cards | Small_cards

definition size_key :: "card_size \<Rightarrow> string" where
  "size_key z = (case z of Large_cards \<Rightarrow> ''large'' | Medium_cards \<Rightarrow> ''medium'' | Small_cards \<Rightarrow> ''small'')"

definition perRow :: "card_size \<Rightarrow> nat" where
  "perRow z = (case z of Large_cards \<Rightarrow> 2 | Medium_cards \<Rightarrow> 3 | Small_cards \<Rightarrow> 4)"

definition qrPx :: "card_size \<Rightarrow> nat" where
  "qrPx z = (case z of Large_cards \<Rightarrow> 640 | Medium_cards \<Rightarrow> 480 | Small_cards \<Rightarrow> 360)"

definition size_of_param :: "jstr option \<Rightarrow> card_size" where
  "size_of_param raw = (if raw = Some (lit ''large'') then Large_cards
     else if raw = Some (lit ''small'') then Small_cards else Medium_cards)"

record qr_card =
  qc_id :: id
  qc_name :: jstr
  qc_active :: bool
  qc_qrVersion :: int
  qc_dataUrl :: jstr

record qr_sheet =
  qs_venueName :: jstr
  qs_baseUrl :: jstr
  qs_cards :: "qr_card list"
  qs_size :: card_size
  qs_includeInactive :: bool

text \<open>\<open>draw url width\<close> is the picture of a code as a data address.\<close>

definition qr_card_of :: "mac \<Rightarrow> (jstr \<Rightarrow> nat \<Rightarrow> jstr) \<Rightarrow> jstr \<Rightarrow> venue \<Rightarrow> card_size \<Rightarrow> tabl \<Rightarrow> qr_card" where
  "qr_card_of hmac draw origin v z t =
     \<lparr>qc_id = tab_id t, qc_name = tab_name t, qc_active = tab_active t, qc_qrVersion = tab_qrVersion t,
      qc_dataUrl = draw (tableQrUrl hmac origin (ven_qrSecret v) (tab_code t) (tab_qrVersion t)) (qrPx z)\<rparr>"

definition printed_tables :: "id \<Rightarrow> bool \<Rightarrow> server \<Rightarrow> tabl list" where
  "printed_tables venueId includeInactive s = orderBy tab_createdAt
     (filter (\<lambda>t. tab_venueId t = venueId \<and> (includeInactive \<or> tab_active t)) (tables s))"

definition QrSheetPage ::
  "platform \<Rightarrow> mac \<Rightarrow> (jstr \<Rightarrow> nat \<Rightarrow> jstr) \<Rightarrow> env \<Rightarrow> jstr option \<Rightarrow> jstr option \<Rightarrow>
   string option \<Rightarrow> server \<Rightarrow> qr_sheet page \<times> server" where
  "QrSheetPage pf hmac draw e rawSize incl cookie s =
     (case getStaff pf cookie s of
        (None, s1) \<Rightarrow> (Redirected ''/login'', s1)
      | (Some staff, s1) \<Rightarrow>
          if sc_role staff \<noteq> Admin then (Redirected ''/desk'', s1)
          else (case findFirst (\<lambda>v. ven_id v = sc_venueId staff) (venues s1) of
             None \<Rightarrow> (Page_throws, s1)
           | Some v \<Rightarrow>
               (Shown \<lparr>qs_venueName = ven_name v, qs_baseUrl = baseUrl e,
                  qs_cards = map (qr_card_of hmac draw (baseUrl e) v (size_of_param rawSize))
                    (printed_tables (sc_venueId staff) (incl = Some (lit ''all'')) s1),
                  qs_size = size_of_param rawSize, qs_includeInactive = (incl = Some (lit ''all''))\<rparr>, s1)))"

text \<open>The screen: printing is disabled for a local origin, and its links reopen the page.\<close>

definition badBaseUrl :: "qr_sheet \<Rightarrow> bool" where
  "badBaseUrl q \<longleftrightarrow> qs_baseUrl q = [] \<or> occurs_in (qs_baseUrl q) (lit ''localhost'') \<or>
     occurs_in (qs_baseUrl q) (lit ''127.0.0.1'')"

definition sheet_query :: "qr_sheet \<Rightarrow> string \<times> string \<Rightarrow> jstr" where
  "sheet_query q over =
     (let p = AList.update (fst over) (snd over)
            ((''size'', size_key (qs_size q)) # (if qs_includeInactive q then [(''include'', ''all'')] else []))
      in lit ''/admin/qr-sheet?'' @ join_with (lit ''&'') (map (\<lambda>(k, v). lit k @ 61 # lit v) p))"

definition size_link :: "card_size \<Rightarrow> qr_sheet \<Rightarrow> jstr" where
  "size_link z q = sheet_query q (''size'', size_key z)"

definition inactive_link :: "qr_sheet \<Rightarrow> jstr" where
  "inactive_link q = sheet_query q (''include'', if qs_includeInactive q then ''active'' else ''all'')"

definition shown_as_inactive :: "qr_card \<Rightarrow> bool" where
  "shown_as_inactive c \<longleftrightarrow> \<not> qc_active c"


subsection \<open>The start of the server\<close>

text \<open>
  \<open>register\<close> with the warnings it prints. The process environment is read through the same map as
  by the schema; \<open>hostname\<close>, the interfaces and whether the database answers are arguments.
\<close>

datatype boot_warning = Bound_publicly jstr | Origin_unreachable jstr "jstr list"

definition LOOPBACK :: "jstr list" where
  "LOOPBACK = [lit ''127.0.0.1'', lit ''::1'', lit ''localhost'']"

definition bind_warnings :: "process_env \<Rightarrow> env \<Rightarrow> boot_warning list" where
  "bind_warnings p e =
     (let bind = (case p ''HOSTNAME'' of None \<Rightarrow> [] | Some h \<Rightarrow> h)
      in if p ''NODE_ENV'' = Some (lit ''production'') \<and> trust_proxy e \<and> bind \<notin> set LOOPBACK
         then [Bound_publicly (if bind = [] then lit ''0.0.0.0'' else bind)] else [])"

definition origin_warnings ::
  "process_env \<Rightarrow> (jstr \<Rightarrow> jstr option) \<Rightarrow> (jstr \<times> interface_address list option) list \<Rightarrow> env \<Rightarrow> boot_warning list" where
  "origin_warnings p hostname interfaces e =
     (if p ''NODE_ENV'' = Some (lit ''production'') then []
      else (case warnIfOriginUnreachable hostname (Some e) interfaces of
          None \<Rightarrow> [] | Some (host, addresses) \<Rightarrow> [Origin_unreachable host addresses]))"

type_synonym boot = "((string \<times> zod_message) list, boot_warning list) outcome \<times> env option \<times> process \<times> server"

definition register ::
  "process_env \<Rightarrow> (jstr \<Rightarrow> jstr option) \<Rightarrow> (jstr \<times> interface_address list option) list \<Rightarrow> bool \<Rightarrow>
   env option \<Rightarrow> process \<times> server \<Rightarrow> boot" where
  "register p hostname interfaces up cached ps =
     (if p ''NEXT_RUNTIME'' \<noteq> Some (lit ''nodejs'') then (Done [], cached, ps)
      else (let isBuild = (p ''NEXT_PHASE'' = Some (lit ''phase-production-build'')) in
        case getEnv p cached of
          (Done e, cached') \<Rightarrow>
            if isBuild then (Done [], cached', ps)
            else (Done (bind_warnings p e @ origin_warnings p hostname interfaces e), cached', startScheduler up ps)
        | (Refused problems, cached') \<Rightarrow> (Refused problems, cached', ps)
        | (Threw, cached') \<Rightarrow> (Threw, cached', ps)))"

text \<open>
  A server that has started is complete: its environment is well formed, its three jobs are
  scheduled, once, and a sweep has run. One whose environment is unacceptable schedules nothing.
\<close>

lemma started_server_is_complete:
  assumes "p ''NEXT_RUNTIME'' = Some (lit ''nodejs'')" "p ''NEXT_PHASE'' \<noteq> Some (lit ''phase-production-build'')"
    and "register p hostname interfaces up None (fresh_process, s) = (r, cached, pr, s')"
  shows "if env_issues p = []
    then (\<exists>ws. r = Done ws) \<and> (\<exists>e. cached = Some e \<and> well_formed_env e) \<and> pr_started pr \<and> pr_timers pr = ALL_TIMERS
    else r = Refused (env_issues p) \<and> cached = None \<and> pr = fresh_process \<and> s' = s"
  using assms
  by (cases "env_issues p")
    (auto simp: register_def getEnv_def parsed_env_well_formed startScheduler_def fresh_process_def runSweep_def
      ALL_TIMERS_def SWEEP_INTERVAL_MS_def VISIT_SWEEP_INTERVAL_MS_def RETENTION_INTERVAL_MS_def the_state_def Let_def)

text \<open>
  The warning about a forged address is raised exactly when it is due: in production, with the
  header trusted, by a server other machines can reach.
\<close>

lemma bind_warned_iff:
  "bind_warnings p e \<noteq> [] \<longleftrightarrow> p ''NODE_ENV'' = Some (lit ''production'') \<and> ev_trustProxy e = lit ''1'' \<and>
     (\<forall>h. p ''HOSTNAME'' = Some h \<longrightarrow> h \<notin> set LOOPBACK)"
  by (auto simp: bind_warnings_def Let_def trust_proxy_def LOOPBACK_def lit_def split: option.splits)


subsection \<open>From the printed code to the menu\<close>

text \<open>What a scan that lands has done: it minted a session, and otherwise only counted and logged.\<close>

lemma accepted_landed:
  assumes "scan_accepted req ip t newVisit sid token s = (Landing tok, s')"
  shows "\<exists>ws oas. tok = token \<and>
    s' = (snd (mintSession newVisit sid token (tab_id t) (tab_venueId t) (s\<lparr>windows := ws\<rparr>)))\<lparr>orderAttempts := oas\<rparr>"
proof -
  let ?s1 = "s\<lparr>windows := clearRateLimit (lit ''scan:fail:'' @ ip) (windows s)\<rparr>"
  let ?ws = "snd (rateLimit (now s) (lit ''scan:ok:'' @ ip) OK_LIMIT OK_WINDOW_SEC (windows ?s1))"
  have mint: "fst (mintSession newVisit sid token a b u) = token" for a b u by (simp add: mintSession_def)
  have hit: "snd (limiter_hit (lit ''scan:ok:'' @ ip) OK_LIMIT OK_WINDOW_SEC ?s1) = s\<lparr>windows := ?ws\<rparr>"
    by (simp add: limiter_hit_state)
  have "tok = token \<and> (\<exists>oc x. s' = logAttempt req oc x
      (snd (mintSession newVisit sid token (tab_id t) (tab_venueId t) (s\<lparr>windows := ?ws\<rparr>))))"
    using assms mint by (auto simp: scan_accepted_def Let_def case_prod_unfold hit split: if_splits)
  then show ?thesis unfolding logAttempt_def by blast
qed

lemma scan_landed:
  assumes "GET_scan hmac req code k newVisit sid token s = (Landing tok, s')"
    and t: "findFirst (\<lambda>t. tab_code t = code) (tables s) = Some t"
  shows "\<exists>ws oas. tok = token \<and> tab_active t \<and>
    s' = (snd (mintSession newVisit sid token (tab_id t) (tab_venueId t) (s\<lparr>windows := ws\<rparr>)))\<lparr>orderAttempts := oas\<rparr>"
proof -
  let ?ip = "or_unknown (clientIp (trustProxy s) req)"
  obtain ws where "scan_checked hmac req ?ip code (k_param k) newVisit sid token (s\<lparr>windows := ws\<rparr>) = (Landing tok, s')"
    using assms(1) unfolding GET_scan_def Let_def case_prod_unfold limiter_hit_state
    by (simp add: k_param_def split: if_splits)
  moreover have "findFirst (\<lambda>t. tab_code t = code) (tables (s\<lparr>windows := ws\<rparr>)) = Some t" using t by simp
  ultimately have "tab_active t" and "scan_accepted req ?ip t newVisit sid token (s\<lparr>windows := ws\<rparr>) = (Landing tok, s')"
    by (simp_all add: scan_checked_def split: option.splits if_splits bool.splits)
  then show ?thesis using accepted_landed[of req ?ip t newVisit sid token "s\<lparr>windows := ws\<rparr>"] by auto
qed

lemma newest_first:
  assumes "x \<in> set xs" and "\<And>y. y \<in> set xs \<Longrightarrow> y \<noteq> x \<Longrightarrow> k y < k x" and "0 < n"
  shows "x \<in> set (take n (orderByDesc k xs))"
proof -
  obtain y ys where o': "orderByDesc k xs = y # ys"
    using assms(1) by (metis list.exhaust list.set_cases set_orderByDesc)
  have "sorted (map (\<lambda>r. - k r) (y # ys))" using o' by (metis orderByDesc_def sorted_sort_key)
  moreover have "x \<in> set (y # ys)" using assms(1) o' by (metis set_orderByDesc)
  ultimately have "k x \<le> k y" by auto
  moreover have "y \<in> set xs" using o' by (metis list.set_intros(1) set_orderByDesc)
  ultimately have "y = x" using assms(2)[of y] by fastforce
  then show ?thesis using o' assms(3) by (cases n) auto
qed


lemma openOrJoin_sessions:
  "\<exists>vs q os. snd (openOrJoinVisit w tab ven s) =
     s\<lparr>visits := vs, sessions := updateMany q (\<lambda>x. x\<lparr>ts_visitId := None\<rparr>) (sessions s), orders := os\<rparr>"
proof -
  have keep: "\<exists>vs q os. s\<lparr>visits := v\<rparr> =
      s\<lparr>visits := vs, sessions := updateMany q (\<lambda>x. x\<lparr>ts_visitId := None\<rparr>) (sessions s), orders := os\<rparr>" for v
    by (intro exI[of _ v] exI[of _ "\<lambda>_. False"] exI[of _ "orders s"]) (simp add: updateMany_id)
  show ?thesis
    using keep[of "visits s"] keep
    by (auto simp: openOrJoinVisit_def recheck_visit_def create_visit_def delete_visit_def
        split: option.split list.split)
qed

lemma minted_is_live:
  assumes ids: "distinct (map ts_id (sessions s))" "sid \<notin> ts_id ` set (sessions s)"
    and fresh: "token \<notin> ts_token ` set (sessions s)"
    and older: "\<forall>x \<in> set (sessions s). ts_createdAt x < now s"
  shows "\<exists>x. findFirst (\<lambda>x. ts_token x = token) (sessions (snd (mintSession w sid token tab ven s))) = Some x \<and>
    ts_tableId x = tab \<and> ts_venueId x = ven \<and> ts_revokedAt x = None \<and>
    ts_expiresAt x = now s + HARD_CAP_MS \<and> ts_lastSeenAt x = now s"
proof -
  obtain vs q os where opened: "snd (openOrJoinVisit w tab ven s) =
      s\<lparr>visits := vs, sessions := updateMany q (\<lambda>x. x\<lparr>ts_visitId := None\<rparr>) (sessions s), orders := os\<rparr>"
    using openOrJoin_sessions by blast
  define old where "old = updateMany q (\<lambda>x. x\<lparr>ts_visitId := None\<rparr>) (sessions s)"
  define x where "x = new_session sid tab ven token (fst (openOrJoinVisit w tab ven s)) (now s)"
  define u where "u = mint_create w sid token tab ven s"
  have u: "sessions u = old @ [x]" "now u = now s"
    using opened by (simp_all add: u_def mint_create_def case_prod_unfold old_def x_def)
  have x: "ts_id x = sid" "ts_token x = token" "ts_createdAt x = now s" "active_at tab (now s) x"
    by (simp_all add: x_def new_session_def active_at_def HARD_CAP_MS_def)
  have keys: "map ts_id old = map ts_id (sessions s)" "map ts_token old = map ts_token (sessions s)"
      "map ts_createdAt old = map ts_createdAt (sessions s)"
    by (simp_all add: old_def map_updateMany)
  have newer: "ts_createdAt y < now s" if "y \<in> set old" for y
    using that older keys(3) by (metis imageE image_eqI list.set_map)
  have dist: "distinct (map ts_id (old @ [x]))" using ids keys(1) x(1) by simp
  let ?act = "filter (active_at tab (now s)) (old @ [x])"
  have top: "x \<in> set (take MAX_ACTIVE_PER_TABLE (orderByDesc ts_createdAt ?act))"
    by (rule newest_first) (use x newer in \<open>auto simp: MAX_ACTIVE_PER_TABLE_def\<close>)
  have notin: "x \<notin> set (drop MAX_ACTIVE_PER_TABLE (orderByDesc ts_createdAt ?act))"
  proof -
    have "distinct (orderByDesc ts_createdAt ?act)" using dist by (auto simp: orderByDesc_def distinct_map)
    then show ?thesis using top by (metis append_take_drop_id disjoint_iff distinct_append)
  qed
  have same: "y = x" if "y \<in> set (drop MAX_ACTIVE_PER_TABLE (orderByDesc ts_createdAt ?act))" "ts_id y = ts_id x" for y
  proof -
    have "y \<in> set ?act" using in_set_dropD[OF that(1)] by (simp only: set_orderByDesc)
    then have "y \<in> set (old @ [x])" unfolding set_filter by blast
    then show ?thesis using dist that(2) by (metis distinct_map in_set_conv_decomp inj_onD last_in_set list.distinct(1) last_appendR last.simps)
  qed
  have kept: "ts_id x \<notin> ts_id ` set (drop MAX_ACTIVE_PER_TABLE (orderByDesc ts_createdAt ?act))"
    using notin same by (metis (no_types, lifting) imageE)
  have none: "findFirst (\<lambda>y. ts_token y = token) old = None"
  proof -
    have "ts_token ` set old = ts_token ` set (sessions s)" using keys(2) by (metis list.set_map)
    then show ?thesis using fresh by (auto simp: findFirst_None_iff)
  qed
  have first: "findFirst (\<lambda>y. ts_token y = token) (old @ [x]) = Some x"
    using none x(2) by (simp add: findFirst_append)
  have "findFirst (\<lambda>y. ts_token y = token) (sessions (displace tab u)) = Some x"
  proof -
    have "findFirst (\<lambda>y. ts_token y = token) (updateMany (\<lambda>y. ts_id y \<in> S) (revoke (now s)) (old @ [x])) =
        map_option (\<lambda>y. if ts_id y \<in> S then revoke (now s) y else y) (Some x)" for S
      by (subst findFirst_updateMany_key) (simp_all add: revoke_def first)
    then show ?thesis using kept first by (auto simp: displace_def u Let_def)
  qed
  moreover have "snd (mintSession w sid token tab ven s) = displace tab u" by (simp add: mintSession_def u_def)
  ultimately show ?thesis by (simp add: x_def new_session_def)
qed


lemma load_same:
  "venues t = venues s \<Longrightarrow> categories t = categories s \<Longrightarrow> menuItems t = menuItems s \<Longrightarrow>
   loadVenueMenu v t = loadVenueMenu v s"
  by (rule load_cong) (simp_all add: listed_categories_def category_items_def)

lemma displace_shape: "\<exists>ss. displace tab s = s\<lparr>sessions := ss\<rparr>"
proof (cases "length (orderByDesc ts_createdAt (filter (active_at tab (now s)) (sessions s))) > MAX_ACTIVE_PER_TABLE")
  case False
  then show ?thesis by (intro exI[of _ "sessions s"]) (simp add: displace_def)
qed (simp add: displace_def Let_def, blast)

lemma mint_keeps:
  "tables (snd (mintSession w sid token tab ven s)) = tables s"
  "now (snd (mintSession w sid token tab ven s)) = now s"
  "venues (snd (mintSession w sid token tab ven s)) = venues s"
  "categories (snd (mintSession w sid token tab ven s)) = categories s"
  "menuItems (snd (mintSession w sid token tab ven s)) = menuItems s"
  "menuCache (snd (mintSession w sid token tab ven s)) = menuCache s"
proof -
  obtain vs q os where opened: "snd (openOrJoinVisit w tab ven s) =
      s\<lparr>visits := vs, sessions := updateMany q (\<lambda>x. x\<lparr>ts_visitId := None\<rparr>) (sessions s), orders := os\<rparr>"
    using openOrJoin_sessions by blast
  obtain ss where "displace tab (mint_create w sid token tab ven s) = (mint_create w sid token tab ven s)\<lparr>sessions := ss\<rparr>"
    using displace_shape by blast
  then have ss: "snd (mintSession w sid token tab ven s) = s\<lparr>visits := vs, sessions := ss, orders := os\<rparr>"
    by (simp add: mintSession_def mint_create_def case_prod_unfold opened)
  show "tables (snd (mintSession w sid token tab ven s)) = tables s"
    "now (snd (mintSession w sid token tab ven s)) = now s"
    "venues (snd (mintSession w sid token tab ven s)) = venues s"
    "categories (snd (mintSession w sid token tab ven s)) = categories s"
    "menuItems (snd (mintSession w sid token tab ven s)) = menuItems s"
    "menuCache (snd (mintSession w sid token tab ven s)) = menuCache s"
    by (simp_all add: ss)
qed

lemma menuForSession_current:
  assumes "loadVenueMenu (as_venueId a) s = Some m" "map_of (menuCache s) (as_venueId a) \<in> {None, Some m}"
  shows "\<exists>s'. menuForSession a s =
    (Done \<lparr>cm_menu = m, cm_tableName = as_tableName a, cm_tableCode = as_tableCode a\<rparr>, s')"
  using assms by (auto simp: menuForSession_def venueMenu_def)

lemma landed_page:
  assumes scan: "GET_scan hmac req code k newVisit sid token s = (Landing tok, s')"
    and t: "findFirst (\<lambda>t. tab_code t = code) (tables s) = Some t" and tabs: "distinct (map tab_id (tables s))"
    and ids: "distinct (map ts_id (sessions s))" "sid \<notin> ts_id ` set (sessions s)"
    and fresh: "token \<notin> ts_token ` set (sessions s)" "token \<noteq> []"
    and older: "\<forall>x \<in> set (sessions s). ts_createdAt x < now s"
    and menu: "loadVenueMenu (tab_venueId t) s = Some m" "map_of (menuCache s) (tab_venueId t) \<in> {None, Some m}"
    and soon: "now s \<le> later" "later \<le> now s + IDLE_MS"
  shows "fst (TablePage code err (Some tok) (s'\<lparr>now := later\<rparr>)) =
    Shown (Guest_app code \<lparr>cm_menu = m, cm_tableName = tab_name t, cm_tableCode = code\<rparr>)"
proof -
  obtain ws oas where s': "tok = token" "tab_active t"
    "s' = (snd (mintSession newVisit sid token (tab_id t) (tab_venueId t) (s\<lparr>windows := ws\<rparr>)))\<lparr>orderAttempts := oas\<rparr>"
    using scan_landed[OF scan t] by blast
  let ?u = "snd (mintSession newVisit sid token (tab_id t) (tab_venueId t) (s\<lparr>windows := ws\<rparr>))"
  obtain x where x: "findFirst (\<lambda>x. ts_token x = token) (sessions ?u) = Some x" "ts_tableId x = tab_id t"
      "ts_venueId x = tab_venueId t" "ts_revokedAt x = None" "ts_expiresAt x = now s + HARD_CAP_MS" "ts_lastSeenAt x = now s"
    using minted_is_live[of "s\<lparr>windows := ws\<rparr>" sid token newVisit "tab_id t" "tab_venueId t"] ids fresh(1) older by auto
  have "findFirst (\<lambda>r. tab_id r = tab_id t) (tables s) = Some t"
    by (rule findFirst_key[OF tabs]) (use findFirst_SomeD[OF t] in simp)
  then have live: "live_session (Some tok) (Some code) (s'\<lparr>now := later\<rparr>) x t"
    using x s'(1,2) fresh(2) soon findFirst_SomeD[OF t]
    by (simp add: live_session_def s'(3) mint_keeps HARD_CAP_MS_def IDLE_MS_def)
  have code: "tab_code t = code" using findFirst_SomeD[OF t] by simp
  let ?a = "\<lparr>as_id = ts_id x, as_venueId = ts_venueId x, as_tableId = ts_tableId x,
    as_tableCode = tab_code t, as_tableName = tab_name t, as_visitId = ts_visitId x\<rparr>"
  obtain ss where got: "getActiveSession (Some tok) (Some code) (s'\<lparr>now := later\<rparr>) = (Some ?a, s'\<lparr>now := later, sessions := ss\<rparr>)"
    using getActiveSession_live[OF live] getActiveSession_sessions[of "Some tok" "Some code" "s'\<lparr>now := later\<rparr>"]
    by (metis (no_types, lifting) fst_conv prod.collapse)
  have "loadVenueMenu (tab_venueId t) (s'\<lparr>now := later, sessions := ss\<rparr>) = loadVenueMenu (tab_venueId t) s"
    by (rule load_same) (simp_all add: s'(3) mint_keeps)
  moreover have "menuCache (s'\<lparr>now := later, sessions := ss\<rparr>) = menuCache s" by (simp add: s'(3) mint_keeps)
  ultimately obtain s2 where "menuForSession ?a (s'\<lparr>now := later, sessions := ss\<rparr>) =
      (Done \<lparr>cm_menu = m, cm_tableName = tab_name t, cm_tableCode = code\<rparr>, s2)"
    using menuForSession_current[of ?a "s'\<lparr>now := later, sessions := ss\<rparr>" m] menu x(3) code by auto
  then show ?thesis by (simp add: TablePage_def got)
qed



lemma getStaff_SomeD:
  assumes "fst (getStaff pf cookie s) = Some st"
  shows "\<exists>c. getStaff pf cookie s = (Some st, s\<lparr>accountCache := c\<rparr>)"
  using assms getStaff_state[of s pf cookie] by (cases "getStaff pf cookie s") (auto simp: same_but_cache_def)

text \<open>
  C36: The printed sheet opens every table. The sheet an administrator prints has exactly one card
  for each active table of the venue, and what the card encodes is the address of the scan page of
  that table with the key the scan page accepts.
\<close>

theorem printed_cards_open_tables:
  assumes page: "QrSheetPage pf hmac draw e rawSize incl cookie s = (Shown q, s1)"
    and staff: "fst (getStaff pf cookie s) = Some st"
    and codes: "distinct (map tab_code (tables s))"
  shows "mset (map qc_id (filter qc_active (qs_cards q))) =
      mset (map tab_id (filter (\<lambda>t. tab_venueId t = sc_venueId st \<and> tab_active t) (tables s))) \<and>
    (\<forall>c \<in> set (qs_cards q). qc_active c \<longrightarrow> (\<exists>t \<in> set (tables s). \<exists>k. tab_id t = qc_id c \<and>
      qc_dataUrl c = draw (ev_baseUrl e @ lit ''/scan/'' @ lit (tab_code t) @ lit ''?k='' @ k) (qrPx (qs_size q)) \<and>
      current_code hmac (tab_code t) k s))"
proof -
  obtain ca where g: "getStaff pf cookie s = (Some st, s\<lparr>accountCache := ca\<rparr>)"
    using getStaff_SomeD[OF staff] by blast
  obtain v where v: "findFirst (\<lambda>v. ven_id v = sc_venueId st) (venues s) = Some v"
    and q: "qs_cards q = map (qr_card_of hmac draw (baseUrl e) v (size_of_param rawSize))
      (printed_tables (sc_venueId st) (incl = Some (lit ''all'')) s)" "qs_size q = size_of_param rawSize"
    using page by (auto simp: QrSheetPage_def g printed_tables_def split: if_splits option.splits)
  have act: "qc_active (qr_card_of hmac draw (baseUrl e) v z t) = tab_active t"
    "qc_id (qr_card_of hmac draw (baseUrl e) v z t) = tab_id t" for z t
    by (simp_all add: qr_card_of_def)
  have "filter tab_active (printed_tables (sc_venueId st) inc s) =
      orderBy tab_createdAt (filter (\<lambda>t. tab_venueId t = sc_venueId st \<and> tab_active t) (tables s))" for inc
    by (simp add: printed_tables_def orderBy_def filter_sort conj_commute cong: conj_cong)
  then have "mset (map qc_id (filter qc_active (qs_cards q))) =
      mset (map tab_id (filter (\<lambda>t. tab_venueId t = sc_venueId st \<and> tab_active t) (tables s)))"
    by (simp add: q filter_map o_def act orderBy_def)
  moreover have "\<exists>t \<in> set (tables s). \<exists>k. tab_id t = qc_id c \<and>
      qc_dataUrl c = draw (ev_baseUrl e @ lit ''/scan/'' @ lit (tab_code t) @ lit ''?k='' @ k) (qrPx (qs_size q)) \<and>
      current_code hmac (tab_code t) k s" if c: "c \<in> set (qs_cards q)" "qc_active c" for c
  proof -
    obtain t where t: "t \<in> set (tables s)" "tab_venueId t = sc_venueId st"
        "c = qr_card_of hmac draw (baseUrl e) v (size_of_param rawSize) t"
      using c(1) by (auto simp: q printed_tables_def)
    have "current_code hmac (tab_code t) (lit (signTableQr hmac (ven_qrSecret v) (tab_code t) (tab_qrVersion t))) s"
      using findFirst_key[OF codes t(1)] v t(2) c(2) t(3) by (simp add: current_code_def act)
    then show ?thesis using t(1,3) by (auto simp: qr_card_of_def tableQrUrl_def baseUrl_def q)
  qed
  ultimately show ?thesis by blast
qed


definition T1_code :: jstr where
  "T1_code = lit (signTableQr toy_mac ''sec'' ''T1'' 1)"

lemma sample_code: "current_code toy_mac ''T1'' (k_param (Some T1_code)) sample"
  by (simp add: current_code_def T1_code_def k_param_def sample_defs)

lemma sample_budgets: "scan_budgets bare_request sample"
  by (simp add: scan_budgets_def Let_def limiter_hit_def rateLimit_def sample_fields MAX_KEYS_def
      FAIL_LIMIT_def OK_LIMIT_def clearRateLimit_def map_of_map_set delete_conv bare_request_def clientIp_def
      or_unknown_def case_prod_unfold flip: lit_append)


definition home_env :: env where
  "home_env = \<lparr>ev_authSecret = [], ev_databaseUrl = [], ev_cronSecret = [],
     ev_baseUrl = lit ''https://theheaven.app'', ev_uploadDir = [], ev_trustProxy = lit ''0''\<rparr>"

theorem printed_cards_open_tables_witness:
  "\<exists>q s1. QrSheetPage toy_platform toy_mac (\<lambda>url w. url) home_env None None (Some ''a1-0'') sample = (Shown q, s1) \<and>
     map qc_id (filter qc_active (qs_cards q)) = [''t1'']"
proof -
  let ?st = "\<lparr>sc_sub = ''a1'', sc_venueId = ''v1'', sc_role = Admin, sc_name = lit ''a1'', sc_ver = Some 0\<rparr>"
  have st: "fst (getStaff toy_platform (Some ''a1-0'') sample) = Some ?st"
    by (simp add: getStaff_def toy_platform_def toy_verify_def toy_claims_def accountState_def
        sample_defs state_of_user_def token_version_def)
  obtain q s1 where page: "QrSheetPage toy_platform toy_mac (\<lambda>url w. url) home_env None None (Some ''a1-0'') sample = (Shown q, s1)"
    using getStaff_SomeD[OF st] by (auto simp: QrSheetPage_def sample_fields)
  have "distinct (map tab_code (tables sample))" by (simp add: sample_defs)
  from printed_cards_open_tables[OF page st this]
  have "mset (map qc_id (filter qc_active (qs_cards q))) = {#''t1''#}" by (simp add: sample_defs)
  then show ?thesis using page by (metis mset_single_iff)
qed

text \<open>The links of the sheet reopen it with the choice they name and keep the other.\<close>

definition link_param :: "jstr \<Rightarrow> string \<Rightarrow> jstr option" where
  "link_param url key = map_of (map (\<lambda>p. case split_on 61 p of [k, v] \<Rightarrow> (k, v) | _ \<Rightarrow> ([], []))
     (split_on 38 (last (split_on 63 url)))) (lit key)"


definition plain_sheet :: "card_size \<Rightarrow> bool \<Rightarrow> qr_sheet" where
  "plain_sheet z i = \<lparr>qs_venueName = [], qs_baseUrl = [], qs_cards = [], qs_size = z, qs_includeInactive = i\<rparr>"

fun sheet_links_ok :: "card_size \<Rightarrow> card_size \<times> bool \<Rightarrow> bool" where
  "sheet_links_ok z (y, i) \<longleftrightarrow>
     size_of_param (link_param (size_link z (plain_sheet y i)) ''size'') = z \<and>
     (link_param (size_link z (plain_sheet y i)) ''include'' = Some (lit ''all'') \<longleftrightarrow> i) \<and>
     size_of_param (link_param (inactive_link (plain_sheet y i)) ''size'') = y \<and>
     (link_param (inactive_link (plain_sheet y i)) ''include'' = Some (lit ''all'') \<longleftrightarrow> \<not> i)"

lemma split_on_two: "d \<in> set cs \<Longrightarrow> \<exists>v w ws. split_on d cs = v # w # ws"
  by (induction cs) (auto split: list.splits)

lemma last_split_on: "c \<noteq> d \<Longrightarrow> d \<in> set cs \<Longrightarrow> last (split_on d (c # cs)) = last (split_on d cs)"
  using split_on_two[of d cs] by auto

lemma query_part: "last (split_on 63 (lit ''/admin/qr-sheet?'' @ s)) = last (split_on 63 s)"
proof -
  have "last (split_on 63 (63 # s)) = last (split_on 63 s)" by simp
  then show ?thesis by (simp add: lit_def last_split_on del: split_on.simps)
qed

lemma sheet_links_checked: "sheet_links_ok z (y, i)"
  by (cases z; cases y; cases i;
    simp add: link_param_def size_link_def inactive_link_def sheet_query_def plain_sheet_def size_key_def query_part;
    simp add: lit_def size_of_param_def)

lemma sheet_links_keep_choice:
  "size_of_param (link_param (size_link z q) ''size'') = z \<and>
   (link_param (size_link z q) ''include'' = Some (lit ''all'') \<longleftrightarrow> qs_includeInactive q) \<and>
   size_of_param (link_param (inactive_link q) ''size'') = qs_size q \<and>
   (link_param (inactive_link q) ''include'' = Some (lit ''all'') \<longleftrightarrow> \<not> qs_includeInactive q)"
proof -
  have "sheet_links_ok z (qs_size q, qs_includeInactive q)" by (rule sheet_links_checked)
  moreover have "size_link z q = size_link z (plain_sheet (qs_size q) (qs_includeInactive q))"
    "inactive_link q = inactive_link (plain_sheet (qs_size q) (qs_includeInactive q))"
    by (simp_all add: size_link_def inactive_link_def sheet_query_def plain_sheet_def Let_def)
  ultimately show ?thesis by simp
qed

subsection \<open>The redirects of the staff pages\<close>

text \<open>What a browser with this cookie ends on, following at most \<open>hops\<close> redirects.\<close>

datatype staff_page = Login_form | Desk_screen staff_view | Admin_screen staff_view | Elsewhere

fun landed :: "('a \<Rightarrow> staff_page) \<Rightarrow> 'a page \<Rightarrow> string + staff_page" where
  "landed f (Redirected u) = Inl u"
| "landed f (Shown v) = Inr (f v)"
| "landed f Page_throws = Inr Elsewhere"

definition staff_visit :: "platform \<Rightarrow> string option \<Rightarrow> string \<Rightarrow> server \<Rightarrow> (string + staff_page) \<times> server" where
  "staff_visit pf cookie path s =
     (if path = ''/login'' then map_prod (landed (\<lambda>_. Login_form)) id (LoginPage pf cookie s)
      else if path = ''/desk'' then map_prod (landed Desk_screen) id (DeskPage pf cookie s)
      else if path = ''/admin'' then map_prod (landed Admin_screen) id (AdminPage pf cookie s)
      else (Inr Elsewhere, s))"

fun follow_redirects :: "nat \<Rightarrow> platform \<Rightarrow> string option \<Rightarrow> string \<Rightarrow> server \<Rightarrow> staff_page option \<times> server" where
  "follow_redirects hops pf cookie path s =
     (case staff_visit pf cookie path s of
        (Inr p, s1) \<Rightarrow> (Some p, s1)
      | (Inl u, s1) \<Rightarrow> (case hops of 0 \<Rightarrow> (None, s1) | Suc n \<Rightarrow> follow_redirects n pf cookie u s1))"

lemma same_but_cacheD: "same_but_cache s t \<Longrightarrow> now t = now s \<and> venues t = venues s"
proof -
  assume "same_but_cache s t"
  then obtain c where "t = s\<lparr>accountCache := c\<rparr>" by (auto simp: same_but_cache_def)
  then show ?thesis by simp
qed

lemma accountState_again:
  assumes "accountState i s = (a, t)"
  shows "accountState i t = (a, t)"
proof (cases "\<exists>c. map_of (accountCache s) i = Some c \<and> now s - ac_checkedAt c < ACCOUNT_CACHE_MS")
  case True
  then have "t = s" using assms by (auto simp: accountState_def Let_def)
  then show ?thesis using assms by simp
next
  case False
  then have "(a, t) = (case findFirst (\<lambda>u. su_id u = i) (staffUsers s) of
            None \<Rightarrow> (None, s\<lparr>accountCache := AList.delete i (accountCache s)\<rparr>)
          | Some u \<Rightarrow> (Some (state_of_user (now s) u), s\<lparr>accountCache := AList.update i (state_of_user (now s) u) (accountCache s)\<rparr>))"
    using assms by (auto simp: accountState_def Let_def split: option.splits)
  then show ?thesis
    by (cases "findFirst (\<lambda>u. su_id u = i) (staffUsers s)")
      (simp_all add: accountState_def Let_def delete_conv update_conv state_of_user_def ACCOUNT_CACHE_MS_def delete_idem)
qed

lemma getStaff_again:
  assumes got: "getStaff pf cookie s = (a, t)"
  shows "getStaff pf cookie t = (a, t)"
proof -
  have "now t = now s" using same_but_cacheD[OF getStaff_state[of s pf cookie]] got by simp
  then show ?thesis using got
    by (auto simp: getStaff_def dest: accountState_again split: option.splits if_splits prod.splits)
qed

text \<open>
  The redirects of the staff pages settle. Whichever staff page is opened and whatever the
  cookie is worth, the browser ends after at most one redirect: on the login form when the
  cookie identifies nobody, on the desk for a desk account, and for an administrator on the admin
  screen, or on the desk when it was the desk that was asked for.
\<close>

theorem staff_redirects_settle:
  assumes "path \<in> {''/login'', ''/desk'', ''/admin''}"
  shows "fst (follow_redirects 1 pf cookie path s) =
    (case fst (getStaff pf cookie s) of
       None \<Rightarrow> Some Login_form
     | Some st \<Rightarrow> Some ((if sc_role st = Admin \<and> path \<noteq> ''/desk'' then Admin_screen else Desk_screen)
         \<lparr>sv_staffName = sc_name st, sv_currency = venue_currency (sc_venueId st) s\<rparr>))"
proof (cases "getStaff pf cookie s")
  case (Pair a t)
  have "venues t = venues s" using same_but_cacheD[OF getStaff_state[of s pf cookie]] Pair by simp
  then have "venue_currency v t = venue_currency v s" for v by (simp add: venue_currency_def)
  then show ?thesis
    using assms getStaff_again[OF Pair]
    by (auto simp: staff_visit_def LoginPage_def DeskPage_def AdminPage_def Pair split: option.split)
qed

theorem staff_redirects_settle_witness:
  "fst (follow_redirects 1 toy_platform (Some ''d1-0'') ''/admin'' sample) =
     Some (Desk_screen \<lparr>sv_staffName = lit ''d1'', sv_currency = ''TRY''\<rparr>)"
proof -
  have st: "fst (getStaff toy_platform (Some ''d1-0'') sample) =
      Some \<lparr>sc_sub = ''d1'', sc_venueId = ''v1'', sc_role = Desk, sc_name = lit ''d1'', sc_ver = Some 0\<rparr>"
    by (simp add: getStaff_def toy_platform_def toy_verify_def toy_claims_def accountState_def
        sample_defs state_of_user_def token_version_def)
  show ?thesis
    using staff_redirects_settle[of "''/admin''" toy_platform "Some ''d1-0''" sample]
    by (simp add: st venue_currency_def sample_fields del: follow_redirects.simps)
qed

end
