(* ===== verification/GuestScreens.thy ===== *)
theory GuestScreens
  imports Phone
begin

section \<open>What the guest sees\<close>

text \<open>
  The views of the guest's app: \<open>customer/Header.tsx\<close>, \<open>MenuSection.tsx\<close>, \<open>OrdersList.tsx\<close>,
  \<open>BillPanel.tsx\<close>, \<open>CartSheet.tsx\<close>, \<open>CartBar.tsx\<close>, \<open>customer/shared.ts\<close>, the labels of
  \<open>src/lib/i18n.ts\<close> and the composition in \<open>CustomerApp.tsx\<close>. A view is the value of what is
  drawn and of what can be pressed; amounts are kept in kurus, a translated text is its key, and
  the two \<open>toUpperCase\<close> functions are left out.
\<close>

subsection \<open>Names and labels\<close>

definition name_in :: "string \<Rightarrow> jstr \<Rightarrow> jstr \<Rightarrow> jstr" where
  "name_in locale nameTr nameEn = (if locale = ''en'' then nameEn else nameTr)"

definition statusTagClass :: "order_status \<Rightarrow> string" where
  "statusTagClass st = (case st of
     Received \<Rightarrow> ''tag-accent'' | Accepted \<Rightarrow> ''tag-accent'' | Preparing \<Rightarrow> ''tag-accent''
   | Ready \<Rightarrow> ''tag-outline'' | Served \<Rightarrow> ''tag-neutral'' | Rejected \<Rightarrow> ''tag-neutral'' | Cancelled \<Rightarrow> ''tag-neutral'')"

definition statusLabel :: "order_status \<Rightarrow> string" where
  "statusLabel st = (case st of
     Received \<Rightarrow> ''orderReceived'' | Accepted \<Rightarrow> ''orderAccepted'' | Preparing \<Rightarrow> ''orderPreparing''
   | Ready \<Rightarrow> ''orderReady'' | Served \<Rightarrow> ''orderServed'' | Rejected \<Rightarrow> ''orderRejected''
   | Cancelled \<Rightarrow> ''orderCancelled'')"

subsection \<open>The header\<close>

text \<open>The language switch, with what it stores; a store that refuses is ignored, like in the code.\<close>

definition switch_locale :: "phone \<Rightarrow> phone \<times> string" where
  "switch_locale p = (let next = (if ph_locale p = ''tr'' then ''en'' else ''tr'') in (p\<lparr>ph_locale := next\<rparr>, next))"

text \<open>A tab: shows it and loads what it shows.\<close>

definition press_tab :: "tab \<Rightarrow> phone \<Rightarrow> phone" where
  "press_tab t p = (case t of
     Menu_tab \<Rightarrow> setTab t p
   | Orders_tab \<Rightarrow> loads [Load_orders] (setTab t p)
   | Bill_tab \<Rightarrow> loads [Load_bill] (setTab t p))"

text \<open>The rail of categories: the anchor, the name, and whether it is the one pressed last.\<close>

definition category_rail :: "venue_menu \<Rightarrow> string \<Rightarrow> id \<Rightarrow> (id \<times> jstr \<times> bool) list" where
  "category_rail m locale active =
     map (\<lambda>c. (cv_id c, name_in locale (cv_nameTr c) (cv_nameEn c), cv_id c = active)) (vm_categories m)"

subsection \<open>The menu\<close>

record menu_card =
  mc_item :: item_view
  mc_title :: jstr
  mc_subtitle :: "jstr option"
  mc_enabled :: bool
  mc_priceKurus :: int

definition menu_card_of :: "string \<Rightarrow> item_view \<Rightarrow> menu_card" where
  "menu_card_of locale i = \<lparr>mc_item = i, mc_title = name_in locale (iv_nameTr i) (iv_nameEn i),
     mc_subtitle = (let other = (if locale = ''en'' then iv_nameTr i else iv_nameEn i)
        in if iv_nameEn i \<noteq> iv_nameTr i \<and> other \<noteq> [] then Some other else None),
     mc_enabled = iv_available i, mc_priceKurus = iv_priceKurus i\<rparr>"

record menu_block =
  mb_title :: jstr
  mb_cards :: "menu_card list option"

definition MenuSection :: "venue_menu \<Rightarrow> string \<Rightarrow> menu_block list" where
  "MenuSection m locale = map (\<lambda>c. \<lparr>mb_title = name_in locale (cv_nameTr c) (cv_nameEn c),
     mb_cards = (if filter iv_available (cv_items c) = [] then None
       else Some (map (menu_card_of locale) (cv_items c)))\<rparr>) (vm_categories m)"

definition tappable :: "menu_block list \<Rightarrow> item_view list" where
  "tappable bs = concat (map (\<lambda>b. case mb_cards b of None \<Rightarrow> []
     | Some cs \<Rightarrow> map mc_item (filter mc_enabled cs)) bs)"

subsection \<open>The orders\<close>

record order_card =
  oc_id :: id
  oc_number :: int
  oc_otherPhone :: bool
  oc_tag :: string
  oc_label :: string
  oc_reason :: "jstr option"
  oc_rows :: "(int \<times> jstr \<times> jstr \<times> jstr) list"
  oc_cancel :: "bool option"
  oc_totalKurus :: int

text \<open>\<open>oc_cancel\<close> is the button: none, or whether it is enabled.\<close>

definition order_card_of :: "id option \<Rightarrow> customer_order \<Rightarrow> order_card" where
  "order_card_of cancelling o' = \<lparr>oc_id = co_id o', oc_number = co_number o', oc_otherPhone = (\<not> co_mine o'),
     oc_tag = statusTagClass (co_status o'), oc_label = statusLabel (co_status o'),
     oc_reason = (case co_rejectReason o' of None \<Rightarrow> None
       | Some r \<Rightarrow> if co_status o' = Rejected \<and> r \<noteq> [] then Some r else None),
     oc_rows = map (\<lambda>(nm, qty, note, unit, mods). (qty, nm, join_with (lit '', '') (map cm_name mods), note)) (co_items o'),
     oc_cancel = (if cancel_button o' then Some (cancelling \<noteq> Some (co_id o')) else None),
     oc_totalKurus = co_totalKurus o'\<rparr>"

definition OrdersList :: "customer_order list \<Rightarrow> id option \<Rightarrow> order_card list" where
  "OrdersList os cancelling = map (order_card_of cancelling) os"

subsection \<open>The bill\<close>

datatype bill_button = Bill_requested_note | Ask_button bool

record bill_panel =
  bn_rows :: "bill_line list"
  bn_totalKurus :: int
  bn_share :: "(int \<times> nat) option"
  bn_button :: bill_button

text \<open>\<open>None\<close> is the text for an empty bill.\<close>

definition BillPanel :: "customer_bill option \<Rightarrow> bool \<Rightarrow> bill_panel option" where
  "BillPanel bill requesting =
     (case bill of
        None \<Rightarrow> None
      | Some b \<Rightarrow>
          if cb_lines b = [] then None
          else Some \<lparr>bn_rows = cb_lines b, bn_totalKurus = cb_totalKurus b,
            bn_share = (if cb_phoneCount b > 1 then Some (cb_yourTotalKurus b, cb_phoneCount b) else None),
            bn_button = (if cb_billRequested b then Bill_requested_note else Ask_button (\<not> requesting))\<rparr>)"

subsection \<open>The cart\<close>

record cart_row =
  ct_name :: jstr
  ct_options :: "jstr list"
  ct_note :: jstr
  ct_qty :: int
  ct_totalKurus :: int

definition cart_row_of :: "venue_menu \<Rightarrow> string \<Rightarrow> cart_line \<Rightarrow> cart_row option" where
  "cart_row_of m locale l = (case itemById m (cl_itemId l) of None \<Rightarrow> None
     | Some i \<Rightarrow> Some \<lparr>ct_name = name_in locale (iv_nameTr i) (iv_nameEn i),
         ct_options = map (\<lambda>o'. name_in locale (ov_nameTr o') (ov_nameEn o'))
           (filter (\<lambda>o'. ov_id o' \<in> set (cl_optionIds l)) (item_options i)),
         ct_note = cl_note l, ct_qty = cl_qty l, ct_totalKurus = lineTotal m l\<rparr>)"

record cart_sheet =
  cs_rows :: "cart_row list"
  cs_subtotalKurus :: int
  cs_totalKurus :: int
  cs_sendEnabled :: bool

text \<open>\<open>None\<close> is the text for an empty cart.\<close>

definition CartSheet :: "venue_menu \<Rightarrow> phone \<Rightarrow> cart_sheet option" where
  "CartSheet m p = (if ph_cart p = [] then None
     else Some \<lparr>cs_rows = List.map_filter (cart_row_of m (ph_locale p)) (ph_cart p),
       cs_subtotalKurus = cartTotal m (ph_cart p), cs_totalKurus = cartTotal m (ph_cart p),
       cs_sendEnabled = (\<not> ph_submitting p)\<rparr>)"

subsection \<open>The app\<close>

record guest_screen =
  gs_toast :: "toast option"
  gs_menu :: "menu_block list option"
  gs_orders :: "order_card list option"
  gs_bill :: "bill_panel option option"
  gs_confirmCancel :: "id option"
  gs_cartBar :: "(int \<times> int) option"
  gs_cart :: "cart_sheet option option"

text \<open>What is on screen once the menu is there, for the loaded orders and bill.\<close>

definition guest_view :: "venue_menu \<Rightarrow> customer_order list \<Rightarrow> customer_bill option \<Rightarrow> phone \<Rightarrow> guest_screen" where
  "guest_view m os b p = \<lparr>gs_toast = ph_toast p,
     gs_menu = (if ph_tab p = Menu_tab then Some (MenuSection m (ph_locale p)) else None),
     gs_orders = (if ph_tab p = Orders_tab then Some (OrdersList os (ph_cancelling p)) else None),
     gs_bill = (if ph_tab p = Bill_tab then Some (BillPanel b (ph_requestingBill p)) else None),
     gs_confirmCancel = ph_confirmCancel p,
     gs_cartBar = (if cartCount (ph_cart p) > 0 \<and> ph_tab p = Menu_tab \<and> \<not> ph_cartOpen p
       then Some (cartCount (ph_cart p), cartTotal m (ph_cart p)) else None),
     gs_cart = (if ph_cartOpen p then Some (CartSheet m p) else None)\<rparr>"


subsection \<open>What is shown adds up\<close>

lemma tappable_dishes: "tappable (MenuSection m locale) = filter iv_available (menu_items_of m)"
proof -
  have "map mc_item (filter mc_enabled (map (menu_card_of locale) is)) = filter iv_available is" for "is"
    by (induction "is") (simp_all add: menu_card_of_def)
  then show ?thesis
    unfolding tappable_def MenuSection_def menu_items_of_def filter_concat map_map o_def
    by (intro arg_cong[where f = concat] map_cong refl) auto
qed

lemma cart_rows_total:
  "sum_list (map ct_totalKurus (List.map_filter (cart_row_of m locale) cart)) = cartTotal m cart"
  by (induction cart)
    (auto simp: cartTotal_def map_filter_simps cart_row_of_def lineTotal_def split: option.split)

text \<open>
  The cart shows what it charges. The rows of the open cart add up to its total, which is the total
  of the bar below the menu; a line whose dish is gone adds nothing to either.
\<close>

lemma cart_sheet_adds_up:
  assumes "CartSheet m p = Some c"
  shows "sum_list (map ct_totalKurus (cs_rows c)) = cs_totalKurus c \<and>
    (\<forall>n k. gs_cartBar (guest_view m os b p) = Some (n, k) \<longrightarrow> k = cs_totalKurus c)"
  using assms by (auto simp: CartSheet_def cart_rows_total guest_view_def split: if_splits)

lemma getActiveSession_again:
  assumes "getActiveSession c e s = (Some a, s1)"
  shows "getActiveSession c e s1 = (Some a, s1)"
proof -
  obtain x t where live: "live_session c e s x t" using assms getActiveSession_dead[of c e s] by force
  note got = assms[unfolded getActiveSession_live[OF live]]
  show ?thesis
  proof (cases "ts_lastSeenAt x + TOUCH_INTERVAL_MS \<le> now s")
    case False
    then have "s1 = s" using got by simp
    then show ?thesis using assms by simp
  next
    case True
    obtain tok where tok: "c = Some tok" "tok \<noteq> []" "findFirst (\<lambda>x. ts_token x = tok) (sessions s) = Some x"
      using live by (auto simp: live_session_def)
    have s1: "s1 = s\<lparr>sessions := updateMany (\<lambda>y. ts_id y = ts_id x) (touch (now s)) (sessions s)\<rparr>"
      using got True by auto
    have "findFirst (\<lambda>y. ts_token y = tok) (sessions s1) = Some (touch (now s) x)"
      unfolding s1 by simp (subst findFirst_updateMany_key, simp_all add: touch_def tok(3))
    then have "live_session c e s1 (touch (now s) x) t"
      using live tok by (simp add: live_session_def s1 touch_def IDLE_MS_def)
    from getActiveSession_live[OF this] show ?thesis using got True
      by (auto simp: s1 touch_def TOUCH_INTERVAL_MS_def)
  qed
qed

text \<open>
  C37: A guest can cancel exactly the orders that show the button. For every order on the list of a
  phone, the cancellation the server would accept from it is the one it is offered: an order with
  the button is withdrawn when it is pressed, and any other is refused and stays what it was.
\<close>

theorem cancel_button_iff_accepted:
  assumes "GET_orders req s = (Ok os, s1)" and "distinct (map ord_id (orders s))"
    and "c \<in> set (OrdersList os cancelling)" and "POST_cancel req (oc_id c) s1 = (r, s2)"
  shows "if oc_cancel c \<noteq> None
    then r = Ok () \<and> orders s2 = updateMany (\<lambda>o'. ord_id o' = oc_id c) mark_cancelled (orders s1)
    else (\<exists>code err fs. r = Fail code err fs) \<and> orders s2 = orders s1"
proof -
  obtain a where a: "getActiveSession (rq_tableSession req) None s = (Some a, s1)"
    and os: "os = map (customer_order_of (as_id a)) (orderByDesc ord_createdAt (filter (party_order a (now s1)) (orders s1)))"
    using assms(1) by (auto simp: GET_orders_def split: prod.splits option.splits)
  have "orders s1 = orders s" using arg_cong[OF a, of "\<lambda>r. orders (snd r)"] by simp
  then have ids: "distinct (map ord_id (orders s1))" using assms(2) by simp
  obtain o' where o': "o' \<in> set (orders s1)" "c = order_card_of cancelling (customer_order_of (as_id a) o')"
    using assms(3) by (auto simp: OrdersList_def os)
  have c: "oc_id c = ord_id o'" "oc_cancel c \<noteq> None \<longleftrightarrow> ord_sessionId o' = as_id a \<and> ord_status o' = Received"
    by (simp_all add: o'(2) order_card_of_def customer_order_of_def cancel_button_def)
  have only: "x = o'" if "x \<in> set (orders s1)" "ord_id x = ord_id o'" for x
    using that o'(1) ids by (metis (mono_tags) distinct_map inj_onD)
  have found: "findFirst (\<lambda>x. ord_id x = ord_id o' \<and> ord_sessionId x = as_id a) (orders s1) =
      (if ord_sessionId o' = as_id a then Some o' else None)"
  proof (cases "ord_sessionId o' = as_id a")
    case True
    then obtain x where x: "findFirst (\<lambda>x. ord_id x = ord_id o' \<and> ord_sessionId x = as_id a) (orders s1) = Some x"
      using findFirst_Some_ex[OF o'(1), of "\<lambda>x. ord_id x = ord_id o' \<and> ord_sessionId x = as_id a"] by auto
    then show ?thesis using only findFirst_SomeD[OF x] True by auto
  next
    case False
    then show ?thesis using only by (auto simp: findFirst_None_iff)
  qed
  have count: "countWhere (cancellable (ord_id o')) (orders s1) \<noteq> 0" if "ord_status o' = Received"
    using that o'(1) by (auto simp: countWhere_def cancellable_def CUSTOMER_CANCELLABLE_def filter_empty_conv)
  have same: "updateMany (cancellable (ord_id o')) mark_cancelled (orders s1) =
      updateMany (\<lambda>x. ord_id x = ord_id o') mark_cancelled (orders s1)" if "ord_status o' = Received"
    using that only by (auto simp: updateMany_def cancellable_def CUSTOMER_CANCELLABLE_def)
  have "if ord_sessionId o' = as_id a \<and> ord_status o' = Received
    then r = Ok () \<and> orders s2 = updateMany (\<lambda>x. ord_id x = ord_id o') mark_cancelled (orders s1)
    else (\<exists>code err fs. r = Fail code err fs) \<and> orders s2 = orders s1"
    using assms(4) count same
    by (auto simp: POST_cancel_def getActiveSession_again[OF a] cancel_read_def c(1) found cancel_write_def
        CUSTOMER_CANCELLABLE_def publish_def logAttempt_def split: if_splits)
  then show ?thesis unfolding c .
qed


lemma phone1_live:
  "getActiveSession (rq_tableSession phone1) None sample =
     (Some \<lparr>as_id = ''s1'', as_venueId = ''v1'', as_tableId = ''t1'', as_tableCode = ''T1'',
        as_tableName = lit ''Masa 1'', as_visitId = Some ''w1''\<rparr>, sample)"
  by (simp add: getActiveSession_def phone1_def sample_defs IDLE_MS_def TOUCH_INTERVAL_MS_def)

theorem cancel_button_iff_accepted_witness:
  "\<exists>os. GET_orders phone1 sample = (Ok os, sample) \<and> oc_id (OrdersList os None ! 1) = ''o1'' \<and>
     fst (POST_cancel phone1 ''o1'' sample) = Ok ()"
proof -
  obtain os where os: "GET_orders phone1 sample = (Ok os, sample)"
    and list: "os = map (customer_order_of ''s1'') [sample_order ''o2'' ''s2'' 2 Accepted 300 [sample_line ''l3'' 300 1],
      sample_order ''o1'' ''s1'' 1 Received 2500 [sample_line ''l1'' 1000 2, sample_line ''l2'' 500 1]]"
    by (simp add: GET_orders_def phone1_live party_order_def sample_fields sample_order_def orderByDesc_def)
  have c: "OrdersList os None ! 1 \<in> set (OrdersList os None)" "oc_id (OrdersList os None ! 1) = ''o1''"
    "oc_cancel (OrdersList os None ! 1) \<noteq> None"
    by (simp_all add: list OrdersList_def order_card_of_def customer_order_of_def cancel_button_def sample_order_def)
  have ids: "distinct (map ord_id (orders sample))" by (simp add: sample_fields sample_order_def)
  show ?thesis
    using cancel_button_iff_accepted[OF os ids c(1) surjective_pairing] c(2,3) os by auto
qed

lemma bill_loop_ids:
  "fst ` set (snd (bill_loop os (lines, per))) = fst ` set per \<union> ord_sessionId ` set os"
proof (induction os arbitrary: lines per)
  case (Cons o' os)
  have "fst ` set (AList.update k w per) = insert k (fst ` set per)" for k and w :: int
    by (induction per) auto
  then show ?case by (simp add: Let_def Cons.IH)
qed simp

lemma phones_of_bill:
  assumes "buildBill vid s = Some b"
  shows "set (map bp_sessionId (b_phones b)) = (ord_sessionId ` set (filter (billed vid) (orders s)))"
  using bill_loop_ids[of "visit_orders vid (orders s)" "[]" "[]"]
  by (auto simp: buildBill_SomeD(5)[OF assms] phone_entries_ids visit_orders_def)

text \<open>
  C38: The bill a guest sees is exact. The rows of the bill tab add up to the total shown, which is
  the worth of every order of the party that was neither refused nor withdrawn; the share is shown
  exactly when more than one phone ordered, and it is the worth of this phone's own orders.
\<close>

theorem guest_bill_is_exact:
  assumes "GET_bill req s = (Ok b, s1)" and "BillPanel (Some b) requesting = Some p"
    and "getActiveSession (rq_tableSession req) None s = (Some a, s1)"
  shows "\<exists>vid. as_visitId a = Some vid \<and>
    sum_list (map bl_lineTotalKurus (bn_rows p)) = bn_totalKurus p \<and>
    bn_totalKurus p = sum_list (map order_worth (filter (billed vid) (orders s))) \<and>
    (bn_share p = (let n = card (ord_sessionId ` set (filter (billed vid) (orders s)))
       in if n > 1 then Some (sum_list (map order_worth
         (filter (\<lambda>o'. billed vid o' \<and> ord_sessionId o' = as_id a) (orders s))), n) else None))"
proof -
  obtain vid bl where v: "as_visitId a = Some vid" and bl: "buildBill vid s1 = Some bl"
    and b: "cb_lines b = b_lines bl" "cb_totalKurus b = b_totalKurus bl" "cb_yourTotalKurus b = your_total (as_id a) bl"
      "cb_phoneCount b = length (b_phones bl)"
    using assms(1,3) by (auto simp: GET_bill_def visit_of_def split: option.splits if_splits)
  have os: "orders s1 = orders s" using arg_cong[OF assms(3), of "\<lambda>r. orders (snd r)"] by simp
  have lines: "sum_list (map bl_lineTotalKurus (b_lines bl)) = b_totalKurus bl"
    using bl by (auto simp: buildBill_def Let_def case_prod_unfold split: option.splits)
  have phones: "length (b_phones bl) = card (ord_sessionId ` set (filter (billed vid) (orders s)))"
  proof -
    have "length (b_phones bl) = card (set (map bp_sessionId (b_phones bl)))"
      using bill_adds_up[OF bl] by (metis distinct_card length_map)
    then show ?thesis using phones_of_bill[OF bl] by (simp add: os)
  qed
  show ?thesis
    using assms(2) v lines bill_adds_up[OF bl] customer_share_exact[OF bl, of "as_id a"] b phones
    by (auto simp: BillPanel_def os Let_def split: if_splits)
qed

theorem guest_bill_is_exact_witness:
  "\<exists>b p. GET_bill phone1 sample = (Ok b, sample) \<and> BillPanel (Some b) False = Some p \<and>
     bn_totalKurus p = 2800 \<and> bn_share p = Some (2500, 2)"
proof -
  obtain b where b: "GET_bill phone1 sample = (Ok b, sample)" "cb_lines b = b_lines sample_bill"
    by (simp add: GET_bill_def phone1_live visit_of_def sample_bill)
  have "b_lines sample_bill \<noteq> []"
    by (simp add: buildBill_SomeD(4)[OF sample_bill] visit_orders_def billed_def notVoid_def VOID_STATUSES_def sample_fields
        sample_order_def sample_line_def orderBy_def live_items_def bill_line_of_def)
  then obtain p where p: "BillPanel (Some b) False = Some p" by (simp add: BillPanel_def b)
  have phones: "ord_sessionId ` set (filter (billed ''w1'') (orders sample)) = {''s1'', ''s2''}"
    by (auto simp: sample_fields sample_order_def billed_def notVoid_def VOID_STATUSES_def)
  show ?thesis
    using guest_bill_is_exact[OF b(1) p phone1_live] b p
    by (auto simp: phones Let_def sample_fields sample_order_def sample_line_def billed_def notVoid_def VOID_STATUSES_def order_worth_def
        live_items_def line_total_def)
qed

end
