(* ===== verification/DeskView.thy ===== *)
theory DeskView
  imports DeskScreen
begin

section \<open>What the desk sees\<close>

text \<open>
  The views of \<open>src/components/DeskBoard.tsx\<close>: the table tiles, the order cards, the bill dialog
  and the correction dialog, as the values they draw and the buttons that are enabled. Amounts are
  kept in kurus, the clock time of a card is left out. Below them stands what the amount of the
  bill dialog is worth when the table is settled.
\<close>

subsection \<open>The order cards\<close>

record status_look =
  sk_icon :: jstr
  sk_label :: jstr
  sk_cls :: string

definition statusConfig :: "order_status \<Rightarrow> status_look" where
  "statusConfig st = (case st of
     Received \<Rightarrow> \<lparr>sk_icon = [9679], sk_label = lit ''New / Yeni'', sk_cls = ''tag-accent''\<rparr>
   | Accepted \<Rightarrow> \<lparr>sk_icon = [9679], sk_label = lit ''Onayland'' @ [305], sk_cls = ''tag-accent''\<rparr>
   | Preparing \<Rightarrow> \<lparr>sk_icon = [9681], sk_label = lit ''Preparing / Haz'' @ [305] @ lit ''rlan'' @ [305] @ lit ''yor'',
       sk_cls = ''tag-accent''\<rparr>
   | Ready \<Rightarrow> \<lparr>sk_icon = [9675], sk_label = lit ''Ready / Haz'' @ [305] @ lit ''r'', sk_cls = ''tag-outline''\<rparr>
   | Served \<Rightarrow> \<lparr>sk_icon = [10003], sk_label = lit ''Served / Servis Edildi'', sk_cls = ''tag-neutral''\<rparr>
   | Rejected \<Rightarrow> \<lparr>sk_icon = [10005], sk_label = lit ''Rejected / Reddedildi'', sk_cls = ''tag-neutral''\<rparr>
   | Cancelled \<Rightarrow> \<lparr>sk_icon = [10005], sk_label = lit ''M'' @ [252] @ [351] @ lit ''teri iptali / Customer cancelled'',
       sk_cls = ''tag-neutral''\<rparr>)"

record desk_card =
  dc_id :: id
  dc_tableName :: jstr
  dc_number :: int
  dc_ageMin :: int
  dc_urgent :: bool
  dc_faded :: bool
  dc_status :: status_look
  dc_newSession :: bool
  dc_printerFailed :: bool
  dc_items :: "(int \<times> jstr \<times> jstr \<times> jstr) list"
  dc_reason :: "jstr option"
  dc_totalKurus :: int
  dc_buttons :: "card_button list"

definition shown_text :: "jstr option \<Rightarrow> jstr option" where
  "shown_text x = (case x of None \<Rightarrow> None | Some r \<Rightarrow> if r = [] then None else Some r)"

definition OrderCard :: "time \<Rightarrow> board_order \<Rightarrow> desk_card" where
  "OrderCard t c = \<lparr>dc_id = bo_id c, dc_tableName = bo_tableName c, dc_number = bo_number c,
     dc_ageMin = age_min t c, dc_urgent = urgent t c, dc_faded = (bo_status c \<in> set DONE),
     dc_status = statusConfig (bo_status c), dc_newSession = bo_newSession c,
     dc_printerFailed = (bo_posStatus c = Some Failed),
     dc_items = map (\<lambda>(_, name, qty, note, mods). (qty, name, join_with (lit '', '') mods, note)) (bo_items c),
     dc_reason = shown_text (bo_rejectReason c), dc_totalKurus = bo_totalKurus c,
     dc_buttons = card_buttons (bo_status c)\<rparr>"

subsection \<open>The tables and the bill\<close>

record table_tile =
  tl_visitId :: id
  tl_tableName :: jstr
  tl_requestedMin :: "int option"
  tl_totalKurus :: int
  tl_orderCount :: nat
  tl_phoneCount :: "nat option"
  tl_dismiss :: bool

text \<open>The minutes next to a request are shown from one on.\<close>

definition tile_of :: "time \<Rightarrow> bill_row \<Rightarrow> table_tile" where
  "tile_of t b = \<lparr>tl_visitId = br_visitId b, tl_tableName = br_tableName b,
     tl_requestedMin = (if bill_requested b then Some (max 0 (waiting_min t b)) else None),
     tl_totalKurus = br_totalKurus b, tl_orderCount = br_orderCount b,
     tl_phoneCount = (if br_phoneCount b > 1 then Some (br_phoneCount b) else None),
     tl_dismiss = bill_requested b\<rparr>"

record settle_dialog =
  st_tableName :: jstr
  st_rows :: "bill_line list"
  st_totalKurus :: int
  st_splitCount :: "nat option"
  st_split :: "(jstr \<times> int) list"
  st_error :: "settle_text option"
  st_buttons :: "(payment_method \<times> bool) list"
  st_closable :: bool

definition settle_view :: "desk \<Rightarrow> settle_dialog option" where
  "settle_view d = (case ds_settling d of None \<Rightarrow> None
     | Some b \<Rightarrow> Some \<lparr>st_tableName = b_tableName b, st_rows = b_lines b, st_totalKurus = b_totalKurus b,
         st_splitCount = (if length (b_phones b) > 1 then Some (length (b_phones b)) else None),
         st_split = (if length (b_phones b) > 1 \<and> ds_showSplit d
           then map (\<lambda>p. (bp_label p, bp_totalKurus p)) (b_phones b) else []),
         st_error = ds_settleError d, st_buttons = settle_buttons d, st_closable = (\<not> ds_settleBusy d)\<rparr>)"

subsection \<open>The correction dialog\<close>

record edit_row =
  er_name :: jstr
  er_struck :: bool
  er_qty :: int
  er_less :: bool
  er_more :: bool

definition edit_row_of :: "edit_dialog \<Rightarrow> id \<times> jstr \<times> int \<times> jstr \<times> jstr list \<Rightarrow> edit_row" where
  "edit_row_of g i = \<lparr>er_name = fst (snd i), er_struck = (qty_of g (item_id i) = 0), er_qty = qty_of g (item_id i),
     er_less = (qty_of g (item_id i) \<noteq> 0), er_more = (qty_of g (item_id i) < item_qty i)\<rparr>"

record edit_view =
  ew_totalKurus :: int
  ew_alreadySent :: bool
  ew_rows :: "edit_row list"
  ew_edits :: "(jstr \<times> bool \<times> line_change list) list"
  ew_error :: "edit_text option"
  ew_save :: bool
  ew_close :: bool

definition edit_view_of :: "edit_dialog \<Rightarrow> edit_view" where
  "edit_view_of g = \<lparr>ew_totalKurus = bo_totalKurus (dg_order g),
     ew_alreadySent = (bo_status (dg_order g) \<noteq> Received), ew_rows = map (edit_row_of g) (bo_items (dg_order g)),
     ew_edits = bo_edits (dg_order g), ew_error = dg_error g,
     ew_save = (\<not> dg_busy g \<and> changed g), ew_close = (\<not> dg_busy g)\<rparr>"

subsection \<open>The board\<close>

datatype board_warning = Server_unreachable | Live_link_dropped

record board_view =
  bv_warning :: "board_warning option"
  bv_notice :: bool
  bv_tiles :: "table_tile list"
  bv_settle :: "settle_dialog option"
  bv_edit :: "edit_view option"
  bv_nothing :: bool
  bv_cards :: "desk_card list"

definition board_view_of :: "desk \<Rightarrow> board_view" where
  "board_view_of d = \<lparr>bv_warning = (if ds_loadError d then Some Server_unreachable
       else if \<not> ds_connected d then Some Live_link_dropped else None),
     bv_notice = ds_amendmentNotice d, bv_tiles = map (tile_of (ds_now d)) (ds_bills d),
     bv_settle = settle_view d, bv_edit = map_option edit_view_of (ds_editing d),
     bv_nothing = (active_cards d = [] \<and> \<not> ds_showAll d),
     bv_cards = map (OrderCard (ds_now d)) (shown_cards d)\<rparr>"

subsection \<open>What the bill dialog shows\<close>

text \<open>The rows add up to the total, and so do the phones when the split is shown.\<close>

lemma settle_dialog_adds_up:
  assumes "buildBill vid s = Some b" and "ds_settling d = Some b" and "settle_view d = Some v"
  shows "sum_list (map bl_lineTotalKurus (st_rows v)) = st_totalKurus v \<and>
    (st_split v \<noteq> [] \<longrightarrow> sum_list (map snd (st_split v)) = st_totalKurus v)"
proof -
  have "sum_list (map bl_lineTotalKurus (b_lines b)) = b_totalKurus b"
    using assms(1) by (auto simp: buildBill_def Let_def case_prod_unfold split: option.splits)
  moreover have "sum_list (map bp_totalKurus (b_phones b)) = b_totalKurus b" using bill_adds_up[OF assms(1)] by blast
  ultimately show ?thesis using assms(2,3) by (auto simp: settle_view_def o_def split: if_splits)
qed


definition late_sample :: server where
  "late_sample = sample\<lparr>orders := orders sample @ [sample_order ''o3'' ''s2'' 3 Served 900 [sample_line ''l4'' 900 1]]\<rparr>"


end
