(* ===== verification/Spec2Isabelle.thy ===== *)
theory Spec2Isabelle
  imports Scan VisitRace Export Media Upkeep Editor StaffScreen Dialogs SettingsScreens FloorScreens Pages GuestScreens DeskView
begin

text \<open>
  The ordering system of a restaurant (TypeScript, Next.js route handlers over a Postgres
  database, React screens). Guests scan a code printed on their table, order from their phones
  and ask for the bill; the desk accepts, corrects and settles; an administrator edits menu,
  tables and accounts; a print agent in the kitchen collects the tickets. One server process
  serves a venue.

  \<^bold>\<open>How the program is modelled.\<close> The state of the server is one record, \<open>server\<close> (theory Schema):
  a list of rows for each model of \<open>prisma/schema.prisma\<close>, the in-memory tables of the process
  (rate limiter, account cache, menu cache), the log of published events and the clock. A route
  handler is a function from the request and the state to a response and the state; every early
  return is a branch, an exception that leaves the handler is the response \<open>Crash\<close>. A Prisma
  statement is one atomic step (\<open>findFirst\<close>, \<open>updateMany\<close>, \<open>deleteMany\<close>, \<open>orderBy\<close> of Prelude).
  Where the code awaits between a read and the write that depends on it, the handler is split
  into its read part and its write part (\<open>settle_read\<close> and \<open>settle_write\<close>, \<open>desk_read\<close> and
  \<open>desk_write\<close>, \<open>edit_read\<close> and \<open>edit_write\<close>, \<open>claim_read\<close> and \<open>claim_write\<close>), so that
  interleavings are statements about the parts in another order; the whole handler is their
  composition. What other requests do in the middle of the ticket-number loop is an argument of
  the loop. Generated identifiers, tokens and random bytes are arguments. Library code that is
  not part of the repository is a parameter: the HMAC, the hash and token functions
  (\<open>platform\<close>), \<open>toLocaleString\<close> (\<open>locale_fns\<close>), the image library, the QR encoder, the host
  name parser. A screen is a record of its React states; a handler that awaits the server is what
  it sends and what it does with the reply, \<open>None\<close> when the request or its answer was lost. SWR is
  the list of loads asked for, and its reply a step; the Tab order of the browser and the rule by
  which React runs effects are stated where they are used (Dialogs). Amounts are integers of kurus; where a value is
  stored in a 32-bit column the check is written out (\<open>int4\<close>). Strings are lists of UTF-16 code
  units (\<open>jstr\<close>).

  \<^bold>\<open>Theories and the code they model.\<close>
  Prelude: shared types and statements, machines and their invariants, conditional writes (two
  locales, interpreted by the components that rely on them).
  OrderStatus: \<open>src/lib/orderStatus.ts\<close>. Schema: the database schema and \<open>src/lib/bus.ts\<close>.
  RateLimit: \<open>src/lib/rateLimit.ts\<close>, \<open>src/lib/attempts.ts\<close>. Qr: \<open>src/lib/qr.ts\<close>.
  Bill, Visit, VisitRace: \<open>src/lib/visit.ts\<close> and the bill routes; VisitRace is the race of two
  scans for the first visit of a table. TableSession: \<open>src/lib/tableSession.ts\<close>.
  Scan: \<open>src/app/scan\<close>. Orders: \<open>src/app/api/orders\<close>. OrderEdit: \<open>src/lib/orderEdit.ts\<close>.
  Staff: \<open>src/lib/staffAuth.ts\<close>, \<open>src/lib/staffAdmin.ts\<close> and the login, password and account
  routes. Ticket: \<open>src/lib/money.ts\<close>, \<open>src/lib/pos/ticket.ts\<close> and its neighbours. Outbox:
  \<open>src/lib/pos/outbox.ts\<close>, the bridge and retry routes. Desk: the routes under \<open>api/desk\<close> and
  the guest's bill. Venue: settings, tables, QR secret, bridge keys. Menu: \<open>src/lib/menu.ts\<close> and
  the menu editor. Reporting, Export: figures, order log, CSV. Live: \<open>src/lib/sse.ts\<close> and the two
  streams. Env: \<open>src/lib/env.ts\<close>, the page policy of \<open>src/proxy.ts\<close> and the origin check. Media:
  photos, from upload to delivery, with POSIX path resolution. Upkeep: retention, the scheduler,
  the manual sweep and the health check. Sample is a small restaurant on which the witnesses are
  evaluated.
  The screens are state machines beside the server. Phone: the state and handlers of the guest's
  app (\<open>src/components/CustomerApp.tsx\<close> and its sheets); GuestScreens: what its tabs draw.
  DeskScreen: \<open>src/components/DeskBoard.tsx\<close>; DeskView: what it draws. Decimal, Editor: the menu
  tab and the dish dialog, with prices as the binary fractions of the number type. StaffScreen: the
  account panel, the password dialog, the login form. Dialogs: the keyboard focus of dialogs and
  sheets. SettingsScreens: the venue form, the bridge keys, the danger zone. FloorScreens: tables,
  order log, printer panel. Pages: the server pages under \<open>src/app\<close>, the sheet of printed codes
  (\<open>src/components/QrSheet.tsx\<close>) and \<open>src/instrumentation.ts\<close>.

  \<^bold>\<open>How the parts interact.\<close> A scan (Scan) opens or joins a visit (Visit) and mints a session
  (TableSession); the session authorises orders (Orders) priced from the menu (Menu), which
  publish events (Schema) that reach the desk and the phones (Live, Phone); the desk moves
  orders along their life (Desk, OrderStatus), which queues tickets (Outbox, Ticket), corrects
  them (OrderEdit) and settles the visit, which closes it, marks its orders paid and revokes its
  sessions; settled visits are what the figures add up (Reporting, Export). The pages (Pages) take
  what the scan left and show the guest app; a screen theory joins what a screen sends to the route
  that receives it and the route's reply to what the screen shows, so that its theorems run from a
  press to the rows of the database and back. \<open>register\<close> (Pages) reads the environment (Env) and
  starts the scheduler (Upkeep), which runs the sweep of the outbox, the closing of abandoned
  visits and retention.

  \<^bold>\<open>What the groups of lemmas show.\<close> Invariants of the tables (unique ticket numbers, totals equal to
  the worth of the lines, one open visit per table, an administrator left in every venue, a menu
  cache that is never old), the effect of each route on the rows it may touch and on no others,
  exclusion of concurrent writers by conditional updates, round trips (the export read back by a
  CSV reader), agreement of two views of the same money (bill and desk list, cart and order,
  screen and server, the button shown and the request accepted, the printed card and the scan that
  accepts it), the way from a scanned code to the menu, termination of order lives and of cursor pages, and the behaviours where
  the code does not keep what its comments promise, each stated as a theorem about the code as
  it is.

  \<^bold>\<open>Bounds and fuel.\<close> The ticket-number loop runs \<open>NUMBER_RETRIES\<close> times, as the code does; it is
  recursion on the attempts left, and it is proved to succeed whenever one attempt meets no
  rival. The walk over the pages of the order log has one more unit of fuel than the log has
  rows, and is proved to reach the end within it. Every other recursion is structural.

  \<^bold>\<open>Not modelled.\<close> Markup and styles of the screens and the table of their texts (a text is its
  key), the sound of the desk; symbolic links and the bytes of files; the image decoder, the QR
  encoder, the timers and sockets of the runtime; SWR's cache and retries; the build settings;
  the bridge agent, a program of its own that is known by the endpoints it calls; the JSON and zod layer below the typed bodies the handlers
  work on; deployment scripts, database migrations and tests.
\<close>

end
